(* ===== verification/Prelude.thy ===== *)
theory Prelude
  imports Main "HOL-Library.Word" "HOL-Library.Char_ord" "HOL-Library.List_Lexorder"
    "HOL-Library.Sublist"
begin

text \<open>
  Shared material of the development: the exceptions of the C++ code as values, the result
  type and the state-and-exception monad its functions are written in, \<^verbatim>\<open>boost::uint64_t\<close>
  arithmetic on \<^typ>\<open>nat\<close> with the wrap-around written out, byte ranges of a memory block
  (\<open>between\<close>, \<open>overwrite\<close>), and the lemmas on lists that the components share.
\<close>

named_theorems u64_simps \<open>64-bit arithmetic that does not wrap\<close>
named_theorems between_simps \<open>byte ranges of a memory block\<close>
named_theorems monad_simps \<open>unfolding of the result and state monads\<close>

section \<open>Exceptions and results\<close>

text \<open>
  What a call can end with other than a value: the exceptions the sources throw or let
  through, and three outcomes that are not exceptions. \<open>UndefinedBehaviour\<close> marks an access
  outside a memory block (a \<^verbatim>\<open>memcpy\<close> past the end of a vector, say), \<open>Diverges\<close> a loop
  that is entered again in the same state for ever, and \<open>Terminate\<close> a call of
  \<^verbatim>\<open>std::terminate\<close>.
\<close>

datatype error =
    RuntimeError string
  | LogicError string
  | OutOfRange string
  | LengthError
  | BadLexicalCast
  | HttpException nat
  | UnknownException
  | UndefinedBehaviour
  | Diverges
  | Terminate

type_synonym 'a result = "error + 'a"

definition bindE :: "'a result \<Rightarrow> ('a \<Rightarrow> 'b result) \<Rightarrow> 'b result" where
  "bindE m f = (case m of Inl e \<Rightarrow> Inl e | Inr x \<Rightarrow> f x)"

text \<open>A loop over a sequence that threads a value and stops at the first exception.\<close>

fun foldE :: "('a \<Rightarrow> 'b \<Rightarrow> 'b result) \<Rightarrow> 'a list \<Rightarrow> 'b \<Rightarrow> 'b result" where
  "foldE f [] b = Inr b"
| "foldE f (x # xs) b = bindE (f x b) (foldE f xs)"

text \<open>
  Code that mutates an object and may throw: the object as it is when the call ends, and the
  way it ends. An exception keeps the mutations made before it.
\<close>

type_synonym ('s, 'a) st = "'s \<Rightarrow> 'a result \<times> 's"

definition returnS :: "'a \<Rightarrow> ('s, 'a) st" where
  "returnS x = (\<lambda>s. (Inr x, s))"

definition throwS :: "error \<Rightarrow> ('s, 'a) st" where
  "throwS e = (\<lambda>s. (Inl e, s))"

definition getS :: "('s, 's) st" where
  "getS = (\<lambda>s. (Inr s, s))"

definition modifyS :: "('s \<Rightarrow> 's) \<Rightarrow> ('s, unit) st" where
  "modifyS f = (\<lambda>s. (Inr (), f s))"

definition bindS :: "('s, 'a) st \<Rightarrow> ('a \<Rightarrow> ('s, 'b) st) \<Rightarrow> ('s, 'b) st" where
  "bindS m f = (\<lambda>s. case m s of (Inl e, s') \<Rightarrow> (Inl e, s') | (Inr x, s') \<Rightarrow> f x s')"

definition catchS :: "('s, 'a) st \<Rightarrow> (error \<Rightarrow> ('s, 'a) st) \<Rightarrow> ('s, 'a) st" where
  "catchS m h = (\<lambda>s. case m s of (Inl e, s') \<Rightarrow> h e s' | (Inr x, s') \<Rightarrow> (Inr x, s'))"

fun foreachS :: "('a \<Rightarrow> ('s, unit) st) \<Rightarrow> 'a list \<Rightarrow> ('s, unit) st" where
  "foreachS f [] = returnS ()"
| "foreachS f (x # xs) = bindS (f x) (\<lambda>_. foreachS f xs)"

definition liftS :: "'a result \<Rightarrow> ('s, 'a) st" where
  "liftS m = (\<lambda>s. (m, s))"

lemma bindE_simps [simp]:
  "bindE (Inl e) f = Inl e"
  "bindE (Inr x) f = f x"
  by (simp_all add: bindE_def)

lemma bindE_eq_Inr [simp]: "bindE m f = Inr y \<longleftrightarrow> (\<exists>x. m = Inr x \<and> f x = Inr y)"
  by (cases m) auto

lemma bindE_cong [fundef_cong]:
  "m = m' \<Longrightarrow> (\<And>x. m' = Inr x \<Longrightarrow> f x = g x) \<Longrightarrow> bindE m f = bindE m' g"
  by (cases m') auto

lemma bindE_assoc: "bindE (bindE m f) g = bindE m (\<lambda>x. bindE (f x) g)"
  by (cases m) auto

lemmas st_defs = returnS_def throwS_def getS_def modifyS_def liftS_def

declare st_defs [monad_simps] bindS_def [monad_simps] catchS_def [monad_simps]

lemma bindS_Inr: "m s = (Inr x, s') \<Longrightarrow> bindS m f s = f x s'"
  by (simp add: bindS_def)

lemma bindS_Inl: "m s = (Inl e, s') \<Longrightarrow> bindS m f s = (Inl e, s')"
  by (simp add: bindS_def)

lemma bindS_InrE:
  assumes "bindS m f s = (Inr y, t)"
  obtains x s' where "m s = (Inr x, s')" "f x s' = (Inr y, t)"
  using assms by (auto simp: bindS_def split: prod.splits sum.splits)

section \<open>64-bit unsigned arithmetic\<close>

definition two64 :: nat where
  "two64 = 18446744073709551616"

text \<open>\<open>a + b\<close> and \<open>a - b\<close> of two \<^verbatim>\<open>boost::uint64_t\<close> values, both below \<open>two64\<close>.\<close>

definition wadd :: "nat \<Rightarrow> nat \<Rightarrow> nat" where
  "wadd a b = (a + b) mod two64"

definition wsub :: "nat \<Rightarrow> nat \<Rightarrow> nat" where
  "wsub a b = (a + two64 - b) mod two64"

lemma two64_pos [simp]: "0 < two64"
  by (simp add: two64_def)

lemma wadd_small [u64_simps]: "a + b < two64 \<Longrightarrow> wadd a b = a + b"
  by (simp add: wadd_def)

lemma wsub_small [u64_simps]:
  assumes "b \<le> a" "a < two64"
  shows "wsub a b = a - b"
proof -
  from assms have "a + two64 - b = (a - b) + two64" by simp
  with assms show ?thesis by (simp only: wsub_def mod_add_self2) (simp add: less_imp_diff_less)
qed

lemma wsub_wraps: "a < b \<Longrightarrow> b < two64 \<Longrightarrow> wsub a b = a + (two64 - b)"
  by (simp add: wsub_def)

lemma wadd_bound [simp]: "wadd a b < two64"
  by (simp add: wadd_def)

lemma wsub_bound [simp]: "wsub a b < two64"
  by (simp add: wsub_def)

section \<open>Byte ranges of a memory block\<close>

text \<open>The bytes with index \<open>b \<le> i < e\<close>.\<close>

definition between :: "'a list \<Rightarrow> nat \<Rightarrow> nat \<Rightarrow> 'a list" where
  "between xs b e = take (e - b) (drop b xs)"

text \<open>The block after \<open>ys\<close> has been copied over it from index \<open>p\<close> on.\<close>

definition overwrite :: "'a list \<Rightarrow> nat \<Rightarrow> 'a list \<Rightarrow> 'a list" where
  "overwrite xs p ys = take p xs @ ys @ drop (p + length ys) xs"

lemma length_between_min: "length (between xs b e) = min (e - b) (length xs - b)"
  by (simp add: between_def min.commute)

lemma length_between [simp, between_simps]: "e \<le> length xs \<Longrightarrow> length (between xs b e) = e - b"
  by (simp add: length_between_min)

lemma between_refl [simp, between_simps]: "between xs b b = []"
  by (simp add: between_def)

lemma between_empty [between_simps]: "e \<le> b \<Longrightarrow> between xs b e = []"
  by (simp add: between_def)

lemma between_whole [simp, between_simps]: "between xs 0 (length xs) = xs"
  by (simp add: between_def)

lemma between_nth [between_simps]:
  "b + i < e \<Longrightarrow> e \<le> length xs \<Longrightarrow> between xs b e ! i = xs ! (b + i)"
  by (simp add: between_def)

lemma between_between [between_simps]:
  assumes "b + j \<le> e" "e \<le> length xs"
  shows "between (between xs b e) i j = between xs (b + i) (b + j)"
proof -
  have "min (e - (b + i)) (j - i) = b + j - (b + i)"
    using assms by simp
  then show ?thesis
    using assms by (simp add: between_def drop_take add.commute min_def)
qed

lemma between_split:
  assumes "b \<le> m" "m \<le> e"
  shows "between xs b m @ between xs m e = between xs b e"
proof -
  have "between xs b e = take ((m - b) + (e - m)) (drop b xs)"
    using assms by (simp add: between_def)
  also have "\<dots> = between xs b m @ between xs m e"
    unfolding take_add using assms by (simp add: between_def add.commute)
  finally show ?thesis by simp
qed

lemma between_Cons:
  "b < e \<Longrightarrow> b < length xs \<Longrightarrow> between xs b e = xs ! b # between xs (Suc b) e"
  using between_split[of b "Suc b" e xs]
  by (simp add: between_def take_Suc_conv_app_nth Cons_nth_drop_Suc[symmetric])

lemma between_snoc:
  "b < e \<Longrightarrow> e \<le> length xs \<Longrightarrow> between xs b e = between xs b (e - 1) @ [xs ! (e - 1)]"
  using between_split[of b "e - 1" e xs] between_Cons[of "e - 1" e xs]
  by simp

lemma between_append_left [between_simps]:
  "e \<le> length xs \<Longrightarrow> between (xs @ ys) b e = between xs b e"
  by (cases "b \<le> length xs") (auto simp: between_def)

lemma between_append_right [between_simps]:
  "length xs \<le> b \<Longrightarrow> between (xs @ ys) b e = between ys (b - length xs) (e - length xs)"
  by (simp add: between_def)

lemma between_prefix [between_simps]:
  "between (xs @ ys) 0 (length xs) = xs"
  by (simp add: between_def)

lemma length_overwrite [simp, between_simps]:
  "p + length ys \<le> length xs \<Longrightarrow> length (overwrite xs p ys) = length xs"
  by (simp add: overwrite_def)

lemma overwrite_append [between_simps]:
  "overwrite (xs @ zs) (length xs) ys = xs @ ys @ drop (length ys) zs"
  by (simp add: overwrite_def)

lemma between_overwrite_same [between_simps]:
  "p + length ys \<le> length xs \<Longrightarrow> between (overwrite xs p ys) p (p + length ys) = ys"
  by (simp add: between_def overwrite_def)

lemma between_overwrite_before [between_simps]:
  "e \<le> p \<Longrightarrow> p \<le> length xs \<Longrightarrow> between (overwrite xs p ys) b e = between xs b e"
  by (cases "b \<le> e") (simp_all add: between_def overwrite_def min_def drop_take)

lemma between_overwrite_after [between_simps]:
  assumes "p + length ys \<le> b" "p + length ys \<le> length xs"
  shows "between (overwrite xs p ys) b e = between xs b e"
proof -
  have "drop b (overwrite xs p ys) = drop b xs"
    using assms by (simp add: overwrite_def)
  then show ?thesis by (simp add: between_def)
qed

text \<open>The window that contains index \<open>p\<close> ends behind \<open>p\<close>.\<close>

lemma window_end: "0 < w \<Longrightarrow> (p::nat) < p div w * w + w"
  by (metis add.commute dividend_less_div_times)

section \<open>Lists\<close>

lemma takeWhile_append_stop [simp]:
  "\<forall>x\<in>set xs. P x \<Longrightarrow> \<not> P y \<Longrightarrow> takeWhile P (xs @ y # ys) = xs"
  by (induction xs) auto

lemma dropWhile_append_stop [simp]:
  "\<forall>x\<in>set xs. P x \<Longrightarrow> \<not> P y \<Longrightarrow> dropWhile P (xs @ y # ys) = y # ys"
  by (induction xs) auto

section \<open>Invariants of stateful code\<close>

text \<open>The code keeps a property of the state, however it ends.\<close>

definition keeps :: "('s \<Rightarrow> bool) \<Rightarrow> ('s, 'a) st \<Rightarrow> bool" where
  "keeps P m \<longleftrightarrow> (\<forall>s. P s \<longrightarrow> P (snd (m s)))"

named_theorems keeps_intros \<open>rules for \<open>keeps\<close>\<close>

lemma keepsD: "keeps P m \<Longrightarrow> P s \<Longrightarrow> P (snd (m s))"
  by (simp add: keeps_def)

lemma keeps_bind [keeps_intros]: "keeps P m \<Longrightarrow> (\<And>x. keeps P (f x)) \<Longrightarrow> keeps P (bindS m f)"
  by (fastforce simp: keeps_def bindS_def split: prod.splits sum.splits)

lemma keeps_simple [keeps_intros]: "keeps P (returnS x)" "keeps P (throwS e)" "keeps P getS" "keeps P (liftS m)"
  by (simp_all add: keeps_def st_defs)

lemma keeps_modify [keeps_intros]: "(\<And>s. P s \<Longrightarrow> P (f s)) \<Longrightarrow> keeps P (modifyS f)"
  by (simp add: keeps_def st_defs)

lemma keeps_if [keeps_intros]: "(c \<Longrightarrow> keeps P m) \<Longrightarrow> (\<not> c \<Longrightarrow> keeps P m') \<Longrightarrow> keeps P (if c then m else m')"
  by simp

lemma keeps_foreach [keeps_intros]: "(\<And>x. keeps P (f x)) \<Longrightarrow> keeps P (foreachS f xs)"
  by (induction xs) (auto intro: keeps_intros)

lemma keeps_case_prod [keeps_intros]: "(\<And>a b. keeps P (f a b)) \<Longrightarrow> keeps P (case x of (a, b) \<Rightarrow> f a b)"
  by (cases x) simp

end
