(* ===== verification/C_Library.thy ===== *)
theory C_Library
  imports Prelude
begin

text \<open>
  The parts of the C and C++ standard libraries the sources call on characters and strings
  (\<^verbatim>\<open><cctype>\<close> in the default "C" locale, \<^verbatim>\<open>strncasecmp\<close>, \<^verbatim>\<open>std::search\<close>,
  \<^verbatim>\<open>std::lexicographical_compare\<close>, decimal output), and the comparison functors of
  \<^verbatim>\<open>include/details/functors.h\<close>. A \<^verbatim>\<open>char\<close> is a byte; it is signed, as on the
  platforms the daemon is built for, wherever it is promoted to \<^verbatim>\<open>int\<close>.
\<close>

section \<open>Characters\<close>

abbreviation NUL :: char where
  "NUL \<equiv> CHR 0x00"

definition schar :: "char \<Rightarrow> int" where
  "schar c = (if of_char c < (128::int) then of_char c else of_char c - 256)"

definition isspace :: "char \<Rightarrow> bool" where
  "isspace c \<longleftrightarrow> c = CHR 0x20 \<or> (CHR 0x09 \<le> c \<and> c \<le> CHR 0x0D)"

definition isdigit :: "char \<Rightarrow> bool" where
  "isdigit c \<longleftrightarrow> CHR ''0'' \<le> c \<and> c \<le> CHR ''9''"

definition isupper :: "char \<Rightarrow> bool" where
  "isupper c \<longleftrightarrow> CHR ''A'' \<le> c \<and> c \<le> CHR ''Z''"

definition islower :: "char \<Rightarrow> bool" where
  "islower c \<longleftrightarrow> CHR ''a'' \<le> c \<and> c \<le> CHR ''z''"

definition isalnum :: "char \<Rightarrow> bool" where
  "isalnum c \<longleftrightarrow> isdigit c \<or> isupper c \<or> islower c"

definition tolower :: "char \<Rightarrow> char" where
  "tolower c = (if isupper c then char_of (of_char c + 32 :: nat) else c)"

definition toupper :: "char \<Rightarrow> char" where
  "toupper c = (if islower c then char_of (of_char c - 32 :: nat) else c)"

section \<open>Strings\<close>

text \<open>A C string read through a pointer: the terminating NUL follows the last character.\<close>

fun c_hd :: "string \<Rightarrow> char" where
  "c_hd [] = NUL"
| "c_hd (c # cs) = c"

fun strncasecmp :: "nat \<Rightarrow> string \<Rightarrow> string \<Rightarrow> int" where
  "strncasecmp 0 s t = 0"
| "strncasecmp (Suc n) s t =
     (let a = tolower (c_hd s); b = tolower (c_hd t) in
      if a \<noteq> b then of_char a - of_char b
      else if c_hd s = NUL then 0
      else strncasecmp n (tl s) (tl t))"

text \<open>\<^verbatim>\<open>std::search\<close>: the offset of the first occurrence of \<open>p\<close>, or the length if there is none.\<close>

fun std_search :: "string \<Rightarrow> string \<Rightarrow> nat" where
  "std_search [] p = 0"
| "std_search (c # cs) p = (if prefix p (c # cs) then 0 else Suc (std_search cs p))"

text \<open>\<^verbatim>\<open>std::find\<close>: the offset of the first \<open>ch\<close>, or the length.\<close>

fun std_find :: "string \<Rightarrow> char \<Rightarrow> nat" where
  "std_find [] ch = 0"
| "std_find (c # cs) ch = (if c = ch then 0 else Suc (std_find cs ch))"

fun lexicographical_compare :: "('a \<Rightarrow> 'a \<Rightarrow> bool) \<Rightarrow> 'a list \<Rightarrow> 'a list \<Rightarrow> bool" where
  "lexicographical_compare lt xs [] = False"
| "lexicographical_compare lt [] (y # ys) = True"
| "lexicographical_compare lt (x # xs) (y # ys) =
     (if lt x y then True else if lt y x then False else lexicographical_compare lt xs ys)"

text \<open>Decimal digits, as \<^verbatim>\<open>operator<<\<close> writes an unsigned integer.\<close>

fun show_nat :: "nat \<Rightarrow> string" where
  "show_nat n = (if n < 10 then [char_of (48 + n)] else show_nat (n div 10) @ [char_of (48 + n mod 10)])"

declare show_nat.simps [simp del]

section \<open>The functors of functors.h\<close>

definition CharCILess :: "char \<Rightarrow> char \<Rightarrow> bool" where
  "CharCILess c target \<longleftrightarrow> schar (tolower c) < schar (tolower target)"

definition StringCIHash :: "string \<Rightarrow> 32 word" where
  "StringCIHash str = fold (\<lambda>c value. value + 5 * of_int (schar (tolower c))) str 0"

definition StringCIEqual :: "string \<Rightarrow> string \<Rightarrow> bool" where
  "StringCIEqual str target \<longleftrightarrow>
     length str = length target \<and> strncasecmp (length str) str target = 0"

section \<open>Lemmas\<close>

lemma tolower_NUL_iff [simp]: "tolower c = NUL \<longleftrightarrow> c = NUL"
proof -
  have "\<forall>c. (tolower c = NUL) = (c = NUL)" by code_simp
  then show ?thesis by blast
qed

lemma of_char_eq_int_iff [simp]: "(of_char a :: int) = of_char b \<longleftrightarrow> a = b"
  by (metis char_of_char)

text \<open>
  The part of a key that the case-insensitive comparison looks at: up to the first NUL, in
  lower case.
\<close>

definition ci_key :: "string \<Rightarrow> string" where
  "ci_key s = map tolower (takeWhile (\<lambda>c. c \<noteq> NUL) s)"

lemma strncasecmp_ci_key:
  "length s = length t \<Longrightarrow> strncasecmp (length s) s t = 0 \<longleftrightarrow> ci_key s = ci_key t"
proof (induction s arbitrary: t)
  case Nil
  then show ?case by simp
next
  case (Cons a s)
  then obtain b t' where t: "t = b # t'" by (cases t) auto
  have "tolower a = tolower b \<Longrightarrow> a = NUL \<longleftrightarrow> b = NUL"
    by (metis tolower_NUL_iff)
  then show ?case
    using Cons t by (auto simp: ci_key_def Let_def)
qed

lemma StringCIEqual_iff:
  "StringCIEqual s t \<longleftrightarrow> length s = length t \<and> ci_key s = ci_key t"
  using strncasecmp_ci_key by (auto simp: StringCIEqual_def)

lemma std_search_le: "std_search s p \<le> length s"
  by (induction s) auto

lemma std_find_le [simp]: "std_find s ch \<le> length s"
  by (induction s) auto

lemma std_find_takeWhile: "take (std_find s ch) s = takeWhile (\<lambda>c. c \<noteq> ch) s"
  by (induction s) auto

lemma std_find_length: "std_find s ch = length (takeWhile (\<lambda>c. c \<noteq> ch) s)"
  by (induction s) auto

lemma std_find_eq_length_iff: "std_find s ch = length s \<longleftrightarrow> ch \<notin> set s"
  by (induction s) auto

lemma std_find_nth: "std_find s ch < length s \<Longrightarrow> s ! std_find s ch = ch"
  by (induction s) auto

lemma std_search_prefix:
  "std_search s p < length s \<Longrightarrow> prefix p (drop (std_search s p) s)"
  by (induction s) (auto split: if_splits)

lemma std_search_fits: "std_search s p < length s \<Longrightarrow> std_search s p + length p \<le> length s"
  using std_search_prefix[of s p] prefix_length_le by fastforce

lemma std_search_least:
  "i < std_search s p \<Longrightarrow> \<not> prefix p (drop i s)"
proof (induction s arbitrary: i)
  case Nil
  then show ?case by simp
next
  case (Cons c s)
  then show ?case by (cases i) (auto split: if_splits)
qed

lemma std_search_unique:
  assumes "i < length s" "prefix p (drop i s)" "\<And>j. j < i \<Longrightarrow> \<not> prefix p (drop j s)"
  shows "std_search s p = i"
proof (rule linorder_cases[of "std_search s p" i])
  assume "std_search s p < i"
  then show ?thesis
    using assms std_search_prefix[of s p] by auto
next
  assume "i < std_search s p"
  then show ?thesis using assms(2) std_search_least by blast
qed

lemma std_search_none:
  "(\<And>i. i < length s \<Longrightarrow> \<not> prefix p (drop i s)) \<Longrightarrow> std_search s p = length s"
  using std_search_prefix[of s p] std_search_le[of s p] by (meson le_neq_implies_less)

lemma std_search_single: "std_search s [ch] = std_find s ch"
  by (induction s) auto

lemma std_search_skip:
  "k \<le> length s \<Longrightarrow> (\<And>j. j < k \<Longrightarrow> \<not> prefix p (drop j s)) \<Longrightarrow>
   std_search s p = k + std_search (drop k s) p"
proof (induction k arbitrary: s)
  case 0
  then show ?case by simp
next
  case (Suc k)
  then obtain c s' where s: "s = c # s'" by (cases s) auto
  have "\<not> prefix p s" using Suc.prems(2)[of 0] by simp
  moreover have "std_search s' p = k + std_search (drop k s') p"
  proof (rule Suc.IH)
    show "k \<le> length s'" using Suc.prems(1) s by simp
    show "\<not> prefix p (drop j s')" if "j < k" for j
      using Suc.prems(2)[of "Suc j"] that s by simp
  qed
  ultimately show ?case using s by simp
qed

text \<open>What a search in the first \<open>k\<close> characters says about a search in all of them.\<close>

lemma std_search_take_found:
  assumes "std_search (take k s) p < length (take k s)"
  shows "std_search s p = std_search (take k s) p"
proof (rule std_search_unique)
  let ?n = "std_search (take k s) p"
  show "?n < length s" using assms by simp
  have "prefix p (take (k - ?n) (drop ?n s))"
    using std_search_prefix[OF assms] by (simp add: drop_take)
  then show "prefix p (drop ?n s)"
    using take_is_prefix prefix_order.trans by blast
  fix j
  assume j: "j < ?n"
  have fits: "?n + length p \<le> k"
    using std_search_fits[OF assms] by simp
  show "\<not> prefix p (drop j s)"
  proof
    assume "prefix p (drop j s)"
    then have "prefix p (take (k - j) (drop j s))"
      using j fits by (auto simp: prefix_def)
    then show False
      using std_search_least[OF j] by (simp add: drop_take)
  qed
qed

lemma std_search_take_missed:
  assumes "std_search (take k s) p = length (take k s)" "j + length p \<le> k" "j < min k (length s)"
  shows "\<not> prefix p (drop j s)"
proof
  assume "prefix p (drop j s)"
  then have "prefix p (take (k - j) (drop j s))"
    using assms(2) by (auto simp: prefix_def)
  then have "prefix p (drop j (take k s))" by (simp add: drop_take)
  then show False
    using std_search_least[of j "take k s" p] assms(1,3) by simp
qed

section \<open>Comparison without regard to case\<close>

lemma tolower_NUL: "tolower NUL = NUL"
  by (simp add: tolower_NUL_iff)

lemma char_diff: "(of_char a - of_char b = (0 :: int)) \<longleftrightarrow> a = b"
  using of_char_eq_int_iff[of a b] by linarith

lemma strncasecmp_step:
  assumes "c \<noteq> NUL"
  shows "strncasecmp (Suc n) s (c # t) = 0 \<longleftrightarrow> s \<noteq> [] \<and> tolower (hd s) = tolower c \<and> strncasecmp n (tl s) t = 0"
proof -
  have "tolower NUL \<noteq> tolower c" using assms tolower_NUL tolower_NUL_iff by metis
  moreover have "d \<noteq> NUL" if "tolower d = tolower c" for d using that calculation by metis
  ultimately show ?thesis by (cases s) (auto simp: Let_def char_diff simp del: of_char_eq_int_iff)
qed

text \<open>The first characters of a text against those of a name.\<close>

lemma strncasecmp_prefix:
  "NUL \<notin> set t \<Longrightarrow> n \<le> length t \<Longrightarrow> strncasecmp n s t = 0 \<longleftrightarrow> map tolower (take n s) = map tolower (take n t)"
proof (induction n arbitrary: s t)
  case (Suc n)
  obtain c t' where t: "t = c # t'" "NUL \<notin> set t'" "n \<le> length t'" using Suc.prems by (cases t) auto
  then have "c \<noteq> NUL" using Suc.prems(1) by auto
  from strncasecmp_step[OF this, of n s t'] show ?case
    using Suc.IH[OF t(2,3), of "tl s"] t(1) by (cases s) (simp_all del: strncasecmp.simps)
qed simp

end
