(* ===== verification/Ranges.thy ===== *)
theory Ranges
  imports C_Library
begin

text \<open>
  The class \<^verbatim>\<open>Range\<close> of \<^verbatim>\<open>include/details/range.h\<close>: a pair of pointers into a block of
  characters. A pointer is an offset into the block \<open>range_mem\<close>; what lies behind the end of
  the block is the terminating NUL of a C string. Every operation that builds a range is shown
  to build one that satisfies the constructor's assertion \<^verbatim>\<open>begin <= end\<close>, and to compute
  on the characters between the pointers (\<open>chars\<close>) what a function on strings says it should.
\<close>

section \<open>Definitions\<close>

record range =
  range_mem :: string
  range_begin :: nat
  range_end :: nat

definition Range_default :: range where
  "Range_default = \<lparr>range_mem = [], range_begin = 0, range_end = 0\<rparr>"

definition mk_Range :: "string \<Rightarrow> nat \<Rightarrow> nat \<Rightarrow> range" where
  "mk_Range m b e = \<lparr>range_mem = m, range_begin = b, range_end = e\<rparr>"

definition range_empty :: "range \<Rightarrow> bool" where
  "range_empty r \<longleftrightarrow> range_begin r = range_end r"

definition range_size :: "range \<Rightarrow> nat" where
  "range_size r = range_end r - range_begin r"

definition chars :: "range \<Rightarrow> string" where
  "chars r = between (range_mem r) (range_begin r) (range_end r)"

text \<open>The characters a C function sees that is handed \<^verbatim>\<open>begin()\<close> as a string.\<close>

definition range_c_str :: "range \<Rightarrow> string" where
  "range_c_str r = drop (range_begin r) (range_mem r)"

definition range_at :: "range \<Rightarrow> nat \<Rightarrow> char" where
  "range_at r i = range_mem r ! (range_begin r + i)"

text \<open>
  The two loops of \<^verbatim>\<open>trim\<close>. The pointers start with \<^verbatim>\<open>begin <= end\<close>, so that the test
  \<^verbatim>\<open>begin != end\<close> is \<open>b < e\<close>.
\<close>

function trim_begin :: "string \<Rightarrow> nat \<Rightarrow> nat \<Rightarrow> nat" where
  "trim_begin m b e = (if b < e \<and> isspace (m ! b) then trim_begin m (Suc b) e else b)"
  by pat_completeness auto
termination by (relation "measure (\<lambda>(m, b, e). e - b)") auto

fun trim_end :: "string \<Rightarrow> nat \<Rightarrow> nat \<Rightarrow> nat" where
  "trim_end m b e = (if b < e \<and> isspace (m ! (e - 1)) then trim_end m b (e - 1) else e)"

definition range_trim :: "range \<Rightarrow> range" where
  "range_trim r =
     (let b = trim_begin (range_mem r) (range_begin r) (range_end r);
          e = trim_end (range_mem r) b (range_end r)
      in mk_Range (range_mem r) b e)"

text \<open>The loops of \<^verbatim>\<open>trimn\<close>; a negative count never reaches zero.\<close>

function trimn_begin :: "int \<Rightarrow> nat \<Rightarrow> nat \<Rightarrow> nat" where
  "trimn_begin n b e = (if b < e \<and> n \<noteq> 0 then trimn_begin (n - 1) (Suc b) e else b)"
  by pat_completeness auto
termination by (relation "measure (\<lambda>(n, b, e). e - b)") auto

fun trimn_end :: "int \<Rightarrow> nat \<Rightarrow> nat \<Rightarrow> nat" where
  "trimn_end n b e = (if b < e \<and> n \<noteq> 0 then trimn_end (n - 1) b (e - 1) else e)"

definition range_trimn :: "range \<Rightarrow> int \<Rightarrow> int \<Rightarrow> range" where
  "range_trimn r b e =
     (let b' = trimn_begin b (range_begin r) (range_end r);
          e' = trimn_end e b' (range_end r)
      in mk_Range (range_mem r) b' e')"

definition range_find_char :: "range \<Rightarrow> char \<Rightarrow> nat" where
  "range_find_char r ch = range_begin r + std_find (chars r) ch"

definition range_find :: "range \<Rightarrow> range \<Rightarrow> nat" where
  "range_find r substr =
     (if range_size substr = 1 then range_find_char r (range_at substr 0)
      else range_begin r + std_search (chars r) (chars substr))"

definition doSplit :: "range \<Rightarrow> nat \<Rightarrow> nat \<Rightarrow> bool \<times> range \<times> range" where
  "doSplit r e sz =
     (let first = mk_Range (range_mem r) (range_begin r) e in
      if e \<noteq> range_end r
      then (True, first, mk_Range (range_mem r) (e + sz) (range_end r))
      else (False, first, mk_Range (range_mem r) (range_end r) (range_end r)))"

definition range_split :: "range \<Rightarrow> range \<Rightarrow> bool \<times> range \<times> range" where
  "range_split r delim = doSplit r (range_find r delim) (range_size delim)"

definition range_split_char :: "range \<Rightarrow> char \<Rightarrow> bool \<times> range \<times> range" where
  "range_split_char r delim = doSplit r (range_find_char r delim) 1"

definition range_endsWith :: "range \<Rightarrow> range \<Rightarrow> bool" where
  "range_endsWith r p =
     (if range_size p \<le> range_size r
      then between (range_mem r) (range_end r - range_size p) (range_end r) = chars p
      else False)"

definition range_startsWith :: "range \<Rightarrow> range \<Rightarrow> bool" where
  "range_startsWith r p =
     (if range_size p \<le> range_size r
      then between (range_mem r) (range_begin r) (range_begin r + range_size p) = chars p
      else False)"

definition range_less :: "range \<Rightarrow> range \<Rightarrow> bool" where
  "range_less r s = lexicographical_compare (\<lambda>a b. schar a < schar b) (chars r) (chars s)"

definition range_eq :: "range \<Rightarrow> range \<Rightarrow> bool" where
  "range_eq r s = (if range_size r = range_size s then chars r = chars s else False)"

definition RangeCILess :: "range \<Rightarrow> range \<Rightarrow> bool" where
  "RangeCILess r target = lexicographical_compare CharCILess (chars r) (chars target)"

text \<open>\<^verbatim>\<open>fromChars\<close> measures a C string, \<^verbatim>\<open>fromString\<close> takes the size of the object.\<close>

definition fromChars :: "string \<Rightarrow> range" where
  "fromChars str = mk_Range str 0 (length (takeWhile (\<lambda>c. c \<noteq> NUL) str))"

definition fromString :: "string \<Rightarrow> range" where
  "fromString str = mk_Range str 0 (length str)"

definition range_toString :: "range \<Rightarrow> string" where
  "range_toString r = chars r"

section \<open>Well-formed ranges and the functions on strings\<close>

definition range_ok :: "range \<Rightarrow> bool" where
  "range_ok r \<longleftrightarrow> range_begin r \<le> range_end r \<and> range_end r \<le> length (range_mem r)"

definition str_trim :: "string \<Rightarrow> string" where
  "str_trim s = rev (dropWhile isspace (rev (dropWhile isspace s)))"

definition str_split_char :: "string \<Rightarrow> char \<Rightarrow> bool \<times> string \<times> string" where
  "str_split_char s ch =
     (ch \<in> set s, takeWhile (\<lambda>c. c \<noteq> ch) s, drop 1 (dropWhile (\<lambda>c. c \<noteq> ch) s))"

definition str_split :: "string \<Rightarrow> string \<Rightarrow> bool \<times> string \<times> string" where
  "str_split s p =
     (std_search s p < length s, take (std_search s p) s, drop (std_search s p + length p) s)"

declare trim_begin.simps [simp del] trim_end.simps [simp del]
declare trimn_begin.simps [simp del] trimn_end.simps [simp del]

lemma mk_Range_simps [simp]:
  "range_mem (mk_Range m b e) = m"
  "range_begin (mk_Range m b e) = b"
  "range_end (mk_Range m b e) = e"
  by (simp_all add: mk_Range_def)

lemma chars_mk_Range: "chars (mk_Range m b e) = between m b e"
  by (simp add: chars_def)

lemma chars_fold: "between (range_mem r) (range_begin r) (range_end r) = chars r"
  by (simp add: chars_def)

lemma range_ok_fromString [simp, intro]: "range_ok (fromString s)"
  by (simp add: range_ok_def fromString_def)

lemma range_ok_fromChars [simp, intro]: "range_ok (fromChars s)"
  by (simp add: range_ok_def fromChars_def length_takeWhile_le)

lemma chars_fromString [simp]: "chars (fromString s) = s"
  by (simp add: chars_def fromString_def)

lemma chars_fromChars [simp]: "chars (fromChars s) = takeWhile (\<lambda>c. c \<noteq> NUL) s"
  by (simp add: chars_def fromChars_def between_def takeWhile_eq_take[symmetric])

lemma length_chars [simp]: "range_ok r \<Longrightarrow> length (chars r) = range_size r"
  by (auto simp: range_ok_def chars_def range_size_def min_def)

lemma range_empty_chars [simp]: "range_ok r \<Longrightarrow> range_empty r \<longleftrightarrow> chars r = []"
  by (metis length_chars length_0_conv range_empty_def range_ok_def range_size_def diff_is_0_eq
      le_antisym order_refl)

lemma range_at_chars: "range_ok r \<Longrightarrow> i < range_size r \<Longrightarrow> range_at r i = chars r ! i"
  by (simp add: range_at_def chars_def range_ok_def range_size_def between_nth)

subsection \<open>trim and trimn\<close>

lemma trim_begin_bounds:
  "b \<le> e \<Longrightarrow> b \<le> trim_begin m b e \<and> trim_begin m b e \<le> e"
proof (induction m b e rule: trim_begin.induct)
  case (1 m b e)
  then show ?case by (cases "b < e \<and> isspace (m ! b)") (auto simp: trim_begin.simps[of m b e])
qed

lemma trim_begin_between:
  "b \<le> e \<Longrightarrow> e \<le> length m \<Longrightarrow>
   between m (trim_begin m b e) e = dropWhile isspace (between m b e)"
proof (induction m b e rule: trim_begin.induct)
  case (1 m b e)
  then show ?case
    by (cases "b < e"; cases "isspace (m ! b)")
      (auto simp: trim_begin.simps[of m b e] trim_begin.simps[of m e e] between_Cons[of b e m])
qed

lemma trim_end_bounds: "b \<le> e \<Longrightarrow> b \<le> trim_end m b e \<and> trim_end m b e \<le> e"
proof (induction m b e rule: trim_end.induct)
  case (1 m b e)
  then have "b < e \<and> isspace (m ! (e - 1)) \<Longrightarrow>
      b \<le> trim_end m b (e - 1) \<and> trim_end m b (e - 1) \<le> e - 1" by auto
  then show ?case using 1(2) by (auto simp: trim_end.simps[of m b e])
qed

lemma trim_end_between:
  "b \<le> e \<Longrightarrow> e \<le> length m \<Longrightarrow>
   between m b (trim_end m b e) = rev (dropWhile isspace (rev (between m b e)))"
proof (induction m b e rule: trim_end.induct)
  case (1 m b e)
  then show ?case
    by (cases "b < e"; cases "isspace (m ! (e - 1))")
      (auto simp: trim_end.simps[of m b e] trim_end.simps[of m e e] between_snoc[of b e m])
qed

lemma range_ok_trim [simp, intro]: "range_ok r \<Longrightarrow> range_ok (range_trim r)"
  using trim_begin_bounds[of "range_begin r" "range_end r" "range_mem r"]
    trim_end_bounds[of "trim_begin (range_mem r) (range_begin r) (range_end r)" "range_end r" "range_mem r"]
  by (auto simp: range_ok_def range_trim_def Let_def)

lemma chars_trim [simp]: "range_ok r \<Longrightarrow> chars (range_trim r) = str_trim (chars r)"
  using trim_begin_bounds[of "range_begin r" "range_end r" "range_mem r"]
  by (simp add: range_ok_def chars_def range_trim_def Let_def str_trim_def trim_begin_between
      trim_end_between)

lemma trimn_begin_nonneg: "b \<le> e \<Longrightarrow> 0 \<le> n \<Longrightarrow> trimn_begin n b e = min (b + nat n) e"
proof (induction n b e rule: trimn_begin.induct)
  case (1 n b e)
  then show ?case
    by (cases "b < e \<and> n \<noteq> 0") (auto simp: trimn_begin.simps[of n b e] nat_diff_distrib)
qed

lemma trimn_end_nonneg: "b \<le> e \<Longrightarrow> 0 \<le> n \<Longrightarrow> trimn_end n b e = max b (e - nat n)"
proof (induction n b e rule: trimn_end.induct)
  case (1 n b e)
  then show ?case
    by (cases "b < e \<and> n \<noteq> 0") (auto simp: trimn_end.simps[of n b e] nat_diff_distrib)
qed

lemma range_ok_trimn [simp, intro]:
  "range_ok r \<Longrightarrow> 0 \<le> b \<Longrightarrow> 0 \<le> e \<Longrightarrow> range_ok (range_trimn r b e)"
  by (auto simp: range_ok_def range_trimn_def Let_def trimn_begin_nonneg trimn_end_nonneg)

lemma chars_trimn [simp]:
  assumes "range_ok r" "0 \<le> b" "0 \<le> e"
  shows "chars (range_trimn r b e) = take (range_size r - nat b - nat e) (drop (nat b) (chars r))"
  using assms
  by (auto simp: range_ok_def chars_def range_trimn_def Let_def trimn_begin_nonneg
      trimn_end_nonneg range_size_def between_def drop_take min_def max_def add.commute)

subsection \<open>Searching and splitting\<close>

lemma range_find_char_bounds:
  "range_ok r \<Longrightarrow> range_begin r \<le> range_find_char r ch \<and> range_find_char r ch \<le> range_end r"
  using std_find_le[of "chars r" ch]
  by (auto simp: range_find_char_def range_ok_def range_size_def dest: length_chars)

lemma range_find_search:
  assumes "range_ok r" "range_ok p"
  shows "range_find r p = range_begin r + std_search (chars r) (chars p)"
proof (cases "range_size p = 1")
  case True
  then obtain ch where "chars p = [ch]"
    using assms(2) length_chars[of p] by (metis One_nat_def length_0_conv length_Suc_conv)
  then show ?thesis
    using True assms range_at_chars[of p 0]
    by (simp add: range_find_def range_find_char_def std_search_single)
next
  case False
  then show ?thesis by (simp add: range_find_def)
qed

lemma range_split_char_ok:
  assumes "range_ok r" "range_split_char r ch = (found, a, b)"
  shows "range_ok a" "range_ok b"
  using assms range_find_char_bounds[of r ch]
  by (auto simp: range_split_char_def doSplit_def range_ok_def Let_def split: if_splits)

lemma range_split_char_chars:
  assumes "range_ok r" "range_split_char r ch = (found, a, b)"
  shows "(found, chars a, chars b) = str_split_char (chars r) ch"
proof -
  let ?n = "std_find (chars r) ch"
  have len: "length (chars r) = range_end r - range_begin r"
    using assms(1) by (simp add: range_size_def)
  have le: "?n \<le> range_end r - range_begin r"
    using std_find_le[of "chars r" ch] len by simp
  have first: "between (range_mem r) (range_begin r) (range_begin r + ?n) = take ?n (chars r)"
    using le by (simp add: chars_def between_def min_def)
  have rest: "between (range_mem r) (Suc (range_begin r + ?n)) (range_end r) = drop (Suc ?n) (chars r)"
    by (simp add: chars_def between_def drop_take add.commute)
  have dw: "drop 1 (dropWhile (\<lambda>c. c \<noteq> ch) (chars r)) = drop (Suc ?n) (chars r)"
    by (simp add: dropWhile_eq_drop std_find_length)
  show ?thesis
  proof (cases "?n = length (chars r)")
    case True
    then have notin: "ch \<notin> set (chars r)" by (simp add: std_find_eq_length_iff)
    then have tw: "takeWhile (\<lambda>c. c \<noteq> ch) (chars r) = chars r" "dropWhile (\<lambda>c. c \<noteq> ch) (chars r) = []"
      unfolding takeWhile_eq_all_conv dropWhile_eq_Nil_conv by auto
    have "range_begin r + ?n = range_end r"
      using True len assms(1) by (simp add: range_ok_def)
    then have "found = False" "chars a = chars r" "chars b = []"
      using assms by (auto simp: range_split_char_def doSplit_def range_find_char_def Let_def
          chars_mk_Range chars_fold)
    then show ?thesis
      unfolding str_split_char_def using notin by (simp add: tw)
  next
    case False
    then have "ch \<in> set (chars r)" by (simp add: std_find_eq_length_iff)
    moreover have "range_begin r + ?n \<noteq> range_end r"
      using False len by auto
    ultimately show ?thesis
      using assms(2) first rest dw std_find_takeWhile[of "chars r" ch]
      by (auto simp: range_split_char_def doSplit_def range_find_char_def str_split_char_def
          Let_def chars_mk_Range)
  qed
qed

lemma range_split_ok:
  assumes "range_ok r" "range_ok p" "range_split r p = (found, a, b)"
  shows "range_ok a" "range_ok b"
proof -
  let ?n = "std_search (chars r) (chars p)"
  have le: "?n \<le> range_size r" and fits: "?n < range_size r \<Longrightarrow> ?n + range_size p \<le> range_size r"
    using assms(1,2) std_search_le[of "chars r" "chars p"] std_search_fits[of "chars r" "chars p"]
    by simp_all
  have fits': "range_begin r + ?n \<noteq> range_end r \<Longrightarrow> range_begin r + ?n + range_size p \<le> range_end r"
    using assms(1) le fits unfolding range_ok_def range_size_def[of r] by linarith
  show "range_ok a" "range_ok b"
    using assms(1,3) le fits'
    by (auto simp: range_split_def doSplit_def range_find_search[OF assms(1,2)] range_ok_def Let_def
        range_size_def[of r] split: if_splits)
qed

lemma range_split_chars:
  assumes "range_ok r" "range_ok p" "range_split r p = (found, a, b)"
  shows "(found, chars a, chars b) = str_split (chars r) (chars p)"
proof -
  let ?n = "std_search (chars r) (chars p)"
  have len: "length (chars r) = range_end r - range_begin r"
    using assms(1) by (simp add: range_size_def)
  have le: "?n \<le> range_end r - range_begin r"
    using std_search_le[of "chars r" "chars p"] len by simp
  have first: "between (range_mem r) (range_begin r) (range_begin r + ?n) = take ?n (chars r)"
    using le by (simp add: chars_def between_def min_def)
  have rest: "between (range_mem r) (range_begin r + ?n + range_size p) (range_end r)
      = drop (?n + range_size p) (chars r)"
    by (simp add: chars_def between_def drop_take add.commute add.left_commute)
  have iff: "range_begin r + ?n = range_end r \<longleftrightarrow> ?n = length (chars r)"
    using len assms(1) by (auto simp: range_ok_def)
  show ?thesis
    using assms first rest iff le len
    by (cases "?n = length (chars r)")
      (auto simp: range_split_def doSplit_def range_find_search str_split_def Let_def chars_mk_Range
        chars_fold)
qed

lemma range_startsWith_prefix [simp]:
  assumes "range_ok r" "range_ok p"
  shows "range_startsWith r p \<longleftrightarrow> prefix (chars p) (chars r)"
proof (cases "range_size p \<le> range_size r")
  case True
  have "between (range_mem r) (range_begin r) (range_begin r + range_size p) = take (range_size p) (chars r)"
    using True by (simp add: chars_def between_def range_size_def min_def)
  then show ?thesis
    using True assms length_chars[OF assms(2)]
    by (auto simp: range_startsWith_def prefix_def) (metis append_eq_conv_conj append_take_drop_id)+
next
  case False
  then show ?thesis
    using assms prefix_length_le[of "chars p" "chars r"] by (auto simp: range_startsWith_def)
qed

lemma suffix_drop_iff: "length p \<le> length s \<Longrightarrow> suffix p s \<longleftrightarrow> drop (length s - length p) s = p"
  by (metis append_eq_conv_conj append_take_drop_id length_drop diff_diff_cancel suffix_def
      append_eq_append_conv)

lemma range_endsWith_suffix [simp]:
  assumes "range_ok r" "range_ok p"
  shows "range_endsWith r p \<longleftrightarrow> suffix (chars p) (chars r)"
proof (cases "range_size p \<le> range_size r")
  case True
  then have "range_end r - range_size p = range_begin r + (range_size r - range_size p)"
    using assms(1) unfolding range_ok_def range_size_def[of r] by linarith
  then have "between (range_mem r) (range_end r - range_size p) (range_end r)
      = drop (range_size r - range_size p) (chars r)"
    by (simp add: chars_def between_def drop_take add.commute)
  then show ?thesis
    using True assms by (simp add: range_endsWith_def suffix_drop_iff)
next
  case False
  then show ?thesis
    using assms suffix_length_le[of "chars p" "chars r"] by (auto simp: range_endsWith_def)
qed

lemma range_eq_chars [simp]: "range_ok r \<Longrightarrow> range_ok s \<Longrightarrow> range_eq r s \<longleftrightarrow> chars r = chars s"
  by (metis length_chars range_eq_def)

subsection \<open>Loops over the parts of a range\<close>

text \<open>What is left of a range gets shorter: the termination of the loops that split one.\<close>

lemma split_char_shrinks:
  assumes "range_begin r < range_end r" "range_split_char r ch = (f, a, b)"
  shows "range_end b - range_begin b < range_end r - range_begin r" "range_begin b \<le> range_end b"
proof -
  have "length (chars r) \<le> range_end r - range_begin r"
    by (simp add: chars_def length_between_min)
  then have "range_find_char r ch \<le> range_end r"
    using std_find_le[of "chars r" ch] assms(1) unfolding range_find_char_def by linarith
  then show "range_end b - range_begin b < range_end r - range_begin r" "range_begin b \<le> range_end b"
    using assms
    by (auto simp: range_split_char_def doSplit_def range_find_char_def Let_def Range_default_def split: if_splits)
qed

lemma trim_shrinks:
  assumes "range_begin r \<le> range_end r"
  shows "range_end (range_trim r) - range_begin (range_trim r) \<le> range_end r - range_begin r"
    "range_begin (range_trim r) \<le> range_end (range_trim r)"
  using trim_begin_bounds[OF assms, of "range_mem r"]
    trim_end_bounds[of "trim_begin (range_mem r) (range_begin r) (range_end r)" "range_end r" "range_mem r"]
  by (auto simp: range_trim_def Let_def)

subsection \<open>Splitting a text whose parts are known\<close>

lemma std_search_absent: "p \<noteq> [] \<Longrightarrow> hd p \<notin> set s \<Longrightarrow> std_search s p = length s"
  by (induction s) (auto simp: prefix_def neq_Nil_conv)

lemma std_search_first: "p \<noteq> [] \<Longrightarrow> hd p \<notin> set s \<Longrightarrow> std_search (s @ p @ t) p = length s"
proof (induction s)
  case Nil
  then show ?case by (cases p) simp_all
next
  case (Cons c s)
  then show ?case by (auto simp: prefix_def neq_Nil_conv)
qed

lemma str_split_absent: "p \<noteq> [] \<Longrightarrow> hd p \<notin> set s \<Longrightarrow> str_split s p = (False, s, [])"
  by (simp add: str_split_def std_search_absent)

lemma str_split_found: "p \<noteq> [] \<Longrightarrow> std_search (s @ p @ t) p = length s \<Longrightarrow> str_split (s @ p @ t) p = (True, s, t)"
  by (simp add: str_split_def)

lemma str_split_char_absent: "ch \<notin> set s \<Longrightarrow> str_split_char s ch = (False, s, [])"
proof -
  assume a: "ch \<notin> set s"
  then have "\<forall>c\<in>set s. c \<noteq> ch" by auto
  then have "takeWhile (\<lambda>c. c \<noteq> ch) s = s" "dropWhile (\<lambda>c. c \<noteq> ch) s = []"
    unfolding takeWhile_eq_all_conv dropWhile_eq_Nil_conv by blast+
  then show ?thesis by (simp only: str_split_char_def a drop_Nil not_False_eq_True)
qed

lemma str_split_char_found: "ch \<notin> set s \<Longrightarrow> str_split_char (s @ ch # t) ch = (True, s, t)"
proof -
  assume "ch \<notin> set s"
  then have "\<forall>c\<in>set s. c \<noteq> ch" by auto
  then show ?thesis by (simp add: str_split_char_def)
qed

lemma str_split_char_decomp:
  assumes "(f, a, b) = str_split_char s ch"
  shows "s = a @ (if f then ch # b else [])" "\<not> f \<Longrightarrow> b = []"
proof -
  have "s = a @ (if f then ch # b else []) \<and> (\<not> f \<longrightarrow> b = [])"
  proof (cases "ch \<in> set s")
    case True
    then obtain u v where "s = u @ ch # v" "ch \<notin> set u" by (meson split_list_first)
    then show ?thesis using assms by (simp add: str_split_char_found)
  next
    case False
    then show ?thesis using assms by (simp add: str_split_char_absent)
  qed
  then show "s = a @ (if f then ch # b else [])" "\<not> f \<Longrightarrow> b = []" by auto
qed

lemma str_trim_id:
  assumes "s \<noteq> [] \<Longrightarrow> \<not> isspace (hd s)" "s \<noteq> [] \<Longrightarrow> \<not> isspace (last s)"
  shows "str_trim s = s"
proof (cases "s = []")
  case False
  then have "dropWhile isspace s = s" using assms(1) by (cases s) simp_all
  moreover have "dropWhile isspace (rev s) = rev s"
    using False assms(2) by (cases s rule: rev_cases) simp_all
  ultimately show ?thesis by (simp add: str_trim_def)
qed (simp add: str_trim_def)

lemma str_trim_Nil [simp]: "str_trim [] = []"
  by (simp add: str_trim_def)

section \<open>Properties\<close>

text \<open>
  Splitting a range at a delimiter range gives two ranges inside the same text: what is before the
  first occurrence of the delimiter and what is behind it, or the whole range and an empty one when
  the delimiter does not occur.
\<close>

theorem range_split_refines:
  assumes "range_ok r" "range_ok p" "range_split r p = (found, a, b)"
  shows "range_ok a \<and> range_ok b \<and> (found, chars a, chars b) = str_split (chars r) (chars p)"
  using range_split_ok[OF assms] range_split_chars[OF assms] by simp

theorem range_split_refines_witness:
  "(True, ''a'', ''b; c'') = str_split ''a; b; c'' ''; ''"
proof -
  have "range_split (fromString ''a; b; c'') (fromString ''; '') =
      (True, mk_Range ''a; b; c'' 0 1, mk_Range ''a; b; c'' 3 7)"
    by code_simp
  from range_split_refines[OF range_ok_fromString range_ok_fromString this] show ?thesis
    by (simp add: chars_mk_Range between_def)
qed

text \<open>
  Trimming a range cuts exactly the white space at both ends of its text, without leaving the
  range.
\<close>

theorem range_trim_refines:
  assumes "range_ok r"
  shows "range_ok (range_trim r) \<and> chars (range_trim r) = str_trim (chars r)"
  using assms by simp

theorem range_trim_refines_witness:
  "chars (range_trim (fromString '' a b '')) = str_trim '' a b ''"
  using range_trim_refines[OF range_ok_fromString, of "'' a b ''"] by simp

end
