(* ===== verification/String_Utils.thy ===== *)
theory String_Utils
  imports Ranges
begin

unbundle bit_operations_syntax

text \<open>
  \<^verbatim>\<open>StringUtils\<close> of \<^verbatim>\<open>library/util.cpp\<close> on ranges and strings: URL encoding and decoding,
  and the parser of query strings and urlencoded forms. The lemmas show that decoding undoes
  encoding for every byte string, that the parser computes the \<^verbatim>\<open>&\<close>- and \<^verbatim>\<open>=\<close>-separated
  fields, and that it recovers every list of named values from its encoded form.
\<close>

section \<open>Definitions\<close>

text \<open>The value \<open>v\<close> of a nibble as the character the code adds \<^verbatim>\<open>'A' - 10\<close> or \<^verbatim>\<open>'0'\<close> for.\<close>

definition hex_digit :: "int \<Rightarrow> char" where
  "hex_digit v = char_of (v + (if v > 9 then 65 - 10 else 48))"

definition urlencode_char :: "char \<Rightarrow> string" where
  "urlencode_char symbol =
     (if isalnum symbol then [symbol]
      else if symbol \<in> set ''-_.!~*()'' \<or> symbol = CHR 0x27 then [symbol]
      else [CHR ''%'', hex_digit ((schar symbol AND 0xF0) div 16), hex_digit (schar symbol AND 0x0F)])"

definition urlencode :: "range \<Rightarrow> string" where
  "urlencode r = fold (\<lambda>symbol result. result @ urlencode_char symbol) (chars r) []"

definition hex_value :: "char \<Rightarrow> int" where
  "hex_value f = (if schar f \<ge> 65 then ((schar f AND 0xDF) - 65) + 10 else schar f - 48)"

text \<open>The loop of \<^verbatim>\<open>urldecode(range, result)\<close>, with the characters from \<^verbatim>\<open>i\<close> to \<^verbatim>\<open>end\<close>.\<close>

fun urldecode_onto :: "string \<Rightarrow> string \<Rightarrow> string" where
  "urldecode_onto [] result = result"
| "urldecode_onto (c # cs) result =
     (if c = CHR ''+'' then urldecode_onto cs (result @ '' '')
      else if c = CHR ''%'' then
        (case cs of
           f # s # cs' \<Rightarrow> urldecode_onto cs' (result @ [char_of (hex_value f * 16 + hex_value s)])
         | _ \<Rightarrow> urldecode_onto cs (result @ ''%''))
      else urldecode_onto cs (result @ [c]))"

definition urldecode :: "range \<Rightarrow> string" where
  "urldecode r = urldecode_onto (chars r) []"

text \<open>\<^verbatim>\<open>StringUtils::parse\<close> on a range; the loop test \<^verbatim>\<open>!tmp.empty()\<close> is \<open>begin < end\<close>.\<close>

function parse_range :: "range \<Rightarrow> (string \<times> string) list \<Rightarrow> (string \<times> string) list" where
  "parse_range tmp v =
     (if range_begin tmp < range_end tmp then
        (case range_split_char tmp (CHR ''&'') of (_, head, tail) \<Rightarrow>
         (case range_split_char head (CHR ''='') of (_, key, val) \<Rightarrow>
           parse_range tail
             (if \<not> range_empty key then v @ [(urldecode key, urldecode val)] else v)))
      else v)"
  by pat_completeness auto
termination
proof (relation "measure (\<lambda>(r, v). range_size r)", goal_cases)
  case 1
  show ?case by simp
next
  case (2 tmp v a b head tail)
  then show ?case
    by (auto simp: range_split_char_def doSplit_def range_find_char_def Let_def range_size_def
        split: if_splits)
qed

definition parse_string :: "string \<Rightarrow> (string \<times> string) list \<Rightarrow> (string \<times> string) list" where
  "parse_string str v = parse_range (fromString str) v"

definition urlencode_string :: "string \<Rightarrow> string" where
  "urlencode_string str = urlencode (fromString str)"

definition urldecode_string :: "string \<Rightarrow> string" where
  "urldecode_string str = urldecode (fromString str)"

declare parse_range.simps [simp del]

section \<open>Encoding and decoding\<close>

text \<open>Decoding without the accumulator.\<close>

definition url_dec :: "string \<Rightarrow> string" where
  "url_dec cs = urldecode_onto cs []"

lemma urldecode_onto_distrib: "urldecode_onto cs (r @ q) = r @ urldecode_onto cs q"
proof (induction cs arbitrary: r q rule: length_induct)
  case (1 cs)
  then show ?case
    by (cases cs) (auto split: list.splits)
qed

lemma urldecode_onto_append: "urldecode_onto cs result = result @ url_dec cs"
  using urldecode_onto_distrib[of cs result "[]"] by (simp add: url_dec_def)

lemma urldecode_chars [simp]: "urldecode r = url_dec (chars r)"
  by (simp add: urldecode_def url_dec_def)

lemma url_dec_Nil [simp]: "url_dec [] = []"
  by (simp add: url_dec_def)

lemma url_dec_escape:
  "url_dec (CHR ''%'' # f # s # cs) = char_of (hex_value f * 16 + hex_value s) # url_dec cs"
  using urldecode_onto_append[of cs "[char_of (hex_value f * 16 + hex_value s)]"]
  by (simp add: url_dec_def)

lemma url_dec_plain:
  "c \<noteq> CHR ''+'' \<Longrightarrow> c \<noteq> CHR ''%'' \<Longrightarrow> url_dec (c # cs) = c # url_dec cs"
  using urldecode_onto_append[of cs "[c]"] by (simp add: url_dec_def)

lemma url_dec_plus: "url_dec (CHR ''+'' # cs) = CHR '' '' # url_dec cs"
  using urldecode_onto_append[of cs "'' ''"] by (simp add: url_dec_def)

text \<open>Encoding without the accumulator.\<close>

definition url_enc :: "string \<Rightarrow> string" where
  "url_enc s = concat (map urlencode_char s)"

lemma urlencode_fold: "fold (\<lambda>symbol result. result @ urlencode_char symbol) s r = r @ url_enc s"
  by (induction s arbitrary: r) (simp_all add: url_enc_def)

lemma urlencode_chars [simp]: "urlencode r = url_enc (chars r)"
  by (simp add: urlencode_def urlencode_fold)

lemma url_enc_simps [simp]:
  "url_enc [] = []"
  "url_enc (c # s) = urlencode_char c @ url_enc s"
  by (simp_all add: url_enc_def)

lemma urlencode_char_decodes:
  "case urlencode_char c of
     [d] \<Rightarrow> d = c \<and> d \<noteq> CHR ''+'' \<and> d \<noteq> CHR ''%''
   | [p, f, s] \<Rightarrow> p = CHR ''%'' \<and> char_of (hex_value f * 16 + hex_value s) = c
   | _ \<Rightarrow> False"
proof -
  have "\<forall>c. case urlencode_char c of
     [d] \<Rightarrow> d = c \<and> d \<noteq> CHR ''+'' \<and> d \<noteq> CHR ''%''
   | [p, f, s] \<Rightarrow> p = CHR ''%'' \<and> char_of (hex_value f * 16 + hex_value s) = c
   | _ \<Rightarrow> False" by code_simp
  then show ?thesis by (rule spec)
qed

lemma url_dec_enc_char: "url_dec (urlencode_char c @ cs) = c # url_dec cs"
  using urlencode_char_decodes[of c]
  by (auto split: list.splits simp: url_dec_plain url_dec_escape)

lemma url_dec_enc: "url_dec (url_enc s @ cs) = s @ url_dec cs"
  by (induction s) (simp_all add: url_dec_enc_char)

lemma urlencode_char_safe: "set (urlencode_char c) \<inter> set ''&=;+ '' = {} \<and> urlencode_char c \<noteq> []"
proof -
  have "\<forall>c. list_all (\<lambda>d. d \<notin> set ''&=;+ '') (urlencode_char c) \<and> urlencode_char c \<noteq> []" by code_simp
  then show ?thesis by (auto simp: list_all_iff)
qed

lemma url_enc_safe: "c \<in> set (url_enc s) \<Longrightarrow> c \<notin> set ''&=;+ ''"
  using urlencode_char_safe by (auto simp: url_enc_def)

lemma urlencode_char_visible: "list_all (\<lambda>d. \<not> isspace d) (urlencode_char c)"
proof -
  have "\<forall>c. list_all (\<lambda>d. \<not> isspace d) (urlencode_char c)" by code_simp
  then show ?thesis by (rule spec)
qed

lemma url_enc_visible: "c \<in> set (url_enc s) \<Longrightarrow> \<not> isspace c"
  using urlencode_char_visible by (auto simp: url_enc_def list_all_iff)

lemma url_enc_eq_Nil [simp]: "url_enc s = [] \<longleftrightarrow> s = []"
  using urlencode_char_safe by (cases s) (auto simp: url_enc_def)

section \<open>Parsing named values\<close>

text \<open>The parser on strings: fields between \<^verbatim>\<open>&\<close>, each split at its first \<^verbatim>\<open>=\<close>.\<close>

fun str_fields :: "char \<Rightarrow> string \<Rightarrow> string list" where
  "str_fields sep [] = [[]]"
| "str_fields sep (c # cs) =
     (if c = sep then [] # str_fields sep cs
      else (case str_fields sep cs of f # fs \<Rightarrow> (c # f) # fs | [] \<Rightarrow> [[c]]))"

definition named_value :: "string \<Rightarrow> string \<times> string" where
  "named_value f = (case str_split_char f (CHR ''='') of (_, k, v) \<Rightarrow> (url_dec k, url_dec v))"

definition query_values :: "string \<Rightarrow> (string \<times> string) list" where
  "query_values s =
     map named_value (filter (\<lambda>f. f \<noteq> [] \<and> hd f \<noteq> CHR ''='') (str_fields (CHR ''&'') s))"

lemma str_fields_ne [simp]: "str_fields sep s \<noteq> []"
  by (cases s) (auto split: list.splits)

lemma str_fields_Cons:
  "str_fields sep s =
     takeWhile (\<lambda>c. c \<noteq> sep) s # (if sep \<in> set s then str_fields sep (drop 1 (dropWhile (\<lambda>c. c \<noteq> sep) s)) else [])"
  by (induction s) (auto split: list.splits)

lemma query_values_step:
  assumes "s \<noteq> []" "str_split_char s (CHR ''&'') = (found, h, t)"
    "str_split_char h (CHR ''='') = (found', k, v)"
  shows "query_values s = (if k \<noteq> [] then [(url_dec k, url_dec v)] else []) @ query_values t"
proof -
  have h: "h = takeWhile (\<lambda>c. c \<noteq> CHR ''&'') s" and t: "t = drop 1 (dropWhile (\<lambda>c. c \<noteq> CHR ''&'') s)"
    and kv: "k = takeWhile (\<lambda>c. c \<noteq> CHR ''='') h" "v = drop 1 (dropWhile (\<lambda>c. c \<noteq> CHR ''='') h)"
    using assms(2,3) by (auto simp: str_split_char_def)
  have k: "k \<noteq> [] \<longleftrightarrow> h \<noteq> [] \<and> hd h \<noteq> CHR ''=''"
    unfolding kv by (cases h) auto
  have rest: "query_values t = map named_value (filter (\<lambda>f. f \<noteq> [] \<and> hd f \<noteq> CHR ''='')
      (if CHR ''&'' \<in> set s then str_fields (CHR ''&'') t else []))"
  proof (cases "CHR ''&'' \<in> set s")
    case False
    then have "dropWhile (\<lambda>c. c \<noteq> CHR ''&'') s = []"
      unfolding dropWhile_eq_Nil_conv by auto
    then have "t = []" by (simp only: t drop_Nil)
    with False show ?thesis by (simp add: query_values_def)
  qed (simp add: query_values_def)
  have nv: "named_value h = (url_dec k, url_dec v)"
    using assms(3) by (simp add: named_value_def)
  have "str_fields (CHR ''&'') s = h # (if CHR ''&'' \<in> set s then str_fields (CHR ''&'') t else [])"
    unfolding h t by (rule str_fields_Cons)
  then show ?thesis
    unfolding rest query_values_def[of s] using k nv by simp
qed

lemma parse_range_values:
  "range_ok r \<Longrightarrow> parse_range r v = v @ query_values (chars r)"
proof (induction r v rule: parse_range.induct)
  case (1 tmp v)
  show ?case
  proof (cases "range_begin tmp < range_end tmp")
    case False
    then have "chars tmp = []"
      using 1(2) by (simp add: chars_def between_empty range_ok_def)
    then show ?thesis
      using False by (simp add: parse_range.simps[of tmp v] query_values_def)
  next
    case True
    obtain f h t where s1: "range_split_char tmp (CHR ''&'') = (f, h, t)"
      using prod_cases3 by blast
    obtain f' k w where s2: "range_split_char h (CHR ''='') = (f', k, w)"
      using prod_cases3 by blast
    have ok: "range_ok h" "range_ok t" "range_ok k" "range_ok w"
      using range_split_char_ok[OF 1(2) s1] range_split_char_ok[OF _ s2] by auto
    have ne: "chars tmp \<noteq> []"
      using True 1(2) by (metis less_irrefl range_empty_chars range_empty_def)
    have "query_values (chars tmp) =
        (if chars k \<noteq> [] then [(url_dec (chars k), url_dec (chars w))] else []) @ query_values (chars t)"
      using query_values_step[OF ne, of f "chars h" "chars t" f' "chars k" "chars w"]
        range_split_char_chars[OF 1(2) s1] range_split_char_chars[OF ok(1) s2] by simp
    moreover have "parse_range t u = u @ query_values (chars t)"
      if "u = (if \<not> range_empty k then v @ [(urldecode k, urldecode w)] else v)" for u
      using 1(1)[OF True s1[symmetric] refl s2[symmetric] refl ok(2)] that by simp
    ultimately show ?thesis
      using True s1 s2 ok by (simp add: parse_range.simps[of tmp v])
  qed
qed

text \<open>The encoded form of a list of named values.\<close>

definition format_value :: "string \<times> string \<Rightarrow> string" where
  "format_value kv = urlencode_string (fst kv) @ ''='' @ urlencode_string (snd kv)"

fun format_values :: "(string \<times> string) list \<Rightarrow> string" where
  "format_values [] = []"
| "format_values [kv] = format_value kv"
| "format_values (kv # kvs) = format_value kv @ ''&'' @ format_values kvs"

lemma format_value_enc: "format_value kv = url_enc (fst kv) @ ''='' @ url_enc (snd kv)"
  by (simp add: format_value_def urlencode_string_def)

lemma format_value_no_amp: "CHR ''&'' \<notin> set (format_value kv)"
  using url_enc_safe[of "CHR ''&''"] by (auto simp: format_value_enc)

lemma named_value_format: "named_value (format_value kv) = kv"
proof -
  have "\<forall>c\<in>set (url_enc (fst kv)). c \<noteq> CHR ''=''"
    using url_enc_safe[of "CHR ''=''"] by auto
  then show ?thesis
    using url_dec_enc[of "fst kv" "[]"] url_dec_enc[of "snd kv" "[]"]
    by (simp add: named_value_def str_split_char_def format_value_enc prod_eq_iff)
qed

lemma format_value_kept:
  assumes "fst kv \<noteq> []"
  shows "format_value kv \<noteq> [] \<and> hd (format_value kv) \<noteq> CHR ''=''"
proof -
  have "hd (url_enc (fst kv)) \<in> set (url_enc (fst kv))"
    using assms by (intro hd_in_set) simp
  then have "hd (url_enc (fst kv)) \<noteq> CHR ''=''"
    using url_enc_safe by fastforce
  then show ?thesis
    using assms by (simp add: format_value_enc hd_append)
qed

lemma str_fields_format:
  "kvs \<noteq> [] \<Longrightarrow> str_fields (CHR ''&'') (format_values kvs) = map format_value kvs"
proof (induction kvs rule: format_values.induct)
  case (2 kv)
  have "\<forall>c\<in>set (format_value kv). c \<noteq> CHR ''&''" using format_value_no_amp[of kv] by metis
  then have "takeWhile (\<lambda>c. c \<noteq> CHR ''&'') (format_value kv) = format_value kv"
    unfolding takeWhile_eq_all_conv .
  then show ?case
    using format_value_no_amp by (subst str_fields_Cons) simp
next
  case (3 kv kv' kvs)
  have "\<forall>c\<in>set (format_value kv). c \<noteq> CHR ''&''" using format_value_no_amp[of kv] by metis
  then show ?case
    using 3 by (subst str_fields_Cons) simp
qed simp

lemma query_values_format:
  "(\<And>k v. (k, v) \<in> set kvs \<Longrightarrow> k \<noteq> []) \<Longrightarrow> query_values (format_values kvs) = kvs"
proof (cases "kvs = []")
  case True
  then show ?thesis by (simp add: query_values_def)
next
  case False
  assume keys: "\<And>k v. (k, v) \<in> set kvs \<Longrightarrow> k \<noteq> []"
  have "filter (\<lambda>f. f \<noteq> [] \<and> hd f \<noteq> CHR ''='') (map format_value kvs) = map format_value kvs"
    using keys format_value_kept by (fastforce simp: filter_id_conv)
  then show ?thesis
    using False by (simp add: query_values_def str_fields_format named_value_format comp_def)
qed

section \<open>Properties\<close>

text \<open>C34. Decoding the url-encoded form of any string, whatever bytes it has, gives the string back.\<close>

theorem urldecode_urlencode: "urldecode_string (urlencode_string s) = s"
  using url_dec_enc[of s "[]"] by (simp add: urldecode_string_def urlencode_string_def)

text \<open>
  A query string made from named values is parsed into these values, in their order and behind
  what the vector held before; the values may be any strings and the names any non-empty ones.
\<close>

theorem parse_format_values:
  assumes "\<forall>kv\<in>set kvs. fst kv \<noteq> []"
  shows "parse_string (format_values kvs) v = v @ kvs"
  using assms parse_range_values[of "fromString (format_values kvs)" v] query_values_format[of kvs]
  by (force simp: parse_string_def)

theorem parse_format_values_witness:
  "parse_string (format_values [(''a b'', ''x=1&y''), (''k'', [])]) [(''q'', ''0'')] =
     [(''q'', ''0''), (''a b'', ''x=1&y''), (''k'', [])]"
  using parse_format_values[of "[(''a b'', ''x=1&y''), (''k'', [])]" "[(''q'', ''0'')]"] by simp

end
