(* ===== verification/Http_Date.thy ===== *)
theory Http_Date
  imports C_Library
begin

text \<open>
  \<^verbatim>\<open>HttpDateUtils::format\<close> (\<^verbatim>\<open>library/util.cpp\<close>), with what it uses of the C library: \<^verbatim>\<open>gmtime_r\<close>
  on the proleptic Gregorian calendar and \<^verbatim>\<open>strftime\<close> with the format
  \<^verbatim>\<open>%a, %d %b %Y %T GMT\<close> in the "C" locale. The calendar is computed from a day number within a
  cycle of 400 years; the lemmas give it back the day number (\<open>gmtime_day\<close>).
\<close>

section \<open>Definitions\<close>

record tm =
  tm_sec :: int
  tm_min :: int
  tm_hour :: int
  tm_mday :: int
  tm_mon :: nat
  tm_year :: int
  tm_wday :: nat

definition is_leap :: "int \<Rightarrow> bool" where
  "is_leap y \<longleftrightarrow> (y mod 4 = 0 \<and> y mod 100 \<noteq> 0) \<or> y mod 400 = 0"

definition year_length :: "int \<Rightarrow> int" where
  "year_length y = (if is_leap y then 366 else 365)"

definition month_lengths :: "int \<Rightarrow> int list" where
  "month_lengths y = [31, if is_leap y then 29 else 28, 31, 30, 31, 30, 31, 31, 30, 31, 30, 31]"

function year_of :: "int \<Rightarrow> int \<Rightarrow> int \<times> int" where
  "year_of y d = (if d < year_length y then (y, d) else year_of (y + 1) (d - year_length y))"
  by pat_completeness auto
termination
  by (relation "measure (\<lambda>(y, d). nat d)") (auto simp: year_length_def split: if_splits)

fun month_of :: "int list \<Rightarrow> int \<Rightarrow> nat \<times> int" where
  "month_of [] d = (0, d)"
| "month_of (l # ls) d =
     (if d < l then (0, d) else (case month_of ls (d - l) of (m, r) \<Rightarrow> (Suc m, r)))"

text \<open>The calendar day of a day number, counted from 1970-01-01, a Thursday.\<close>

definition civil :: "int \<Rightarrow> int \<times> nat \<times> int" where
  "civil n = (case year_of (1970 + 400 * (n div 146097)) (n mod 146097) of (y, d) \<Rightarrow>
     (case month_of (month_lengths y) d of (m, r) \<Rightarrow> (y, m, r + 1)))"

text \<open>\<^verbatim>\<open>gmtime_r\<close> fails when the year does not fit into the \<^verbatim>\<open>int\<close> field \<^verbatim>\<open>tm_year\<close>.\<close>

definition gmtime_r :: "int \<Rightarrow> tm option" where
  "gmtime_r t = (case civil (t div 86400) of (y, m, d) \<Rightarrow>
     if - 2147483648 \<le> y - 1900 \<and> y - 1900 < 2147483648
     then Some \<lparr>tm_sec = t mod 60, tm_min = t div 60 mod 60, tm_hour = t div 3600 mod 24,
       tm_mday = d, tm_mon = m, tm_year = y - 1900, tm_wday = nat ((t div 86400 + 4) mod 7)\<rparr>
     else None)"

definition wday_names :: "string list" where
  "wday_names = [''Sun'', ''Mon'', ''Tue'', ''Wed'', ''Thu'', ''Fri'', ''Sat'']"

definition month_names :: "string list" where
  "month_names = [''Jan'', ''Feb'', ''Mar'', ''Apr'', ''May'', ''Jun'', ''Jul'', ''Aug'', ''Sep'',
     ''Oct'', ''Nov'', ''Dec'']"

definition show_int :: "int \<Rightarrow> string" where
  "show_int i = (if i < 0 then CHR ''-'' # show_nat (nat (- i)) else show_nat (nat i))"

definition two_digits :: "int \<Rightarrow> string" where
  "two_digits i = [char_of (48 + nat i div 10), char_of (48 + nat i mod 10)]"

definition strftime_http :: "tm \<Rightarrow> string" where
  "strftime_http ts =
     wday_names ! tm_wday ts @ '', '' @ two_digits (tm_mday ts) @ '' '' @ month_names ! tm_mon ts @
     '' '' @ show_int (tm_year ts + 1900) @ '' '' @ two_digits (tm_hour ts) @ '':'' @
     two_digits (tm_min ts) @ '':'' @ two_digits (tm_sec ts) @ '' GMT''"

text \<open>The text is never empty and always fits into the buffer of 255 characters.\<close>

definition HttpDate_format :: "int \<Rightarrow> string result" where
  "HttpDate_format t = (case gmtime_r t of
     Some ts \<Rightarrow> Inr (strftime_http ts)
   | None \<Rightarrow> Inl (RuntimeError ''failed to format date''))"

declare year_of.simps [simp del]

section \<open>The calendar\<close>

text \<open>Day number of the first day of a year, and of a calendar day.\<close>

definition year_start :: "int \<Rightarrow> int" where
  "year_start y = 365 * (y - 1970) + (y - 1) div 4 - (y - 1) div 100 + (y - 1) div 400 - 477"

definition day_number :: "int \<Rightarrow> nat \<Rightarrow> int \<Rightarrow> int" where
  "day_number y m d = year_start y + sum_list (take m (month_lengths y)) + d - 1"

lemma div_pred:
  assumes "0 < (k::int)"
  shows "y div k = (y - 1) div k + (if y mod k = 0 then 1 else 0)"
proof (cases "y mod k = 0")
  case True
  then have "y - 1 = k * (y div k - 1) + (k - 1)"
    by (simp add: algebra_simps) (metis mult_div_mod_eq add.right_neutral)
  then have "(y - 1) div k = y div k - 1"
    by (rule int_div_pos_eq) (use assms in simp_all)
  then show ?thesis using True by simp
next
  case False
  have "0 \<le> y mod k" "y mod k < k" using assms by simp_all
  then have "y - 1 = k * (y div k) + (y mod k - 1)" "0 \<le> y mod k - 1" "y mod k - 1 < k"
    using False by simp_all
  then have "(y - 1) div k = y div k"
    by (rule int_div_pos_eq)
  then show ?thesis using False by simp
qed

lemma leap_count:
  fixes p4 p100 p400 :: int
  assumes "q4 = p4 + (if d4 then 1 else 0)" "q100 = p100 + (if d100 then 1 else 0)"
    "q400 = p400 + (if d400 then 1 else 0)" and "d400 \<Longrightarrow> d100" "d100 \<Longrightarrow> d4"
  shows "q4 - q100 + q400 = p4 - p100 + p400 + (if (d4 \<and> \<not> d100) \<or> d400 then 1 else 0)"
  using assms by auto

lemma year_start_Suc: "year_start (y + 1) = year_start y + year_length y"
proof -
  have "y mod 400 = 0 \<Longrightarrow> y mod 100 = 0" "y mod 100 = 0 \<Longrightarrow> y mod 4 = 0"
    using mod_mod_cancel[of 100 400 y] mod_mod_cancel[of 4 100 y] by simp_all
  then have "y div 4 - y div 100 + y div 400 =
      (y - 1) div 4 - (y - 1) div 100 + (y - 1) div 400 + (if is_leap y then 1 else 0)"
    unfolding is_leap_def by (intro leap_count div_pred) simp_all
  moreover have "year_length y = 365 + (if is_leap y then 1 else 0)"
    by (simp add: year_length_def)
  moreover have "year_start (y + 1) = 365 * (y - 1970) + 365 + (y div 4 - y div 100 + y div 400) - 477"
    by (simp add: year_start_def algebra_simps)
  ultimately show ?thesis
    by (simp add: year_start_def)
qed

lemma year_of_start:
  "year_of y d = (y', d') \<Longrightarrow> 0 \<le> d \<Longrightarrow>
   0 \<le> d' \<and> d' < year_length y' \<and> year_start y' + d' = year_start y + d"
proof (induction y d rule: year_of.induct)
  case (1 y d)
  show ?case
  proof (cases "d < year_length y")
    case True
    then show ?thesis using 1(2,3) by (simp add: year_of.simps[of y d])
  next
    case False
    then have "year_of (y + 1) (d - year_length y) = (y', d')"
      using 1(2) by (simp add: year_of.simps[of y d])
    then show ?thesis
      using 1(1)[OF False] False 1(3) year_start_Suc[of y] by simp
  qed
qed

lemma month_of_sum:
  "month_of ls d = (m, r) \<Longrightarrow> 0 \<le> d \<Longrightarrow> d < sum_list ls \<Longrightarrow>
   m < length ls \<and> 0 \<le> r \<and> r < ls ! m \<and> sum_list (take m ls) + r = d"
proof (induction ls arbitrary: d m)
  case Nil
  then show ?case by simp
next
  case (Cons l ls)
  then show ?case
    by (cases "d < l") (force split: prod.splits)+
qed

lemma sum_month_lengths: "sum_list (month_lengths y) = year_length y"
  by (simp add: month_lengths_def year_length_def)

lemma year_start_era: "year_start (1970 + 400 * k) = 146097 * k"
proof -
  have "(1969 + 400 * k) div 4 = 492 + 100 * k" "(1969 + 400 * k) div 100 = 19 + 4 * k"
    "(1969 + 400 * k) div 400 = 4 + k"
    by (rule int_div_pos_eq[where r = 1] int_div_pos_eq[where r = 69] int_div_pos_eq[where r = 369];
        simp)+
  then show ?thesis by (simp add: year_start_def)
qed

lemma civil_day_number:
  assumes "civil n = (y, m, d)"
  shows "day_number y m d = n \<and> m < 12 \<and> 1 \<le> d \<and> d \<le> month_lengths y ! m"
proof -
  obtain yd where yd: "year_of (1970 + 400 * (n div 146097)) (n mod 146097) = (y, yd)"
    "month_of (month_lengths y) yd = (m, d - 1)"
    using assms by (auto simp: civil_def split: prod.splits)
  have "0 \<le> yd \<and> yd < year_length y \<and> year_start y + yd = 146097 * (n div 146097) + n mod 146097"
    using year_of_start[OF yd(1)] by (simp add: year_start_era)
  then show ?thesis
    using month_of_sum[OF yd(2)] by (simp add: sum_month_lengths day_number_def) (simp add: month_lengths_def)
qed

lemma mixed_radix:
  "(t::int) = a * 60 + s \<Longrightarrow> a = b * 60 + m \<Longrightarrow> b = d * 24 + h \<Longrightarrow> d * 86400 + h * 3600 + m * 60 + s = t"
  by simp

text \<open>
  The broken-down time is a valid calendar day and time of day that denotes the time stamp.
\<close>

lemma gmtime_time:
  assumes "gmtime_r t = Some ts"
  shows "day_number (tm_year ts + 1900) (tm_mon ts) (tm_mday ts) * 86400 +
      tm_hour ts * 3600 + tm_min ts * 60 + tm_sec ts = t"
    "tm_mon ts < 12" "1 \<le> tm_mday ts" "tm_mday ts \<le> month_lengths (tm_year ts + 1900) ! tm_mon ts"
    "0 \<le> tm_hour ts \<and> tm_hour ts < 24" "0 \<le> tm_min ts \<and> tm_min ts < 60" "0 \<le> tm_sec ts \<and> tm_sec ts < 60"
proof -
  obtain y m d where c: "civil (t div 86400) = (y, m, d)" using prod_cases3 by blast
  have ts: "ts = \<lparr>tm_sec = t mod 60, tm_min = t div 60 mod 60, tm_hour = t div 3600 mod 24,
       tm_mday = d, tm_mon = m, tm_year = y - 1900, tm_wday = nat ((t div 86400 + 4) mod 7)\<rparr>"
    using assms c by (simp add: gmtime_r_def split: if_splits)
  have "t div 3600 = t div 60 div 60" "t div 86400 = t div 60 div 60 div 24"
    by (simp_all add: zdiv_zmult2_eq[symmetric])
  then have "t div 86400 * 86400 + t div 3600 mod 24 * 3600 + t div 60 mod 60 * 60 + t mod 60 = t"
    using mixed_radix[OF div_mult_mod_eq[of t 60, symmetric] div_mult_mod_eq[of "t div 60" 60, symmetric]
        div_mult_mod_eq[of "t div 60 div 60" 24, symmetric]] by (simp only:)
  moreover have "day_number (tm_year ts + 1900) (tm_mon ts) (tm_mday ts) = t div 86400"
    "tm_hour ts = t div 3600 mod 24" "tm_min ts = t div 60 mod 60" "tm_sec ts = t mod 60"
    using civil_day_number[OF c] by (simp_all add: ts)
  ultimately show "day_number (tm_year ts + 1900) (tm_mon ts) (tm_mday ts) * 86400 +
      tm_hour ts * 3600 + tm_min ts * 60 + tm_sec ts = t"
    by (simp only:)
  show "tm_mon ts < 12" "1 \<le> tm_mday ts" "tm_mday ts \<le> month_lengths (tm_year ts + 1900) ! tm_mon ts"
    using civil_day_number[OF c] by (simp_all add: ts)
  show "0 \<le> tm_hour ts \<and> tm_hour ts < 24" "0 \<le> tm_min ts \<and> tm_min ts < 60" "0 \<le> tm_sec ts \<and> tm_sec ts < 60"
    by (simp_all add: ts)
qed

section \<open>Properties\<close>

text \<open>
  A time stamp that \<^verbatim>\<open>HttpDateUtils::format\<close> accepts is written from a valid calendar day and time
  of day (a month of the year, a day of that month in that year, hours, minutes and seconds below
  their limits) that denotes exactly this time stamp.
\<close>

theorem format_calendar:
  assumes "gmtime_r t = Some ts"
  shows "HttpDate_format t = Inr (strftime_http ts) \<and>
    day_number (tm_year ts + 1900) (tm_mon ts) (tm_mday ts) * 86400 +
      tm_hour ts * 3600 + tm_min ts * 60 + tm_sec ts = t \<and>
    tm_mon ts < 12 \<and> 1 \<le> tm_mday ts \<and> tm_mday ts \<le> month_lengths (tm_year ts + 1900) ! tm_mon ts \<and>
    0 \<le> tm_hour ts \<and> tm_hour ts < 24 \<and> 0 \<le> tm_min ts \<and> tm_min ts < 60 \<and> 0 \<le> tm_sec ts \<and> tm_sec ts < 60"
  using assms gmtime_time[OF assms] by (simp add: HttpDate_format_def)

theorem format_calendar_witness:
  "HttpDate_format 951782400 = Inr ''Tue, 29 Feb 2000 00:00:00 GMT''"
proof -
  let ?ts = "\<lparr>tm_sec = 0, tm_min = 0, tm_hour = 0, tm_mday = 29, tm_mon = 1, tm_year = 100, tm_wday = 2\<rparr>"
  have "gmtime_r 951782400 = Some ?ts"
    by code_simp
  moreover have "strftime_http ?ts = ''Tue, 29 Feb 2000 00:00:00 GMT''"
    by code_simp
  ultimately show ?thesis
    using format_calendar[of 951782400 ?ts] by (simp only: simp_thms)
qed

end
