(* ===== verification/Containers.thy ===== *)
theory Containers
  imports C_Library
begin

text \<open>
  The containers of the request: \<^verbatim>\<open>hash_map\<close> with a key comparison (\<^verbatim>\<open>VarMap\<close> and
  \<^verbatim>\<open>HeaderMap\<close> of \<^verbatim>\<open>include/details/requestimpl.h\<close>), \<^verbatim>\<open>std::map\<close> and \<^verbatim>\<open>std::set\<close>, and the
  templates \<^verbatim>\<open>has\<close>, \<^verbatim>\<open>keys\<close> and \<^verbatim>\<open>get\<close> of \<^verbatim>\<open>include/details/parser.h\<close>.

  A \<^verbatim>\<open>hash_map\<close> is the list of its entries in iteration order. The order in which a hash map
  is traversed is not specified; here a new entry comes last, and no property of the development
  says more about the order than that it is a traversal of the entries. A \<^verbatim>\<open>std::map\<close> or
  \<^verbatim>\<open>std::set\<close> is the list of its entries in increasing order of the keys, where the order on
  strings is the one of \<^verbatim>\<open>std::less\<close> (bytes compared as unsigned characters).
\<close>

section \<open>Hash maps\<close>

type_synonym ('k, 'v) entries = "('k \<times> 'v) list"

fun hm_find :: "('k \<Rightarrow> 'k \<Rightarrow> bool) \<Rightarrow> ('k, 'v) entries \<Rightarrow> 'k \<Rightarrow> 'v option" where
  "hm_find eq [] k = None"
| "hm_find eq ((k', v) # m) k = (if eq k' k then Some v else hm_find eq m k)"

text \<open>\<^verbatim>\<open>m[k] = v\<close>: the stored key of an entry that is already there does not change.\<close>

fun hm_put :: "('k \<Rightarrow> 'k \<Rightarrow> bool) \<Rightarrow> ('k, 'v) entries \<Rightarrow> 'k \<Rightarrow> 'v \<Rightarrow> ('k, 'v) entries" where
  "hm_put eq [] k v = [(k, v)]"
| "hm_put eq ((k', v') # m) k v =
     (if eq k' k then (k', v) # m else (k', v') # hm_put eq m k v)"

text \<open>\<^verbatim>\<open>m.insert(make_pair(k, v))\<close>: no effect when there is an entry for the key.\<close>

definition hm_insert :: "('k \<Rightarrow> 'k \<Rightarrow> bool) \<Rightarrow> ('k, 'v) entries \<Rightarrow> 'k \<Rightarrow> 'v \<Rightarrow> ('k, 'v) entries" where
  "hm_insert eq m k v = (if hm_find eq m k = None then m @ [(k, v)] else m)"

type_synonym str_map = "(string, string) entries"

definition Parser_has :: "(string \<Rightarrow> string \<Rightarrow> bool) \<Rightarrow> str_map \<Rightarrow> string \<Rightarrow> bool" where
  "Parser_has eq m key \<longleftrightarrow> hm_find eq m key \<noteq> None"

definition Parser_keys :: "(string, 'v) entries \<Rightarrow> string list" where
  "Parser_keys m = map fst m"

definition Parser_get :: "(string \<Rightarrow> string \<Rightarrow> bool) \<Rightarrow> str_map \<Rightarrow> string \<Rightarrow> string" where
  "Parser_get eq m key = (case hm_find eq m key of None \<Rightarrow> [] | Some v \<Rightarrow> v)"

section \<open>Ordered maps and sets\<close>

fun sm_insert :: "('k::linorder, 'v) entries \<Rightarrow> 'k \<Rightarrow> 'v \<Rightarrow> ('k, 'v) entries" where
  "sm_insert [] k v = [(k, v)]"
| "sm_insert ((k', v') # m) k v =
     (if k < k' then (k, v) # (k', v') # m
      else if k = k' then (k', v') # m
      else (k', v') # sm_insert m k v)"

text \<open>\<^verbatim>\<open>m[k] = v\<close> of an ordered map.\<close>

fun sm_put :: "('k::linorder, 'v) entries \<Rightarrow> 'k \<Rightarrow> 'v \<Rightarrow> ('k, 'v) entries" where
  "sm_put [] k v = [(k, v)]"
| "sm_put ((k', v') # m) k v =
     (if k < k' then (k, v) # (k', v') # m
      else if k = k' then (k', v) # m
      else (k', v') # sm_put m k v)"

definition sm_find :: "('k, 'v) entries \<Rightarrow> 'k \<Rightarrow> 'v option" where
  "sm_find m k = map_of m k"

fun ss_insert :: "'k::linorder list \<Rightarrow> 'k \<Rightarrow> 'k list" where
  "ss_insert [] k = [k]"
| "ss_insert (k' # s) k = (if k < k' then k # k' # s else if k = k' then k' # s else k' # ss_insert s k)"

section \<open>The interface of a map whose keys are compared by an equivalence\<close>

text \<open>No two entries of a hash map have equal keys.\<close>

definition hm_distinct :: "('k \<Rightarrow> 'k \<Rightarrow> bool) \<Rightarrow> ('k, 'v) entries \<Rightarrow> bool" where
  "hm_distinct eq m \<longleftrightarrow> sorted_wrt (\<lambda>a b. \<not> eq (fst a) (fst b)) m"

locale key_equivalence =
  fixes eq :: "'k \<Rightarrow> 'k \<Rightarrow> bool"
  assumes eq_refl: "eq k k"
    and eq_sym: "eq a b \<Longrightarrow> eq b a"
    and eq_trans: "eq a b \<Longrightarrow> eq b c \<Longrightarrow> eq a c"
begin

lemma find_put_same: "eq k k' \<Longrightarrow> hm_find eq (hm_put eq m k v) k' = Some v"
  by (induction m) (auto; metis eq_sym eq_trans)+

lemma find_put_other: "\<not> eq k k' \<Longrightarrow> hm_find eq (hm_put eq m k v) k' = hm_find eq m k'"
  by (induction m) (auto; metis eq_sym eq_trans)+

lemma find_put: "hm_find eq (hm_put eq m k v) k' = (if eq k k' then Some v else hm_find eq m k')"
  by (simp add: find_put_same find_put_other)

lemma find_cong: "eq k k' \<Longrightarrow> hm_find eq m k = hm_find eq m k'"
  by (induction m) (auto; metis eq_sym eq_trans)+

lemma find_append:
  "hm_find eq (m @ m') k = (case hm_find eq m k of Some v \<Rightarrow> Some v | None \<Rightarrow> hm_find eq m' k)"
  by (induction m) auto

lemma find_insert:
  "hm_find eq (hm_insert eq m k v) k' =
     (if eq k k' \<and> hm_find eq m k = None then Some v else hm_find eq m k')"
  using find_cong[of k k' m] by (auto simp: hm_insert_def find_append split: option.splits)

lemma find_None_iff: "hm_find eq m k = None \<longleftrightarrow> (\<forall>e\<in>set m. \<not> eq (fst e) k)"
  by (induction m) (auto split: if_splits)

lemma put_keys: "e \<in> set (hm_put eq m k v) \<Longrightarrow> fst e = k \<or> fst e \<in> fst ` set m"
  by (induction m) (auto split: if_splits)

lemma distinct_put: "hm_distinct eq m \<Longrightarrow> hm_distinct eq (hm_put eq m k v)"
proof (induction m)
  case Nil
  then show ?case by (simp add: hm_distinct_def)
next
  case (Cons e m)
  then show ?case
    using put_keys[of _ m k v] by (cases e) (fastforce simp: hm_distinct_def)
qed

lemma distinct_insert: "hm_distinct eq m \<Longrightarrow> hm_distinct eq (hm_insert eq m k v)"
  by (auto simp: hm_insert_def hm_distinct_def sorted_wrt_append find_None_iff)

lemma insert_all_distinct:
  "hm_distinct eq (m @ m') \<Longrightarrow> fold (\<lambda>(k, v) acc. hm_insert eq acc k v) m' m = m @ m'"
proof (induction m' arbitrary: m)
  case Nil
  then show ?case by simp
next
  case (Cons e m')
  obtain k v where e: "e = (k, v)" by (cases e)
  have "hm_find eq m k = None"
    using Cons.prems e by (auto simp: find_None_iff hm_distinct_def sorted_wrt_append)
  then show ?case
    using Cons.IH[of "m @ [e]"] Cons.prems e by (simp add: hm_insert_def)
qed

lemma put_commute:
  assumes "\<not> eq k k'"
  shows "hm_find eq (hm_put eq (hm_put eq m k v) k' v') x = hm_find eq (hm_put eq (hm_put eq m k' v') k v) x"
proof -
  have "\<not> (eq k x \<and> eq k' x)"
    using assms eq_sym eq_trans by blast
  then show ?thesis by (auto simp: find_put)
qed

end

interpretation var_map: key_equivalence "(=) :: string \<Rightarrow> string \<Rightarrow> bool"
  by unfold_locales auto

interpretation header_map: key_equivalence StringCIEqual
  by unfold_locales (auto simp: StringCIEqual_iff)

lemma hm_distinct_Nil [simp]: "hm_distinct eq []"
  by (simp add: hm_distinct_def)

section \<open>Ordered maps\<close>

definition sm_sorted :: "('k::linorder, 'v) entries \<Rightarrow> bool" where
  "sm_sorted m \<longleftrightarrow> sorted_wrt (<) (map fst m)"

lemma sm_insert_keys: "set (map fst (sm_insert m k v)) = insert k (set (map fst m))"
  by (induction m k v rule: sm_insert.induct) auto

lemma sm_sorted_insert: "sm_sorted m \<Longrightarrow> sm_sorted (sm_insert m k v)"
proof (induction m k v rule: sm_insert.induct)
  case (1 k v)
  then show ?case by (simp add: sm_sorted_def)
next
  case (2 k' v' m k v)
  then have "sm_sorted (sm_insert m k v)" if "\<not> k < k'" "k \<noteq> k'"
    using that by (auto simp: sm_sorted_def)
  then show ?case
    using 2(2) sm_insert_keys[of m k v] by (fastforce simp: sm_sorted_def)
qed

lemma sm_find_insert:
  "sm_sorted m \<Longrightarrow>
   sm_find (sm_insert m k v) k' = (if k = k' \<and> sm_find m k = None then Some v else sm_find m k')"
proof (induction m k v rule: sm_insert.induct)
  case (1 k v)
  then show ?case by (simp add: sm_find_def)
next
  case (2 a b m k v)
  have "k < a \<Longrightarrow> map_of m k = None"
    using 2(2) by (fastforce simp: sm_sorted_def map_of_eq_None_iff)
  then show ?case
    using 2 by (auto simp: sm_find_def sm_sorted_def)
qed

text \<open>Inserting the entries of an ordered map one by one into an empty map rebuilds it.\<close>

lemma sm_insert_last:
  "sm_sorted (m @ [(k, v)]) \<Longrightarrow> sm_insert m k v = m @ [(k, v)]"
  by (induction m k v rule: sm_insert.induct) (auto simp: sm_sorted_def sorted_wrt_append)

lemma sm_insert_all:
  "sm_sorted (m @ m') \<Longrightarrow> fold (\<lambda>(k, v) acc. sm_insert acc k v) m' m = m @ m'"
proof (induction m' arbitrary: m)
  case Nil
  then show ?case by simp
next
  case (Cons e m')
  obtain k v where e: "e = (k, v)" by (cases e)
  have "sm_sorted (m @ [(k, v)])"
    using Cons.prems e by (simp add: sm_sorted_def sorted_wrt_append)
  then show ?case
    using Cons.IH[of "m @ [e]"] Cons.prems e by (simp add: sm_insert_last)
qed

lemma sm_put_keys: "set (map fst (sm_put m k v)) = insert k (set (map fst m))"
  by (induction m k v rule: sm_put.induct) auto

lemma sm_sorted_put: "sm_sorted m \<Longrightarrow> sm_sorted (sm_put m k v)"
proof (induction m k v rule: sm_put.induct)
  case (1 k v)
  then show ?case by (simp add: sm_sorted_def)
next
  case (2 k' v' m k v)
  then have "sm_sorted (sm_put m k v)" if "\<not> k < k'" "k \<noteq> k'"
    using that by (auto simp: sm_sorted_def)
  then show ?case
    using 2(2) sm_put_keys[of m k v] by (fastforce simp: sm_sorted_def)
qed

lemma sm_find_put:
  "sm_sorted m \<Longrightarrow> sm_find (sm_put m k v) k' = (if k = k' then Some v else sm_find m k')"
  by (induction m k v rule: sm_put.induct) (auto simp: sm_find_def sm_sorted_def)

lemma ss_insert_set: "set (ss_insert s k) = insert k (set s)"
  by (induction s k rule: ss_insert.induct) auto

lemma ss_insert_sorted: "sorted_wrt (<) s \<Longrightarrow> sorted_wrt (<) (ss_insert s k)"
proof (induction s k rule: ss_insert.induct)
  case (2 k' s k)
  then show ?case using ss_insert_set[of s k] by fastforce
qed simp

end
