(* ===== verification/Cookies.thy ===== *)
theory Cookies
  imports String_Utils Http_Date Containers
begin

text \<open>
  \<^verbatim>\<open>Cookie\<close> and its \<^verbatim>\<open>CookieData\<close> (\<^verbatim>\<open>library/cookie.cpp\<close>). Copies of a cookie do not share their
  data, so that a cookie is the value of its data; the getters are the fields of the record. A
  \<^verbatim>\<open>std::set<Cookie>\<close> compares cookies by name: it is the list of its cookies in increasing order
  of the names.
\<close>

section \<open>Definitions\<close>

definition MAX_EXPIRES_TIME :: int where
  "MAX_EXPIRES_TIME = 2147483647"

record cookie =
  ck_secure :: bool
  ck_httpOnly :: bool
  ck_encode :: bool
  ck_expires :: int
  ck_name :: string
  ck_value :: string
  ck_path :: string
  ck_domain :: string

definition Cookie_new :: "string \<Rightarrow> string \<Rightarrow> cookie" where
  "Cookie_new nam val = \<lparr>ck_secure = False, ck_httpOnly = False, ck_encode = False, ck_expires = 0,
     ck_name = nam, ck_value = val, ck_path = ''/'', ck_domain = []\<rparr>"

definition cookie_set_secure :: "bool \<Rightarrow> cookie \<Rightarrow> cookie" where
  "cookie_set_secure val c = c\<lparr>ck_secure := val\<rparr>"

definition cookie_set_httpOnly :: "bool \<Rightarrow> cookie \<Rightarrow> cookie" where
  "cookie_set_httpOnly val c = c\<lparr>ck_httpOnly := val\<rparr>"

definition cookie_set_expires :: "int \<Rightarrow> cookie \<Rightarrow> cookie" where
  "cookie_set_expires val c = c\<lparr>ck_expires := val\<rparr>"

definition cookie_set_path :: "string \<Rightarrow> cookie \<Rightarrow> cookie" where
  "cookie_set_path val c = c\<lparr>ck_path := val\<rparr>"

definition cookie_set_domain :: "string \<Rightarrow> cookie \<Rightarrow> cookie" where
  "cookie_set_domain val c = c\<lparr>ck_domain := val\<rparr>"

definition cookie_permanent :: "cookie \<Rightarrow> bool" where
  "cookie_permanent c \<longleftrightarrow> ck_expires c = MAX_EXPIRES_TIME"

definition cookie_set_permanent :: "bool \<Rightarrow> cookie \<Rightarrow> cookie" where
  "cookie_set_permanent val c = c\<lparr>ck_expires := if val then MAX_EXPIRES_TIME else 0\<rparr>"

definition cookie_urlEncode :: "bool \<Rightarrow> cookie \<Rightarrow> cookie" where
  "cookie_urlEncode val c = c\<lparr>ck_encode := val\<rparr>"

definition cookie_toString :: "cookie \<Rightarrow> string result" where
  "cookie_toString c = bindE
     (if ck_expires c \<noteq> 0
      then bindE (HttpDate_format (ck_expires c)) (\<lambda>date. Inr (''; expires='' @ date))
      else Inr [])
     (\<lambda>expires. Inr (
        ck_name c @ ''='' @ (if ck_encode c then urlencode_string (ck_value c) else ck_value c) @
        (if ck_domain c \<noteq> [] then ''; domain='' @ ck_domain c else []) @
        (if ck_path c \<noteq> [] then ''; path='' @ ck_path c else []) @
        expires @
        (if ck_secure c then ''; secure'' else []) @
        (if ck_httpOnly c then ''; HttpOnly'' else [])))"

definition cookie_less :: "cookie \<Rightarrow> cookie \<Rightarrow> bool" where
  "cookie_less c d \<longleftrightarrow> ck_name c < ck_name d"

text \<open>\<^verbatim>\<open>std::set<Cookie>::insert\<close> and the assignment to an element that is already there.\<close>

fun cset_insert :: "cookie list \<Rightarrow> cookie \<Rightarrow> cookie list \<times> bool" where
  "cset_insert [] c = ([c], True)"
| "cset_insert (d # s) c =
     (if cookie_less c d then (c # d # s, True)
      else if cookie_less d c then (case cset_insert s c of (s', b) \<Rightarrow> (d # s', b))
      else (d # s, False))"

fun cset_assign :: "cookie list \<Rightarrow> cookie \<Rightarrow> cookie list" where
  "cset_assign [] c = []"
| "cset_assign (d # s) c =
     (if \<not> cookie_less c d \<and> \<not> cookie_less d c then c # s else d # cset_assign s c)"

section \<open>The cookie string\<close>

text \<open>
  The text of a cookie starts with its name and its value, and everything else is introduced by
  a semicolon.
\<close>

lemma cookie_toString_shape:
  assumes "cookie_toString c = Inr s"
  obtains rest where
    "s = ck_name c @ ''='' @ (if ck_encode c then url_enc (ck_value c) else ck_value c) @ rest"
    "rest = [] \<or> hd rest = CHR '';''"
  using assms that
  by (cases "ck_domain c = []"; cases "ck_path c = []"; cases "ck_expires c = 0";
      auto simp: cookie_toString_def urlencode_string_def split: if_splits)

section \<open>The set of cookies\<close>

definition cset_sorted :: "cookie list \<Rightarrow> bool" where
  "cset_sorted s \<longleftrightarrow> sorted_wrt cookie_less s"

definition cset_find :: "cookie list \<Rightarrow> string \<Rightarrow> cookie option" where
  "cset_find s n = find (\<lambda>c. ck_name c = n) s"

lemma cset_insert_names:
  "set (map ck_name (fst (cset_insert s c))) = insert (ck_name c) (set (map ck_name s))"
proof (induction s c rule: cset_insert.induct)
  case (2 d s c)
  have "\<not> ck_name c < ck_name d \<Longrightarrow> \<not> ck_name d < ck_name c \<Longrightarrow> ck_name c = ck_name d"
    by simp
  then show ?case
    using 2 by (cases "cset_insert s c") (auto simp: cookie_less_def)
qed simp

lemma cset_insert_sorted: "cset_sorted s \<Longrightarrow> cset_sorted (fst (cset_insert s c))"
proof (induction s c rule: cset_insert.induct)
  case (1 c)
  then show ?case by (simp add: cset_sorted_def)
next
  case (2 d s c)
  have "x \<in> set (fst (cset_insert s c)) \<Longrightarrow> ck_name x = ck_name c \<or> ck_name x \<in> ck_name ` set s" for x
    using cset_insert_names[of s c] by auto
  then show ?case
    using 2 by (fastforce simp: cset_sorted_def cookie_less_def split: prod.splits)
qed

lemma cset_assign_names: "map ck_name (cset_assign s c) = map ck_name s"
  by (induction s c rule: cset_assign.induct) (auto simp: cookie_less_def)

lemma cset_sorted_names: "cset_sorted s = sorted_wrt (<) (map ck_name s)"
proof -
  have "cookie_less = (\<lambda>x y. ck_name x < ck_name y)"
    by (simp add: cookie_less_def fun_eq_iff)
  then show ?thesis by (simp add: cset_sorted_def sorted_wrt_map)
qed

text \<open>\<^verbatim>\<open>insert\<close>, with the assignment when the name is there already: what \<^verbatim>\<open>setCookie\<close> does.\<close>

definition cset_replace :: "cookie list \<Rightarrow> cookie \<Rightarrow> cookie list" where
  "cset_replace s c = (case cset_insert s c of (s', inserted) \<Rightarrow> if inserted then s' else cset_assign s' c)"

lemma cset_replace_sorted: "cset_sorted s \<Longrightarrow> cset_sorted (cset_replace s c)"
  using cset_insert_sorted[of s c] cset_assign_names
  by (auto simp: cset_replace_def cset_sorted_names split: prod.splits)

lemma cset_insert_present: "\<not> snd (cset_insert s c) \<Longrightarrow> fst (cset_insert s c) = s \<and> ck_name c \<in> ck_name ` set s"
  by (induction s c rule: cset_insert.induct) (auto simp: cookie_less_def split: prod.splits if_splits)

lemma cset_insert_new:
  "snd (cset_insert s c) \<Longrightarrow> cset_sorted s \<Longrightarrow>
   cset_find (fst (cset_insert s c)) n = (if n = ck_name c then Some c else cset_find s n)"
proof (induction s c rule: cset_insert.induct)
  case (1 c)
  then show ?case by (simp add: cset_find_def)
next
  case (2 d s c)
  then show ?case
    by (auto simp: cset_find_def cset_sorted_def cookie_less_def split: prod.splits if_splits)
qed

lemma cset_find_assign:
  "ck_name c \<in> ck_name ` set s \<Longrightarrow>
   cset_find (cset_assign s c) n = (if n = ck_name c then Some c else cset_find s n)"
proof (induction s c rule: cset_assign.induct)
  case (1 c)
  then show ?case by simp
next
  case (2 d s c)
  then show ?case
    using linorder_less_linear[of "ck_name c" "ck_name d"] by (auto simp: cset_find_def cookie_less_def)
qed

lemma cset_find_replace:
  assumes "cset_sorted s"
  shows "cset_find (cset_replace s c) n = (if n = ck_name c then Some c else cset_find s n)"
proof (cases "snd (cset_insert s c)")
  case True
  then show ?thesis
    using cset_insert_new[OF True assms] by (auto simp: cset_replace_def split: prod.splits)
next
  case False
  then show ?thesis
    using cset_insert_present[OF False] cset_find_assign[of c s n]
    by (auto simp: cset_replace_def split: prod.splits)
qed

end
