(* ===== verification/Mmap_File.thy ===== *)
theory Mmap_File
  imports Prelude
begin

text \<open>
  \<^verbatim>\<open>MMapFile\<close> of \<^verbatim>\<open>request-cache/mmap_file.cpp\<close>: a file of which one segment at a time is
  mapped into memory. A pointer into the mapping is the file offset of the byte it points to.
  The system calls are a parameter (\<open>syscalls\<close>): whether a call of \<^verbatim>\<open>mmap\<close>, \<^verbatim>\<open>munmap\<close>,
  \<^verbatim>\<open>ftruncate\<close>, \<^verbatim>\<open>open\<close> or \<^verbatim>\<open>fstat\<close> succeeds, and the text of \<^verbatim>\<open>strerror_r\<close>. The
  lemmas show that the mapping is a cache: whatever segment is mapped, \<^verbatim>\<open>at\<close>, \<^verbatim>\<open>atRange\<close>
  and \<^verbatim>\<open>atSegment\<close> return the byte and the pointers that the file and the index determine.
  File offsets are natural numbers: no sum of this class comes near \<open>2^64\<close>, because a file
  size is at most \<open>2^63\<close>.
\<close>

section \<open>Definitions\<close>

datatype mptr = Null | MapFailed | At nat

record mmap_file =
  mm_pointer :: mptr
  mm_size :: nat
  mm_read_only :: bool
  mm_window :: nat
  mm_segment_start :: nat
  mm_segment_len :: nat
  mm_page_size :: nat

record syscalls =
  mmap_ok :: "nat \<Rightarrow> nat \<Rightarrow> bool"   \<comment> \<open>length and offset\<close>
  munmap_ok :: "nat \<Rightarrow> bool"
  ftruncate_ok :: "nat \<Rightarrow> bool"
  open_ok :: bool
  fstat_size :: "nat option"
  sys_page_size :: nat
  sys_error :: string

definition out_of_range :: error where
  "out_of_range = OutOfRange ''mapped file index out of range''"

definition mm_check_index :: "nat \<Rightarrow> (mmap_file, unit) st" where
  "mm_check_index index = (\<lambda>f. if index \<ge> mm_size f then (Inl out_of_range, f) else (Inr (), f))"

definition mm_mapped :: "mmap_file \<Rightarrow> nat \<Rightarrow> nat \<Rightarrow> bool" where
  "mm_mapped f b e \<longleftrightarrow> b \<ge> mm_segment_start f \<and> e \<le> mm_segment_start f + mm_segment_len f"

definition mm_unmap :: "syscalls \<Rightarrow> (mmap_file, unit) st" where
  "mm_unmap S = (\<lambda>f.
     if mm_pointer f \<noteq> Null then
       (if \<not> munmap_ok S (mm_segment_len f) then (Inl (RuntimeError (sys_error S)), f)
        else (Inr (), f\<lparr>mm_pointer := Null, mm_segment_start := 0, mm_segment_len := 0\<rparr>))
     else (Inr (), f))"

text \<open>Pointer arithmetic on the mapping; on a null pointer it has no meaning.\<close>

fun ptr_add :: "mptr \<Rightarrow> nat \<Rightarrow> nat \<Rightarrow> mptr" where
  "ptr_add (At p) b start = At (p + b - start)"
| "ptr_add q b start = q"

definition mm_map_range :: "syscalls \<Rightarrow> nat \<Rightarrow> nat \<Rightarrow> (mmap_file, mptr) st" where
  "mm_map_range S b e = bindS getS (\<lambda>f.
     if mm_mapped f b e then returnS (ptr_add (mm_pointer f) b (mm_segment_start f))
     else bindS (mm_unmap S) (\<lambda>_. bindS getS (\<lambda>f.
       let base = mm_page_size f * (b div mm_page_size f) in
       if mmap_ok S (e - base) base
       then bindS (modifyS (\<lambda>f. f\<lparr>mm_pointer := At base, mm_segment_start := base,
                                    mm_segment_len := e - base\<rparr>))
              (\<lambda>_. returnS (At (base + (b - base))))
       else bindS (modifyS (\<lambda>f. f\<lparr>mm_pointer := MapFailed\<rparr>))
              (\<lambda>_. throwS (RuntimeError (sys_error S))))))"

definition mm_map_segment :: "syscalls \<Rightarrow> nat \<Rightarrow> (mmap_file, mptr) st" where
  "mm_map_segment S segment = bindS getS (\<lambda>f.
     let pos = segment * mm_window f in mm_map_range S pos (pos + mm_window f))"

definition checkWindow :: "mmap_file \<Rightarrow> mmap_file" where
  "checkWindow f =
     (if mm_window f = 0 then f\<lparr>mm_window := 10 * mm_page_size f\<rparr>
      else (let window_index = mm_window f div mm_page_size f;
                offset = mm_window f - window_index * mm_page_size f;
                window_index' = (if offset \<noteq> 0 then window_index + 1 else window_index)
            in f\<lparr>mm_window := mm_page_size f * window_index'\<rparr>))"

definition MMapFile_new :: "syscalls \<Rightarrow> nat \<Rightarrow> bool \<Rightarrow> (mmap_file, unit) st" where
  "MMapFile_new S window is_read_only = bindS
     (modifyS (\<lambda>_. \<lparr>mm_pointer = Null, mm_size = 0, mm_read_only = is_read_only,
        mm_window = window, mm_segment_start = 0, mm_segment_len = 0,
        mm_page_size = sys_page_size S\<rparr>)) (\<lambda>_.
     if \<not> open_ok S then throwS (RuntimeError (sys_error S))
     else (case fstat_size S of
        None \<Rightarrow> throwS (RuntimeError (sys_error S))
      | Some n \<Rightarrow> bindS (modifyS (\<lambda>f. checkWindow (f\<lparr>mm_size := n\<rparr>))) (\<lambda>_.
          bindS (mm_map_segment S 0) (\<lambda>_. returnS ()))))"

definition mm_clone :: "syscalls \<Rightarrow> mmap_file \<Rightarrow> mmap_file result" where
  "mm_clone S f = fst (bindS (mm_map_segment S 0) (\<lambda>_. getS)
     (checkWindow \<lparr>mm_pointer = Null, mm_size = mm_size f, mm_read_only = False,
        mm_window = mm_window f, mm_segment_start = 0, mm_segment_len = 0,
        mm_page_size = mm_page_size f\<rparr>))"

definition mm_resize :: "syscalls \<Rightarrow> nat \<Rightarrow> (mmap_file, unit) st" where
  "mm_resize S newsize = bindS (mm_unmap S) (\<lambda>_.
     if \<not> ftruncate_ok S newsize then throwS (RuntimeError (sys_error S))
     else bindS (modifyS (\<lambda>f. f\<lparr>mm_size := newsize\<rparr>)) (\<lambda>_.
       bindS (mm_map_segment S 0) (\<lambda>_. returnS ())))"

text \<open>Reading through a pointer into the mapping of a file with the bytes \<open>file\<close>.\<close>

fun deref_ptr :: "string \<Rightarrow> mptr \<Rightarrow> nat \<Rightarrow> char result" where
  "deref_ptr file (At p) k =
     (if p + k < length file then Inr (file ! (p + k)) else Inl UndefinedBehaviour)"
| "deref_ptr file q k = Inl UndefinedBehaviour"

definition mm_at :: "syscalls \<Rightarrow> string \<Rightarrow> nat \<Rightarrow> (mmap_file, char) st" where
  "mm_at S file index = bindS (mm_check_index index) (\<lambda>_. bindS getS (\<lambda>f.
     if mm_mapped f index (index + 1)
     then liftS (deref_ptr file (mm_pointer f) (index - mm_segment_start f))
     else bindS (mm_map_segment S (index div mm_window f)) (\<lambda>p.
       liftS (deref_ptr file p (index mod mm_window f)))))"

definition mm_atRange :: "syscalls \<Rightarrow> nat \<Rightarrow> nat \<Rightarrow> (mmap_file, mptr) st" where
  "mm_atRange S index len = bindS (mm_check_index index) (\<lambda>_.
     bindS (if len > 0 then mm_check_index (index + len - 1) else returnS ()) (\<lambda>_.
       mm_map_range S index (index + len)))"

definition mm_atSegment :: "syscalls \<Rightarrow> nat \<Rightarrow> (mmap_file, mptr \<times> nat) st" where
  "mm_atSegment S index = bindS (mm_check_index index) (\<lambda>_. bindS getS (\<lambda>f.
     let segment_pos = (index div mm_window f) * mm_window f;
         len = min (segment_pos + mm_window f) (mm_size f) - index
     in bindS (mm_map_range S segment_pos (segment_pos + mm_window f)) (\<lambda>segment.
       returnS (ptr_add segment index segment_pos, len))))"

section \<open>The mapping is a cache\<close>

text \<open>The invariant of an opened file, and the system calls doing what they are documented to.\<close>

definition mm_ok :: "mmap_file \<Rightarrow> bool" where
  "mm_ok f \<longleftrightarrow> 0 < mm_page_size f \<and> 0 < mm_window f \<and> mm_page_size f dvd mm_window f \<and>
     (case mm_pointer f of
        Null \<Rightarrow> mm_segment_start f = 0 \<and> mm_segment_len f = 0
      | At p \<Rightarrow> p = mm_segment_start f
      | MapFailed \<Rightarrow> False)"

definition syscalls_succeed :: "syscalls \<Rightarrow> bool" where
  "syscalls_succeed S \<longleftrightarrow> 0 < sys_page_size S \<and> open_ok S \<and> fstat_size S \<noteq> None \<and>
     (\<forall>n. munmap_ok S n \<and> ftruncate_ok S n) \<and>
     (\<forall>n p. 0 < n \<longrightarrow> sys_page_size S dvd p \<longrightarrow> mmap_ok S n p)"

lemma mm_okD:
  assumes "mm_ok f"
  shows "0 < mm_page_size f" "0 < mm_window f" "mm_page_size f dvd mm_window f"
    "mm_pointer f = At p \<Longrightarrow> p = mm_segment_start f"
    "mm_pointer f = Null \<Longrightarrow> mm_segment_start f = 0 \<and> mm_segment_len f = 0"
  using assms by (auto simp: mm_ok_def)

lemma mm_unmap_ok:
  assumes "syscalls_succeed S" "mm_ok f"
  shows "mm_unmap S f = (Inr (), f\<lparr>mm_pointer := Null, mm_segment_start := 0, mm_segment_len := 0\<rparr>)"
  using assms mm_okD(5)[of f] by (cases "mm_pointer f") (auto simp: mm_unmap_def syscalls_succeed_def)

lemma mm_map_range_ok:
  assumes "syscalls_succeed S" "mm_ok f" "mm_page_size f = sys_page_size S" "b < e"
  shows "\<exists>f'. mm_map_range S b e f = (Inr (At b), f') \<and> mm_ok f' \<and> mm_mapped f' b e \<and>
    mm_size f' = mm_size f \<and> mm_window f' = mm_window f \<and> mm_page_size f' = mm_page_size f"
proof (cases "mm_mapped f b e")
  case True
  then have "mm_pointer f \<noteq> Null"
    using assms(4) mm_okD(5)[OF assms(2)] by (auto simp: mm_mapped_def)
  then obtain p where p: "mm_pointer f = At p" "p = mm_segment_start f"
    using assms(2) by (cases "mm_pointer f") (auto simp: mm_ok_def)
  then show ?thesis
    using True assms(2) by (auto simp: mm_map_range_def monad_simps mm_mapped_def)
next
  case False
  let ?base = "mm_page_size f * (b div mm_page_size f)"
  have base: "?base \<le> b" "sys_page_size S dvd ?base"
    using assms(3) by auto
  have "0 < e - ?base" using base(1) assms(4) by linarith
  with base(2) have "mmap_ok S (e - ?base) ?base"
    using assms(1) unfolding syscalls_succeed_def by blast
  then show ?thesis
    using False base assms(2,4)
    by (auto simp: mm_map_range_def monad_simps mm_unmap_ok[OF assms(1,2)] Let_def mm_ok_def
        mm_mapped_def)
qed

lemma mm_map_segment_ok:
  assumes "syscalls_succeed S" "mm_ok f" "mm_page_size f = sys_page_size S"
  shows "\<exists>f'. mm_map_segment S n f = (Inr (At (n * mm_window f)), f') \<and> mm_ok f' \<and>
    mm_size f' = mm_size f \<and> mm_window f' = mm_window f \<and> mm_page_size f' = mm_page_size f"
  using mm_map_range_ok[OF assms, of "n * mm_window f" "n * mm_window f + mm_window f"]
    mm_okD(2)[OF assms(2)]
  by (auto simp: mm_map_segment_def monad_simps Let_def)

lemma mm_at_value:
  assumes "syscalls_succeed S" "mm_ok f" "mm_page_size f = sys_page_size S" "mm_size f = length file"
  shows "fst (mm_at S file i f) = (if i < length file then Inr (file ! i) else Inl out_of_range)"
    and "mm_ok (snd (mm_at S file i f))"
proof -
  obtain f' where f': "mm_map_segment S (i div mm_window f) f =
      (Inr (At (i div mm_window f * mm_window f)), f')" "mm_ok f'"
    using mm_map_segment_ok[OF assms(1-3)] by blast
  have mapped: "fst (liftS (deref_ptr file (mm_pointer f) (i - mm_segment_start f)) f) = Inr (file ! i)"
    if "mm_mapped f i (i + 1)" "i < length file"
    using that mm_okD(5)[OF assms(2)] assms(2)
    by (cases "mm_pointer f") (auto simp: monad_simps mm_mapped_def mm_ok_def)
  show "fst (mm_at S file i f) = (if i < length file then Inr (file ! i) else Inl out_of_range)"
    using mapped f' assms(4)
    by (auto simp: mm_at_def mm_check_index_def monad_simps)
  show "mm_ok (snd (mm_at S file i f))"
    using f' assms(2) by (auto simp: mm_at_def mm_check_index_def monad_simps split: sum.splits)
qed

lemma mm_atRange_value:
  assumes "syscalls_succeed S" "mm_ok f" "mm_page_size f = sys_page_size S"
    "0 < n" "i + n \<le> mm_size f"
  shows "\<exists>f'. mm_atRange S i n f = (Inr (At i), f') \<and> mm_ok f' \<and> mm_mapped f' i (i + n)"
  using mm_map_range_ok[OF assms(1-3), of i "i + n"] assms(4,5)
  by (auto simp: mm_atRange_def mm_check_index_def monad_simps)

lemma mm_atSegment_value:
  assumes "syscalls_succeed S" "mm_ok f" "mm_page_size f = sys_page_size S" "i < mm_size f"
  shows "\<exists>f'. mm_atSegment S i f =
      (Inr (At i, min (i div mm_window f * mm_window f + mm_window f) (mm_size f) - i), f') \<and> mm_ok f'"
proof -
  have "i div mm_window f * mm_window f \<le> i"
    by simp
  then show ?thesis
    using mm_map_range_ok[OF assms(1-3), of "i div mm_window f * mm_window f"
        "i div mm_window f * mm_window f + mm_window f"] mm_okD(2)[OF assms(2)] assms(4)
    by (auto simp: mm_atSegment_def mm_check_index_def monad_simps Let_def)
qed

section \<open>Opening a file\<close>

lemma round_up:
  assumes "(w::nat) = q + r" "r < p" "0 < p"
  shows "w \<le> (if w = 0 then 10 * p else if r \<noteq> 0 then q + p else q)"
    "w \<noteq> 0 \<Longrightarrow> (if w = 0 then 10 * p else if r \<noteq> 0 then q + p else q) < w + p"
  using assms by (cases "r = 0"; simp)+

lemma checkWindow_window:
  assumes "0 < mm_page_size f"
  shows "mm_page_size f dvd mm_window (checkWindow f)" "0 < mm_window (checkWindow f)"
    "mm_window f \<le> mm_window (checkWindow f)"
    "mm_window f \<noteq> 0 \<Longrightarrow> mm_window (checkWindow f) < mm_window f + mm_page_size f"
proof -
  let ?w = "mm_window f" and ?p = "mm_page_size f"
  have split: "?w = ?p * (?w div ?p) + ?w mod ?p" and less: "?w mod ?p < ?p"
    using assms by (auto simp: mult.commute)
  have off: "?w - ?w div ?p * ?p = ?w mod ?p"
    by (metis minus_div_mult_eq_mod)
  have new: "mm_window (checkWindow f) = (if ?w = 0 then 10 * ?p
      else if ?w mod ?p \<noteq> 0 then ?p * (?w div ?p) + ?p else ?p * (?w div ?p))"
    unfolding checkWindow_def Let_def off by simp
  show "?p dvd mm_window (checkWindow f)"
    by (auto simp: new)
  show le: "?w \<le> mm_window (checkWindow f)"
    "?w \<noteq> 0 \<Longrightarrow> mm_window (checkWindow f) < ?w + ?p"
    unfolding new using round_up[OF split less assms] by simp_all
  show "0 < mm_window (checkWindow f)"
    using assms le(1) by (cases "?w = 0") (auto simp: checkWindow_def)
qed

lemma MMapFile_new_ok:
  assumes "syscalls_succeed S" "fstat_size S = Some n"
  shows "\<exists>f'. MMapFile_new S window ro f0 = (Inr (), f') \<and> mm_ok f' \<and> mm_size f' = n \<and>
    mm_page_size f' = sys_page_size S \<and> window \<le> mm_window f'"
proof -
  let ?f = "checkWindow \<lparr>mm_pointer = Null, mm_size = n, mm_read_only = ro, mm_window = window,
      mm_segment_start = 0, mm_segment_len = 0, mm_page_size = sys_page_size S\<rparr>"
  have page: "mm_page_size ?f = sys_page_size S" "mm_size ?f = n"
    by (auto simp: checkWindow_def Let_def)
  have ok: "mm_ok ?f"
    using assms(1) checkWindow_window[of "\<lparr>mm_pointer = Null, mm_size = n, mm_read_only = ro,
        mm_window = window, mm_segment_start = 0, mm_segment_len = 0, mm_page_size = sys_page_size S\<rparr>"]
    by (auto simp: mm_ok_def checkWindow_def Let_def syscalls_succeed_def)
  have le: "window \<le> mm_window ?f"
    using assms(1) checkWindow_window(3)[of "\<lparr>mm_pointer = Null, mm_size = n, mm_read_only = ro,
        mm_window = window, mm_segment_start = 0, mm_segment_len = 0, mm_page_size = sys_page_size S\<rparr>"]
    by (simp add: syscalls_succeed_def)
  show ?thesis
    using mm_map_segment_ok[OF assms(1) ok page(1), of 0] page le assms
    by (auto simp: MMapFile_new_def monad_simps syscalls_succeed_def)
qed

section \<open>Properties\<close>

text \<open>
  C38. The mapping of a file is only a cache: whatever segment is mapped when \<^verbatim>\<open>at\<close> is called, the call
  returns the byte of the file at the index, or the exception for an index behind the end, and leaves
  a well-formed mapping behind.
\<close>

theorem mmap_at_transparent:
  assumes "syscalls_succeed S" "mm_ok f" "mm_page_size f = sys_page_size S" "mm_size f = length file"
  shows "fst (mm_at S file i f) = (if i < length file then Inr (file ! i) else Inl out_of_range) \<and>
    mm_ok (snd (mm_at S file i f))"
  using mm_at_value[OF assms] by simp

definition example_calls :: syscalls where
  "example_calls = \<lparr>mmap_ok = (\<lambda>_ _. True), munmap_ok = (\<lambda>_. True), ftruncate_ok = (\<lambda>_. True), open_ok = True,
     fstat_size = Some 6, sys_page_size = 2, sys_error = []\<rparr>"

definition example_file :: mmap_file where
  "example_file = \<lparr>mm_pointer = At 0, mm_size = 6, mm_read_only = False, mm_window = 2,
     mm_segment_start = 0, mm_segment_len = 2, mm_page_size = 2\<rparr>"

theorem mmap_at_transparent_witness:
  "fst (mm_at example_calls ''abcdef'' 5 example_file) = Inr (CHR ''f'')"
  using mmap_at_transparent[of example_calls example_file "''abcdef''" 5]
  by (simp add: syscalls_succeed_def example_calls_def example_file_def mm_ok_def)

end
