(* ===== verification/Buffer_Impl.thy ===== *)
theory Buffer_Impl
  imports Ranges Mmap_File
begin

text \<open>
  The two storages behind a \<^verbatim>\<open>DataBuffer\<close>: \<^verbatim>\<open>StringBuffer\<close> (\<^verbatim>\<open>library/string_buffer.cpp\<close>, a
  vector of characters) and \<^verbatim>\<open>FileBuffer\<close> (\<^verbatim>\<open>request-cache/file_buffer.cpp\<close>, a memory mapped
  file read through a window). A \<^verbatim>\<open>FileBuffer\<close> is its file name, the bytes of the file and the
  window size; the accesses to \<^verbatim>\<open>MMapFile\<close> are the values that \<open>Mmap_File\<close> proves it to return
  whatever segment is mapped, so that the state of the mapping does not appear here. A \<^verbatim>\<open>char*\<close>
  into a storage is the offset of the byte it points to.

  The contract of \<^verbatim>\<open>DataBufferImpl\<close> is the locale \<open>buffer_impl\<close>; both storages, and the
  virtual dispatch over them, are instances. \<^verbatim>\<open>trim\<close> is a contract of its own, which
  \<^verbatim>\<open>StringBuffer\<close> satisfies and \<^verbatim>\<open>FileBuffer\<close> does not.
\<close>

section \<open>StringBuffer\<close>

definition sb_read :: "string \<Rightarrow> nat \<Rightarrow> nat \<Rightarrow> string result" where
  "sb_read data pos len =
     (if pos + len \<le> length data then Inr (between data pos (pos + len)) else Inl UndefinedBehaviour)"

definition sb_write :: "string \<Rightarrow> nat \<Rightarrow> string \<Rightarrow> string result" where
  "sb_write data pos src =
     (if pos + length src \<le> length data then Inr (overwrite data pos src) else Inl UndefinedBehaviour)"

definition sb_at :: "string \<Rightarrow> nat \<Rightarrow> char result" where
  "sb_at data pos =
     (if pos < length data then Inr (data ! pos) else Inl (OutOfRange ''vector::_M_range_check''))"

definition sb_find :: "string \<Rightarrow> nat \<Rightarrow> nat \<Rightarrow> string \<Rightarrow> nat result" where
  "sb_find data b e buf =
     (if length buf > wsub e b then Inr e
      else Inr (range_find (mk_Range data b e) (mk_Range buf 0 (length buf))))"

definition sb_trim :: "string \<Rightarrow> nat \<Rightarrow> nat \<Rightarrow> (nat \<times> nat) result" where
  "sb_trim data b e =
     (let trimmed = range_trim (mk_Range data b e) in Inr (range_begin trimmed, range_end trimmed))"

definition sb_chunk :: "string \<Rightarrow> nat \<Rightarrow> (nat \<times> nat) result" where
  "sb_chunk data pos = Inr (pos, wsub (length data) pos)"

definition sb_segment :: "string \<Rightarrow> nat \<Rightarrow> (nat \<times> nat) result" where
  "sb_segment data pos = Inr (pos, length data)"

definition vec_resize :: "string \<Rightarrow> nat \<Rightarrow> string" where
  "vec_resize data n = take n data @ replicate (n - length data) NUL"

definition sb_resize :: "string \<Rightarrow> nat \<Rightarrow> string result" where
  "sb_resize data n = Inr (vec_resize data n)"

section \<open>FileBuffer\<close>

record file_buf =
  fb_name :: string
  fb_bytes :: string
  fb_window :: nat

definition fb_at :: "file_buf \<Rightarrow> nat \<Rightarrow> char result" where
  "fb_at f pos = (if pos < length (fb_bytes f) then Inr (fb_bytes f ! pos) else Inl out_of_range)"

text \<open>\<^verbatim>\<open>chunk\<close> is \<^verbatim>\<open>MMapFile::atSegment\<close>; a window of size 0 divides by zero.\<close>

definition fb_chunk :: "file_buf \<Rightarrow> nat \<Rightarrow> (nat \<times> nat) result" where
  "fb_chunk f pos =
     (if pos \<ge> length (fb_bytes f) then Inl out_of_range
      else if fb_window f = 0 then Inl UndefinedBehaviour
      else Inr (pos, min (pos div fb_window f * fb_window f + fb_window f) (length (fb_bytes f)) - pos))"

definition fb_segment :: "file_buf \<Rightarrow> nat \<Rightarrow> (nat \<times> nat) result" where
  "fb_segment f pos =
     (if fb_window f = 0 then Inl UndefinedBehaviour
      else Inr (pos, fb_window f * (pos div fb_window f) + fb_window f))"

function fb_read_loop :: "file_buf \<Rightarrow> nat \<Rightarrow> nat \<Rightarrow> string result" where
  "fb_read_loop f pos read_len =
     (if read_len = 0 then Inr []
      else bindE (fb_chunk f pos) (\<lambda>c.
        if snd c = 0 then Inl (RuntimeError ''Cannot fetch chunk'')
        else (let cur_len = min (snd c) read_len in
          bindE (fb_read_loop f (pos + cur_len) (read_len - cur_len)) (\<lambda>rest.
            Inr (between (fb_bytes f) (fst c) (fst c + cur_len) @ rest)))))"
  by pat_completeness auto
termination by (relation "measure (\<lambda>(f, pos, n). n)") auto

definition fb_read :: "file_buf \<Rightarrow> nat \<Rightarrow> nat \<Rightarrow> string result" where
  "fb_read f pos len =
     (if wadd pos len > length (fb_bytes f) then Inl (RuntimeError ''Data is out of range'')
      else fb_read_loop f pos len)"

function fb_write_loop :: "file_buf \<Rightarrow> nat \<Rightarrow> string \<Rightarrow> file_buf result" where
  "fb_write_loop f pos data =
     (if data = [] then Inr f
      else bindE (fb_chunk f pos) (\<lambda>c.
        if snd c = 0 then Inl (RuntimeError ''Cannot fetch chunk'')
        else (let cur_len = min (snd c) (length data) in
          fb_write_loop (f\<lparr>fb_bytes := overwrite (fb_bytes f) (fst c) (take cur_len data)\<rparr>)
            (pos + cur_len) (drop cur_len data))))"
  by pat_completeness auto
termination by (relation "measure (\<lambda>(f, pos, data). length data)") auto

definition fb_write :: "file_buf \<Rightarrow> nat \<Rightarrow> string \<Rightarrow> file_buf result" where
  "fb_write f pos data =
     (if wadd pos (length data) > length (fb_bytes f) then Inl (RuntimeError ''Data is out of range'')
      else fb_write_loop f pos data)"

text \<open>\<^verbatim>\<open>MMapFile::atRange\<close>: the two index checks, then the pointer to \<open>pos\<close>.\<close>

definition fb_atRange :: "file_buf \<Rightarrow> nat \<Rightarrow> nat \<Rightarrow> nat result" where
  "fb_atRange f pos len =
     (if pos \<ge> length (fb_bytes f) \<or> (len > 0 \<and> pos + len - 1 \<ge> length (fb_bytes f))
      then Inl out_of_range else Inr pos)"

function fb_find_loop :: "file_buf \<Rightarrow> nat \<Rightarrow> string \<Rightarrow> nat \<Rightarrow> nat \<Rightarrow> nat result" where
  "fb_find_loop f e buf segment_pos offset =
     (if fb_window f = 0 then Inl UndefinedBehaviour
      else (let pos = segment_pos + offset;
                len0 = fb_window f - offset + length buf;
                finish = (pos + len0 \<ge> e);
                len = (if finish then e - pos else len0)
            in bindE (fb_atRange f pos len) (\<lambda>p.
              let base = mk_Range (fb_bytes f) p (p + len);
                  res = range_find base (mk_Range buf 0 (length buf))
              in if res \<noteq> range_end base then Inr (res - p + pos)
                 else if finish then Inr e
                 else fb_find_loop f e buf (segment_pos + fb_window f) 0)))"
  by pat_completeness auto
termination
proof (relation "measure (\<lambda>(f, e, buf, s, off). e - s)", goal_cases)
  case 1
  show ?case by simp
qed (auto simp: Let_def)

definition fb_find :: "file_buf \<Rightarrow> nat \<Rightarrow> nat \<Rightarrow> string \<Rightarrow> nat result" where
  "fb_find f b e buf =
     (if length buf > wsub e b then Inr e
      else if fb_window f = 0 then Inl UndefinedBehaviour
      else (let segment_pos = fb_window f * (b div fb_window f)
            in fb_find_loop f e buf segment_pos (b - segment_pos)))"

text \<open>
  The two loops of \<^verbatim>\<open>trim\<close>. The second one hands the index \<^verbatim>\<open>end - 1\<close> itself, not the
  character at that index, to \<^verbatim>\<open>isspace\<close>, whose argument must be the value of an unsigned
  character or \<^verbatim>\<open>EOF\<close>; the 64-bit index is converted to \<^verbatim>\<open>int\<close> first.
\<close>

definition isspace_index :: "nat \<Rightarrow> bool result" where
  "isspace_index n =
     (let i = n mod 4294967296 in
      if i < 256 then Inr (isspace (char_of i))
      else if i = 4294967295 then Inr False
      else Inl UndefinedBehaviour)"

function fb_trim_begin :: "file_buf \<Rightarrow> nat \<Rightarrow> nat \<Rightarrow> nat result" where
  "fb_trim_begin f b e =
     (if b < e then bindE (fb_at f b) (\<lambda>c. if isspace c then fb_trim_begin f (Suc b) e else Inr b)
      else Inr b)"
  by pat_completeness auto
termination by (relation "measure (\<lambda>(f, b, e). e - b)") auto

fun fb_trim_end :: "nat \<Rightarrow> nat \<Rightarrow> nat result" where
  "fb_trim_end b e =
     (if b < e then bindE (isspace_index (e - 1)) (\<lambda>t. if t then fb_trim_end b (e - 1) else Inr e)
      else Inr e)"

definition fb_trim :: "file_buf \<Rightarrow> nat \<Rightarrow> nat \<Rightarrow> (nat \<times> nat) result" where
  "fb_trim f b e = bindE (fb_trim_begin f b e) (\<lambda>b'. bindE (fb_trim_end b' e) (\<lambda>e'. Inr (b', e')))"

definition fb_resize :: "file_buf \<Rightarrow> nat \<Rightarrow> file_buf result" where
  "fb_resize f n = Inr (f\<lparr>fb_bytes := vec_resize (fb_bytes f) n\<rparr>)"

section \<open>Virtual dispatch\<close>

datatype buf_impl = StringBuffer string | FileBuffer file_buf

primrec impl_bytes :: "buf_impl \<Rightarrow> string" where
  "impl_bytes (StringBuffer s) = s"
| "impl_bytes (FileBuffer f) = fb_bytes f"

definition impl_size :: "buf_impl \<Rightarrow> nat" where
  "impl_size i = length (impl_bytes i)"

primrec impl_read :: "buf_impl \<Rightarrow> nat \<Rightarrow> nat \<Rightarrow> string result" where
  "impl_read (StringBuffer s) pos len = sb_read s pos len"
| "impl_read (FileBuffer f) pos len = fb_read f pos len"

primrec impl_write :: "buf_impl \<Rightarrow> nat \<Rightarrow> string \<Rightarrow> buf_impl result" where
  "impl_write (StringBuffer s) pos data = bindE (sb_write s pos data) (\<lambda>s. Inr (StringBuffer s))"
| "impl_write (FileBuffer f) pos data = bindE (fb_write f pos data) (\<lambda>f. Inr (FileBuffer f))"

primrec impl_at :: "buf_impl \<Rightarrow> nat \<Rightarrow> char result" where
  "impl_at (StringBuffer s) pos = sb_at s pos"
| "impl_at (FileBuffer f) pos = fb_at f pos"

primrec impl_find :: "buf_impl \<Rightarrow> nat \<Rightarrow> nat \<Rightarrow> string \<Rightarrow> nat result" where
  "impl_find (StringBuffer s) b e buf = sb_find s b e buf"
| "impl_find (FileBuffer f) b e buf = fb_find f b e buf"

primrec impl_trim :: "buf_impl \<Rightarrow> nat \<Rightarrow> nat \<Rightarrow> (nat \<times> nat) result" where
  "impl_trim (StringBuffer s) b e = sb_trim s b e"
| "impl_trim (FileBuffer f) b e = fb_trim f b e"

primrec impl_chunk :: "buf_impl \<Rightarrow> nat \<Rightarrow> (nat \<times> nat) result" where
  "impl_chunk (StringBuffer s) pos = sb_chunk s pos"
| "impl_chunk (FileBuffer f) pos = fb_chunk f pos"

primrec impl_segment :: "buf_impl \<Rightarrow> nat \<Rightarrow> (nat \<times> nat) result" where
  "impl_segment (StringBuffer s) pos = sb_segment s pos"
| "impl_segment (FileBuffer f) pos = fb_segment f pos"

primrec impl_resize :: "buf_impl \<Rightarrow> nat \<Rightarrow> buf_impl result" where
  "impl_resize (StringBuffer s) n = bindE (sb_resize s n) (\<lambda>s. Inr (StringBuffer s))"
| "impl_resize (FileBuffer f) n = bindE (fb_resize f n) (\<lambda>f. Inr (FileBuffer f))"

primrec impl_filename :: "buf_impl \<Rightarrow> string" where
  "impl_filename (StringBuffer s) = []"
| "impl_filename (FileBuffer f) = fb_name f"

declare fb_read_loop.simps [simp del] fb_write_loop.simps [simp del] fb_find_loop.simps [simp del]
declare fb_trim_begin.simps [simp del] fb_trim_end.simps [simp del]

section \<open>The contract of a storage\<close>

locale buffer_impl =
  fixes bytes :: "'i \<Rightarrow> string"
    and ok :: "'i \<Rightarrow> bool"
    and rd :: "'i \<Rightarrow> nat \<Rightarrow> nat \<Rightarrow> string result"
    and wr :: "'i \<Rightarrow> nat \<Rightarrow> string \<Rightarrow> 'i result"
    and at :: "'i \<Rightarrow> nat \<Rightarrow> char result"
    and fnd :: "'i \<Rightarrow> nat \<Rightarrow> nat \<Rightarrow> string \<Rightarrow> nat result"
    and chunk :: "'i \<Rightarrow> nat \<Rightarrow> (nat \<times> nat) result"
    and segment :: "'i \<Rightarrow> nat \<Rightarrow> (nat \<times> nat) result"
    and rsz :: "'i \<Rightarrow> nat \<Rightarrow> 'i result"
  assumes ok_small: "ok i \<Longrightarrow> length (bytes i) < two64"
    and read_law: "ok i \<Longrightarrow> p + n \<le> length (bytes i) \<Longrightarrow> rd i p n = Inr (between (bytes i) p (p + n))"
    and write_law: "ok i \<Longrightarrow> p + length s \<le> length (bytes i) \<Longrightarrow>
      \<exists>i'. wr i p s = Inr i' \<and> ok i' \<and> bytes i' = overwrite (bytes i) p s"
    and at_law: "ok i \<Longrightarrow> p < length (bytes i) \<Longrightarrow> at i p = Inr (bytes i ! p)"
    and find_law: "ok i \<Longrightarrow> b \<le> e \<Longrightarrow> e \<le> length (bytes i) \<Longrightarrow> s \<noteq> [] \<Longrightarrow>
      fnd i b e s = Inr (b + std_search (between (bytes i) b e) s)"
    and segment_law: "ok i \<Longrightarrow> p < length (bytes i) \<Longrightarrow>
      \<exists>q. segment i p = Inr (p, q) \<and> p < q \<and> chunk i p = Inr (p, min q (length (bytes i)) - p)"
    and resize_law: "ok i \<Longrightarrow> n < two64 \<Longrightarrow>
      \<exists>i'. rsz i n = Inr i' \<and> ok i' \<and> bytes i' = vec_resize (bytes i) n"
begin

lemma read_written:
  assumes "ok i" "p + length s \<le> length (bytes i)" "wr i p s = Inr i'"
  shows "rd i' p (length s) = Inr s"
proof -
  have "ok i'" "bytes i' = overwrite (bytes i) p s"
    using write_law[OF assms(1,2)] assms(3) by auto
  then show ?thesis
    using assms(2) read_law[of i' p "length s"] by (simp add: between_simps)
qed

lemma read_other:
  assumes "ok i" "p + length s \<le> length (bytes i)" "wr i p s = Inr i'"
    and "q + n \<le> p \<or> p + length s \<le> q" "q + n \<le> length (bytes i)"
  shows "rd i' q n = rd i q n"
proof -
  have i': "ok i'" "bytes i' = overwrite (bytes i) p s"
    using write_law[OF assms(1,2)] assms(3) by auto
  have "between (overwrite (bytes i) p s) q (q + n) = between (bytes i) q (q + n)"
    using assms(2,4) by (auto simp: between_overwrite_before between_overwrite_after)
  then show ?thesis
    using i' assms(1,2,5) by (simp add: read_law)
qed

end

text \<open>A storage that also cuts the white space at both ends of a range.\<close>

locale trimming_impl = buffer_impl +
  fixes trm :: "'i \<Rightarrow> nat \<Rightarrow> nat \<Rightarrow> (nat \<times> nat) result"
  assumes trim_law: "ok i \<Longrightarrow> b \<le> e \<Longrightarrow> e \<le> length (bytes i) \<Longrightarrow>
    \<exists>b' e'. trm i b e = Inr (b', e') \<and> b \<le> b' \<and> b' \<le> e' \<and> e' \<le> e \<and>
      between (bytes i) b' e' = str_trim (between (bytes i) b e)"
begin

lemma trim_nothing_to_cut:
  assumes "ok i" "b < e" "e \<le> length (bytes i)" "\<not> isspace (bytes i ! b)" "\<not> isspace (bytes i ! (e - 1))"
  shows "trm i b e = Inr (b, e)"
proof -
  obtain b' e' where t: "trm i b e = Inr (b', e')" "b \<le> b'" "b' \<le> e'" "e' \<le> e"
    "between (bytes i) b' e' = str_trim (between (bytes i) b e)"
    using trim_law[of i b e] assms by auto
  have first: "dropWhile isspace (between (bytes i) b e) = between (bytes i) b e"
    using assms(2,3,4) by (simp add: between_Cons)
  have "str_trim (between (bytes i) b e) = between (bytes i) b e"
    unfolding str_trim_def first using assms(2,3,5) by (simp add: between_snoc)
  then have "length (between (bytes i) b' e') = length (between (bytes i) b e)"
    using t(5) by simp
  then have "e' - b' = e - b"
    using t(2-4) assms(3) by (simp del: between_simps add: length_between_min)
  then have "b' = b" "e' = e"
    using t(2-4) assms(2) by linarith+
  then show ?thesis
    using t(1) by simp
qed

end

section \<open>The storages satisfy the contract\<close>

lemma length_vec_resize [simp]: "length (vec_resize s n) = n"
  by (simp add: vec_resize_def)

lemma mk_Range_ok: "b \<le> e \<Longrightarrow> e \<le> length m \<Longrightarrow> range_ok (mk_Range m b e)"
  by (simp add: range_ok_def)

lemma range_find_between:
  assumes "b \<le> e" "e \<le> length m"
  shows "range_find (mk_Range m b e) (mk_Range s 0 (length s)) = b + std_search (between m b e) s"
  using range_find_search[OF mk_Range_ok[OF assms] mk_Range_ok[of 0 "length s" s]]
  by (simp add: chars_mk_Range)

definition sb_ok :: "string \<Rightarrow> bool" where
  "sb_ok s \<longleftrightarrow> length s < two64"

interpretation sb: trimming_impl "\<lambda>s. s" sb_ok sb_read sb_write sb_at sb_find sb_chunk sb_segment
  sb_resize sb_trim
proof (unfold_locales, goal_cases)
  case (5 i b e s)
  show ?case
  proof (cases "length s > e - b")
    case True
    have "std_search (between i b e) s = length (between i b e)"
    proof (rule std_search_none)
      fix j
      show "\<not> prefix s (drop j (between i b e))"
        using True 5 prefix_length_le[of s "drop j (between i b e)"] by auto
    qed
    then show ?thesis
      using True 5 by (simp add: sb_find_def sb_ok_def u64_simps)
  next
    case False
    then show ?thesis
      using 5 by (simp add: sb_find_def sb_ok_def u64_simps range_find_between)
  qed
next
  case (6 i p)
  then show ?case by (auto simp: sb_segment_def sb_chunk_def sb_ok_def u64_simps)
next
  case (8 i b e)
  have ok: "range_ok (mk_Range i b e)"
    using 8 by (simp add: mk_Range_ok)
  have m: "range_mem (range_trim (mk_Range i b e)) = i"
    by (simp add: range_trim_def Let_def)
  have "b \<le> range_begin (range_trim (mk_Range i b e)) \<and> range_end (range_trim (mk_Range i b e)) \<le> e"
    using trim_begin_bounds[of b e i] trim_end_bounds[of "trim_begin i b e" e i] 8
    by (simp add: range_trim_def Let_def)
  then show ?case
    using chars_trim[OF ok] range_ok_trim[OF ok] m
    by (auto simp: sb_trim_def Let_def chars_def range_ok_def)
qed (auto simp: sb_ok_def sb_read_def sb_write_def sb_at_def sb_resize_def)

definition fb_ok :: "file_buf \<Rightarrow> bool" where
  "fb_ok f \<longleftrightarrow> 0 < fb_window f \<and> length (fb_bytes f) < two64"

lemma fb_chunk_ok:
  assumes "0 < fb_window f" "pos < length (fb_bytes f)"
  shows "\<exists>n. fb_chunk f pos = Inr (pos, n) \<and> 0 < n \<and> pos + n \<le> length (fb_bytes f)"
proof -
  have "pos < pos div fb_window f * fb_window f + fb_window f"
    using assms(1) by (rule window_end)
  then show ?thesis
    using assms by (auto simp: fb_chunk_def)
qed

lemma fb_read_loop_ok:
  "0 < fb_window f \<Longrightarrow> pos + n \<le> length (fb_bytes f) \<Longrightarrow>
   fb_read_loop f pos n = Inr (between (fb_bytes f) pos (pos + n))"
proof (induction f pos n rule: fb_read_loop.induct)
  case (1 f pos n)
  show ?case
  proof (cases "n = 0")
    case True
    then show ?thesis by (simp add: fb_read_loop.simps)
  next
    case False
    then obtain k where k: "fb_chunk f pos = Inr (pos, k)" "0 < k" "pos + k \<le> length (fb_bytes f)"
      using fb_chunk_ok[of f pos] 1 by auto
    have "fb_read_loop f (pos + min k n) (n - min k n) =
        Inr (between (fb_bytes f) (pos + min k n) (pos + n))"
      using 1(1)[OF False k(1) _ refl] k(2) 1(2,3) False by auto
    then show ?thesis
      using False k between_split[of pos "pos + min k n" "pos + n" "fb_bytes f"]
      by (subst fb_read_loop.simps) (simp add: Let_def)
  qed
qed

lemma overwrite_overwrite:
  assumes "p + length (s @ t) \<le> length xs"
  shows "overwrite (overwrite xs p s) (p + length s) t = overwrite xs p (s @ t)"
  using assms by (simp add: overwrite_def add.assoc add.commute[of "length t"])

lemma fb_write_loop_ok:
  "0 < fb_window f \<Longrightarrow> pos + length data \<le> length (fb_bytes f) \<Longrightarrow>
   fb_write_loop f pos data = Inr (f\<lparr>fb_bytes := overwrite (fb_bytes f) pos data\<rparr>)"
proof (induction f pos data rule: fb_write_loop.induct)
  case (1 f pos data)
  show ?case
  proof (cases "data = []")
    case True
    then show ?thesis by (simp add: fb_write_loop.simps overwrite_def)
  next
    case False
    then obtain k where k: "fb_chunk f pos = Inr (pos, k)" "0 < k" "pos + k \<le> length (fb_bytes f)"
      using fb_chunk_ok[of f pos] 1 by (cases data) auto
    let ?n = "min k (length data)"
    let ?f = "f\<lparr>fb_bytes := overwrite (fb_bytes f) pos (take ?n data)\<rparr>"
    have "fb_write_loop ?f (pos + ?n) (drop ?n data) =
        Inr (?f\<lparr>fb_bytes := overwrite (fb_bytes ?f) (pos + ?n) (drop ?n data)\<rparr>)"
      using 1(1)[OF False k(1) _ refl] k(2) 1(2,3) by simp
    then show ?thesis
      using False k 1(3) overwrite_overwrite[of pos "take ?n data" "drop ?n data" "fb_bytes f"]
      by (subst fb_write_loop.simps) (simp add: Let_def)
  qed
qed

lemma fb_find_loop_ok:
  "0 < fb_window f \<Longrightarrow> buf \<noteq> [] \<Longrightarrow> off \<le> fb_window f \<Longrightarrow> s + off < e \<Longrightarrow> e \<le> length (fb_bytes f) \<Longrightarrow>
   fb_find_loop f e buf s off = Inr (s + off + std_search (between (fb_bytes f) (s + off) e) buf)"
proof (induction f e buf s off rule: fb_find_loop.induct)
  case (1 f e buf s off)
  note w = 1(2) and buf = 1(3) and off = 1(4) and pos = 1(5) and e = 1(6)
  let ?pos = "s + off" and ?len = "fb_window f - off + length buf"
  let ?Y = "between (fb_bytes f) ?pos e"
  show ?case
  proof (cases "?pos + ?len \<ge> e")
    case True
    then show ?thesis
      using w pos e std_search_le[of ?Y buf]
      by (subst fb_find_loop.simps) (auto simp: Let_def fb_atRange_def range_find_between)
  next
    case False
    let ?X = "between (fb_bytes f) ?pos (?pos + ?len)"
    have X: "?X = take ?len ?Y" "length ?X = ?len" "length ?Y = e - ?pos"
      using False e by (simp_all add: between_def)
    have "?pos < length (fb_bytes f)" "?pos + ?len - 1 < length (fb_bytes f)"
      using False pos e by linarith+
    then have at: "fb_atRange f ?pos ?len = Inr ?pos"
      unfolding fb_atRange_def by simp
    have find: "range_find (mk_Range (fb_bytes f) ?pos (?pos + ?len)) (mk_Range buf 0 (length buf)) =
        ?pos + std_search ?X buf"
      using False e by (intro range_find_between) simp_all
    show ?thesis
    proof (cases "std_search ?X buf = ?len")
      case found: False
      then have "std_search (take ?len ?Y) buf < length (take ?len ?Y)"
        using std_search_le[of ?X buf] X(1,2) by (metis le_neq_implies_less)
      then have "std_search ?Y buf = std_search ?X buf"
        using std_search_take_found X(1) by metis
      then show ?thesis
        using found False w find at by (subst fb_find_loop.simps) (simp add: Let_def)
    next
      case missed: True
      have skip: "std_search ?Y buf = (fb_window f - off) + std_search (drop (fb_window f - off) ?Y) buf"
      proof (rule std_search_skip)
        show "fb_window f - off \<le> length ?Y" using X False by linarith
        show "\<not> prefix buf (drop j ?Y)" if "j < fb_window f - off" for j
          using std_search_take_missed[of ?len ?Y buf j] that X missed False by simp
      qed
      have Y: "drop (fb_window f - off) ?Y = between (fb_bytes f) (s + fb_window f) e"
        using off by (simp add: between_def drop_take add.commute)
      have "fb_find_loop f e buf (s + fb_window f) 0 =
          Inr (s + fb_window f + 0 + std_search (between (fb_bytes f) (s + fb_window f + 0) e) buf)"
        using 1(1)[of ?pos ?len False ?len ?pos "mk_Range (fb_bytes f) ?pos (?pos + ?len)" "?pos + ?len"]
          w buf off e missed find at False by simp
      then show ?thesis
        using missed False w find at skip Y off
        by (subst fb_find_loop.simps) (simp add: Let_def)
    qed
  qed
qed

lemma fb_find_ok:
  assumes "fb_ok f" "b \<le> e" "e \<le> length (fb_bytes f)" "s \<noteq> []"
  shows "fb_find f b e s = Inr (b + std_search (between (fb_bytes f) b e) s)"
proof (cases "length s > e - b")
  case True
  have "std_search (between (fb_bytes f) b e) s = length (between (fb_bytes f) b e)"
  proof (rule std_search_none)
    fix j
    show "\<not> prefix s (drop j (between (fb_bytes f) b e))"
      using True assms prefix_length_le[of s "drop j (between (fb_bytes f) b e)"] by auto
  qed
  then show ?thesis
    using True assms by (simp add: fb_find_def fb_ok_def u64_simps)
next
  case False
  have div: "fb_window f * (b div fb_window f) \<le> b" and rem: "b - fb_window f * (b div fb_window f) < fb_window f"
    using assms(1) by (simp_all add: fb_ok_def minus_mult_div_eq_mod)
  have "b < e"
    using False assms(4) by (cases s) auto
  then show ?thesis
    using False assms div rem
      fb_find_loop_ok[of f s "b - fb_window f * (b div fb_window f)" "fb_window f * (b div fb_window f)" e]
    by (simp add: fb_find_def fb_ok_def u64_simps Let_def)
qed

interpretation fb: buffer_impl fb_bytes fb_ok fb_read fb_write fb_at fb_find fb_chunk fb_segment fb_resize
proof (unfold_locales, goal_cases)
  case (2 i p n)
  then show ?case by (simp add: fb_read_def fb_ok_def u64_simps fb_read_loop_ok)
next
  case (3 i p s)
  then show ?case by (simp add: fb_write_def fb_ok_def u64_simps fb_write_loop_ok)
next
  case (5 i b e s)
  then show ?case by (rule fb_find_ok)
next
  case (6 i p)
  then show ?case
    using window_end[of "fb_window i" p]
    by (simp add: fb_segment_def fb_chunk_def fb_ok_def mult.commute)
qed (auto simp: fb_ok_def fb_at_def fb_resize_def)

definition impl_ok :: "buf_impl \<Rightarrow> bool" where
  "impl_ok i = (case i of StringBuffer s \<Rightarrow> sb_ok s | FileBuffer f \<Rightarrow> fb_ok f)"

interpretation impl: buffer_impl impl_bytes impl_ok impl_read impl_write impl_at impl_find impl_chunk
  impl_segment impl_resize
proof (unfold_locales, goal_cases)
  case (1 i)
  then show ?case by (cases i) (auto simp: impl_ok_def sb.ok_small fb.ok_small)
next
  case (2 i p n)
  then show ?case by (cases i) (auto simp: impl_ok_def sb.read_law fb.read_law)
next
  case (3 i p s)
  then show ?case
    using sb.write_law fb.write_law by (cases i) (force simp: impl_ok_def)+
next
  case (4 i p)
  then show ?case by (cases i) (auto simp: impl_ok_def sb.at_law fb.at_law)
next
  case (5 i b e s)
  then show ?case by (cases i) (auto simp: impl_ok_def sb.find_law fb.find_law)
next
  case (6 i p)
  then show ?case
    using sb.segment_law fb.segment_law by (cases i) (force simp: impl_ok_def)+
next
  case (7 i n)
  then show ?case
    using sb.resize_law fb.resize_law by (cases i) (force simp: impl_ok_def)+
qed

section \<open>Properties\<close>

text \<open>
  C36. Searching a mapped file window by window finds the first occurrence of the text in the range,
  also when it lies across two windows, and gives the end of the range when there is none.
\<close>

theorem file_find_searches:
  assumes "fb_ok f" "b \<le> e" "e \<le> length (fb_bytes f)" "s \<noteq> []"
  shows "fb_find f b e s = Inr (b + std_search (between (fb_bytes f) b e) s)"
  by (rule fb_find_ok[OF assms])

theorem file_find_searches_witness:
  "fb_find \<lparr>fb_name = [], fb_bytes = ''abcdefgh'', fb_window = 4\<rparr> 1 8 ''de'' = Inr 3"
  using file_find_searches[of "\<lparr>fb_name = [], fb_bytes = ''abcdefgh'', fb_window = 4\<rparr>" 1 8 "''de''"]
  by (simp add: fb_ok_def two64_def between_def)

text \<open>
  What is written to a storage, in memory or in a mapped file, is read back, and the bytes of the
  storage outside the written range stay as they were.
\<close>

theorem storage_read_written:
  assumes "impl_ok i" "p + length s \<le> length (impl_bytes i)" "impl_write i p s = Inr i'"
  shows "impl_ok i' \<and> impl_read i' p (length s) = Inr s \<and>
    (\<forall>q n. (q + n \<le> p \<or> p + length s \<le> q) \<and> q + n \<le> length (impl_bytes i) \<longrightarrow>
       impl_read i' q n = impl_read i q n)"
  using impl.write_law[OF assms(1,2)] impl.read_written[OF assms] impl.read_other[OF assms] assms(3)
  by auto

theorem storage_read_written_witness:
  "impl_read (FileBuffer \<lparr>fb_name = [], fb_bytes = ''aXYZe'', fb_window = 2\<rparr>) 1 (length ''XYZ'') = Inr ''XYZ''"
proof -
  let ?i = "FileBuffer \<lparr>fb_name = [], fb_bytes = ''abcde'', fb_window = 2\<rparr>"
  have w: "impl_write ?i 1 ''XYZ'' = Inr (FileBuffer \<lparr>fb_name = [], fb_bytes = ''aXYZe'', fb_window = 2\<rparr>)"
    by (simp add: fb_write_def fb_write_loop_ok wadd_def two64_def overwrite_def)
  have "impl_ok ?i" "1 + length ''XYZ'' \<le> length (impl_bytes ?i)"
    by (simp_all add: impl_ok_def fb_ok_def two64_def)
  from storage_read_written[OF this w] show ?thesis by blast
qed

text \<open>
  The end of the range that \<^verbatim>\<open>FileBuffer::trim\<close> returns does not depend on the text: on two files
  whose first character is visible it is the same, whatever white space one of them ends with.
\<close>

theorem file_trim_ignores_text:
  assumes "b < length (fb_bytes f)" "b < length (fb_bytes g)"
    and "\<not> isspace (fb_bytes f ! b)" "\<not> isspace (fb_bytes g ! b)"
  shows "fb_trim f b e = fb_trim g b e"
  using assms by (simp add: fb_trim_def fb_trim_begin.simps fb_at_def)

theorem file_trim_ignores_text_witness:
  "fb_trim \<lparr>fb_name = [], fb_bytes = ''a '', fb_window = 4\<rparr> 0 2 = Inr (0, 2)"
proof -
  let ?f = "\<lparr>fb_name = [], fb_bytes = ''a '', fb_window = 4\<rparr>"
  let ?g = "\<lparr>fb_name = [], fb_bytes = ''ab'', fb_window = 4\<rparr>"
  have "\<not> isspace (char_of (1::nat))" and i: "\<not> isspace (CHR ''a'')" by code_simp+
  then have "isspace_index 1 = Inr False" by (simp add: isspace_index_def)
  then have e: "fb_trim_end 0 2 = Inr 2" by (subst fb_trim_end.simps) simp
  have b: "fb_trim_begin ?g 0 2 = Inr 0"
    by (subst fb_trim_begin.simps) (simp add: fb_at_def i)
  have "fb_trim ?g 0 2 = Inr (0, 2)"
    by (simp add: fb_trim_def b e)
  moreover have "fb_trim ?f 0 2 = fb_trim ?g 0 2"
    by (rule file_trim_ignores_text) (simp_all add: i)
  ultimately show ?thesis by simp
qed

end
