(* ===== verification/Data_Buffer.thy ===== *)
theory Data_Buffer
  imports Buffer_Impl
begin

text \<open>
  \<^verbatim>\<open>DataBuffer\<close> and its \<^verbatim>\<open>SegmentIterator\<close> (\<^verbatim>\<open>library/data_buffer.cpp\<close>): a view of a
  storage that several buffers share. The storages live in a store (\<open>heap\<close>, a storage per
  address), so that a write or a resize through one buffer is seen by every other buffer on the
  same storage. The lemmas state each operation on the bytes the view shows (\<open>content\<close>).
\<close>

section \<open>Definitions\<close>

type_synonym heap = "buf_impl list"

record data_buffer =
  db_data :: "nat option"
  db_begin :: nat
  db_end :: nat

definition db_nil :: data_buffer where
  "db_nil = \<lparr>db_data = None, db_begin = 0, db_end = 0\<rparr>"

text \<open>\<^verbatim>\<open>data_->\<close>: a null pointer must not be followed.\<close>

definition db_impl :: "heap \<Rightarrow> data_buffer \<Rightarrow> buf_impl result" where
  "db_impl h d = (case db_data d of
     None \<Rightarrow> Inl UndefinedBehaviour
   | Some a \<Rightarrow> if a < length h then Inr (h ! a) else Inl UndefinedBehaviour)"

definition incorrect_index :: error where
  "incorrect_index = OutOfRange ''Incorrect index''"

definition db_sub :: "heap \<Rightarrow> data_buffer \<Rightarrow> nat \<Rightarrow> nat \<Rightarrow> data_buffer result" where
  "db_sub h d b e = bindE (db_impl h d) (\<lambda>i.
     if e > impl_size i then Inl incorrect_index
     else Inr \<lparr>db_data = db_data d, db_begin = b, db_end = e\<rparr>)"

definition db_create_impl :: "heap \<Rightarrow> buf_impl \<Rightarrow> heap \<times> data_buffer" where
  "db_create_impl h i = (h @ [i], \<lparr>db_data = Some (length h), db_begin = 0, db_end = impl_size i\<rparr>)"

definition db_create :: "heap \<Rightarrow> string \<Rightarrow> heap \<times> data_buffer" where
  "db_create h data = db_create_impl h (StringBuffer data)"

definition checkIndex :: "data_buffer \<Rightarrow> nat \<Rightarrow> unit result" where
  "checkIndex d index =
     (if 0 = index \<and> 0 = db_begin d \<and> 0 = db_end d then Inr ()
      else if index < db_begin d \<or> index \<ge> db_end d then Inl incorrect_index
      else Inr ())"

definition db_isNil :: "data_buffer \<Rightarrow> bool" where
  "db_isNil d \<longleftrightarrow> db_data d = None"

definition db_empty :: "data_buffer \<Rightarrow> bool" where
  "db_empty d \<longleftrightarrow> db_isNil d \<or> db_begin d = db_end d"

definition db_size :: "data_buffer \<Rightarrow> nat" where
  "db_size d = wsub (db_end d) (db_begin d)"

text \<open>\<^verbatim>\<open>read\<close> returns the bytes it copied; their number is the returned length.\<close>

definition db_read :: "heap \<Rightarrow> data_buffer \<Rightarrow> nat \<Rightarrow> nat \<Rightarrow> string result" where
  "db_read h d pos len =
     (if pos \<ge> wsub (db_end d) (db_begin d) then Inr []
      else bindE (db_impl h d) (\<lambda>i.
        impl_read i (wadd pos (db_begin d)) (min (wsub (wsub (db_end d) (db_begin d)) pos) len)))"

definition db_write :: "heap \<Rightarrow> data_buffer \<Rightarrow> nat \<Rightarrow> string \<Rightarrow> (nat \<times> heap) result" where
  "db_write h d pos data =
     (if pos \<ge> wsub (db_end d) (db_begin d) then Inr (0, h)
      else bindE (db_impl h d) (\<lambda>i.
        let n = min (wsub (wsub (db_end d) (db_begin d)) pos) (length data) in
        bindE (impl_write i (wadd pos (db_begin d)) (take n data)) (\<lambda>i'.
          Inr (n, h[the (db_data d) := i']))))"

definition db_resize :: "heap \<Rightarrow> data_buffer \<Rightarrow> nat \<Rightarrow> (heap \<times> data_buffer) result" where
  "db_resize h d n = bindE (db_impl h d) (\<lambda>i.
     bindE (impl_resize i (wadd (db_begin d) n)) (\<lambda>i'.
       Inr (h[the (db_data d) := i'], d\<lparr>db_end := wadd (db_begin d) n\<rparr>)))"

definition db_at :: "heap \<Rightarrow> data_buffer \<Rightarrow> nat \<Rightarrow> char result" where
  "db_at h d pos = bindE (checkIndex d (wadd (db_begin d) pos)) (\<lambda>_.
     bindE (db_impl h d) (\<lambda>i. impl_at i (wadd (db_begin d) pos)))"

definition db_find :: "heap \<Rightarrow> data_buffer \<Rightarrow> nat \<Rightarrow> string \<Rightarrow> nat result" where
  "db_find h d pos buf = bindE (checkIndex d pos) (\<lambda>_. bindE (db_impl h d) (\<lambda>i.
     bindE (impl_find i pos (db_end d) buf) (\<lambda>r. Inr (wsub r (db_begin d)))))"

definition db_trim :: "heap \<Rightarrow> data_buffer \<Rightarrow> data_buffer result" where
  "db_trim h d =
     (if db_empty d then Inr d
      else bindE (db_impl h d) (\<lambda>i. bindE (impl_trim i (db_begin d) (db_end d)) (\<lambda>res.
        Inr (d\<lparr>db_begin := fst res, db_end := snd res\<rparr>))))"

definition db_trimn :: "data_buffer \<Rightarrow> nat \<Rightarrow> nat \<Rightarrow> data_buffer" where
  "db_trimn d b e =
     (if db_empty d then d
      else (let b' = wadd (db_begin d) b in
        if b' \<ge> db_end d then d\<lparr>db_begin := db_end d\<rparr>
        else d\<lparr>db_begin := b', db_end := max (wsub (db_end d) e) b'\<rparr>))"

definition db_split :: "heap \<Rightarrow> data_buffer \<Rightarrow> string \<Rightarrow> (bool \<times> data_buffer \<times> data_buffer) result" where
  "db_split h d delim =
     (let second = db_nil\<lparr>db_data := db_data d\<rparr> in
      if db_empty d then Inr (False, d, second)
      else bindE (db_find h d (db_begin d) delim) (\<lambda>res.
        if res = db_size d then Inr (False, d, second)
        else (let first = d\<lparr>db_end := wadd (db_begin d) res\<rparr>
              in Inr (True, first,
                   second\<lparr>db_begin := wadd (db_end first) (length delim), db_end := db_end d\<rparr>))))"

definition db_split_char :: "heap \<Rightarrow> data_buffer \<Rightarrow> char \<Rightarrow> (bool \<times> data_buffer \<times> data_buffer) result" where
  "db_split_char h d delim =
     (let second = db_nil\<lparr>db_data := db_data d\<rparr> in
      if db_empty d then Inr (False, d, second)
      else bindE (db_find h d (db_begin d) [delim]) (\<lambda>res.
        if res = db_size d then Inr (False, d, second)
        else (let first = d\<lparr>db_end := wadd (db_begin d) res\<rparr>
              in Inr (True, first,
                   second\<lparr>db_begin := wadd (db_end first) 1, db_end := db_end d\<rparr>))))"

text \<open>The loop of the four comparisons; \<open>f\<close> is \<^verbatim>\<open>tolower\<close> for the case-insensitive ones.\<close>

fun starts_loop :: "(char \<Rightarrow> char) \<Rightarrow> heap \<Rightarrow> data_buffer \<Rightarrow> string \<Rightarrow> nat \<Rightarrow> bool result" where
  "starts_loop f h d [] i = Inr True"
| "starts_loop f h d (c # cs) i = bindE (db_at h d i) (\<lambda>x.
     if f c \<noteq> f x then Inr False else starts_loop f h d cs (Suc i))"

definition db_startsWith :: "heap \<Rightarrow> data_buffer \<Rightarrow> string \<Rightarrow> bool result" where
  "db_startsWith h d data =
     (if length data > db_size d then Inr False else starts_loop (\<lambda>c. c) h d data 0)"

definition db_startsWithCI :: "heap \<Rightarrow> data_buffer \<Rightarrow> string \<Rightarrow> bool result" where
  "db_startsWithCI h d data =
     (if length data > db_size d then Inr False else starts_loop tolower h d data 0)"

fun ends_loop :: "(char \<Rightarrow> char) \<Rightarrow> heap \<Rightarrow> data_buffer \<Rightarrow> string \<Rightarrow> nat \<Rightarrow> bool result" where
  "ends_loop f h d [] i = Inr True"
| "ends_loop f h d (c # cs) i = bindE (db_at h d (wsub (db_size d) i)) (\<lambda>x.
     if f c \<noteq> f x then Inr False else ends_loop f h d cs (Suc i))"

definition db_endsWith :: "heap \<Rightarrow> data_buffer \<Rightarrow> string \<Rightarrow> bool result" where
  "db_endsWith h d data =
     (if length data > db_size d then Inr False else ends_loop (\<lambda>c. c) h d (rev data) 1)"

definition db_endsWithCI :: "heap \<Rightarrow> data_buffer \<Rightarrow> string \<Rightarrow> bool result" where
  "db_endsWithCI h d data =
     (if length data > db_size d then Inr False else ends_loop tolower h d (rev data) 1)"

subsection \<open>SegmentIterator\<close>

text \<open>
  An iterator works on a copy of the storage object that shares the bytes, so the copy is the
  storage itself here; two iterators are only ever compared when one of them is the end.
\<close>

record seg_iter =
  si_buffer :: data_buffer
  si_begin :: nat
  si_end :: nat

definition si_default :: seg_iter where
  "si_default = \<lparr>si_buffer = db_nil, si_begin = 0, si_end = 0\<rparr>"

definition si_is_end :: "seg_iter \<Rightarrow> bool" where
  "si_is_end it \<longleftrightarrow> db_data (si_buffer it) = None \<and> si_begin it = 0 \<and> si_end it = 0"

definition si_first :: "heap \<Rightarrow> data_buffer \<Rightarrow> seg_iter result" where
  "si_first h d =
     (if db_empty d then Inr si_default
      else bindE (db_impl h d) (\<lambda>i. bindE (impl_segment i (db_begin d)) (\<lambda>segment.
        Inr \<lparr>si_buffer = d, si_begin = db_begin d, si_end = min (snd segment) (db_end d)\<rparr>)))"

definition si_deref :: "heap \<Rightarrow> seg_iter \<Rightarrow> (nat \<times> nat) result" where
  "si_deref h it =
     (if si_is_end it then Inr (0, 0)
      else bindE (db_impl h (si_buffer it)) (\<lambda>i. bindE (impl_chunk i (si_begin it)) (\<lambda>res.
        Inr (fst res, min (snd res) (wsub (db_end (si_buffer it)) (si_begin it))))))"

definition si_next :: "heap \<Rightarrow> seg_iter \<Rightarrow> seg_iter result" where
  "si_next h it =
     (if si_is_end it then Inr it
      else if si_end it \<ge> db_end (si_buffer it) then Inr si_default
      else bindE (db_impl h (si_buffer it)) (\<lambda>i. bindE (impl_segment i (si_end it)) (\<lambda>segment.
        Inr (it\<lparr>si_begin := si_end it, si_end := min (snd segment) (db_end (si_buffer it))\<rparr>))))"

text \<open>
  The operator after the iterator advances a copy and returns this copy, where it means to advance the iterator and to
  return what it was; the iterator, the second part of the result, stays.
\<close>

definition si_next_post :: "heap \<Rightarrow> seg_iter \<Rightarrow> (seg_iter \<times> seg_iter) result" where
  "si_next_post h it = bindE (si_next h it) (\<lambda>iter. Inr (iter, it))"

text \<open>
  The chunks a loop \<^verbatim>\<open>for (it = begin(); it != end; ++it)\<close> visits. A chunk is at least one
  byte, so that one more step than there are bytes is always enough (\<open>db_chunks_ok\<close> below).
\<close>

fun seg_walk :: "nat \<Rightarrow> heap \<Rightarrow> seg_iter \<Rightarrow> (nat \<times> nat) list result" where
  "seg_walk 0 h it = Inl Diverges"
| "seg_walk (Suc n) h it =
     (if si_is_end it then Inr []
      else bindE (si_deref h it) (\<lambda>c. bindE (si_next h it) (\<lambda>it'.
        bindE (seg_walk n h it') (\<lambda>cs. Inr (c # cs)))))"

definition db_chunks :: "heap \<Rightarrow> data_buffer \<Rightarrow> (nat \<times> nat) list result" where
  "db_chunks h d = bindE (si_first h d) (\<lambda>it. seg_walk (Suc (db_size d)) h it)"

definition chunk_bytes :: "string \<Rightarrow> nat \<times> nat \<Rightarrow> string" where
  "chunk_bytes s c = between s (fst c) (fst c + snd c)"

definition heap_bytes :: "heap \<Rightarrow> data_buffer \<Rightarrow> string" where
  "heap_bytes h d = (case db_data d of None \<Rightarrow> [] | Some a \<Rightarrow> impl_bytes (h ! a))"

definition db_toString :: "heap \<Rightarrow> data_buffer \<Rightarrow> string result" where
  "db_toString h d = bindE (db_chunks h d) (\<lambda>cs.
     Inr (fold (\<lambda>c str. str @ chunk_bytes (heap_bytes h d) c) cs []))"

section \<open>Well-formed buffers and their content\<close>

definition db_ok :: "heap \<Rightarrow> data_buffer \<Rightarrow> bool" where
  "db_ok h d = (case db_data d of
     None \<Rightarrow> db_begin d = 0 \<and> db_end d = 0
   | Some a \<Rightarrow> a < length h \<and> impl_ok (h ! a) \<and> db_begin d \<le> db_end d \<and>
       db_end d \<le> length (impl_bytes (h ! a)))"

definition content :: "heap \<Rightarrow> data_buffer \<Rightarrow> string" where
  "content h d = between (heap_bytes h d) (db_begin d) (db_end d)"

lemma db_okE:
  assumes "db_ok h d" "content h d \<noteq> []"
  obtains a where "db_data d = Some a" "a < length h" "impl_ok (h ! a)" "db_begin d < db_end d"
    "db_end d \<le> length (impl_bytes (h ! a))" "db_end d < two64" "db_impl h d = Inr (h ! a)"
    "heap_bytes h d = impl_bytes (h ! a)"
proof (cases "db_data d")
  case None
  then show ?thesis using assms by (simp add: db_ok_def content_def)
next
  case (Some a)
  have "db_begin d \<noteq> db_end d" using assms(2) by (auto simp: content_def)
  then show ?thesis
    using Some assms(1) that impl.ok_small[of "h ! a"] by (fastforce simp: db_ok_def db_impl_def heap_bytes_def)
qed

lemma db_ok_bounds:
  assumes "db_ok h d"
  shows "db_begin d \<le> db_end d" "db_end d < two64" "db_end d \<le> length (heap_bytes h d)"
  using assms impl.ok_small by (fastforce simp: db_ok_def heap_bytes_def split: option.splits)+

lemma db_size_content [simp]: "db_ok h d \<Longrightarrow> db_size d = length (content h d)"
  using db_ok_bounds[of h d] by (simp add: db_size_def content_def u64_simps)

lemma db_empty_content [simp]: "db_ok h d \<Longrightarrow> db_empty d \<longleftrightarrow> content h d = []"
proof -
  assume ok: "db_ok h d"
  have "content h d = [] \<longleftrightarrow> db_begin d = db_end d"
    using db_ok_bounds[OF ok] length_between[of "db_end d" "heap_bytes h d" "db_begin d"]
    by (auto simp: content_def simp del: length_between)
  then show ?thesis
    using ok by (auto simp: db_empty_def db_isNil_def db_ok_def)
qed

lemma db_ok_nil [simp]: "db_ok h db_nil" and content_nil [simp]: "content h db_nil = []"
  by (simp_all add: db_ok_def db_nil_def content_def heap_bytes_def)

lemma content_nth: "db_ok h d \<Longrightarrow> i < length (content h d) \<Longrightarrow> content h d ! i = heap_bytes h d ! (db_begin d + i)"
  using db_ok_bounds[of h d] by (simp add: content_def between_nth)

lemma db_create_ok:
  assumes "length data < two64" "db_create h data = (h', d)"
  shows "db_ok h' d" "content h' d = data" "h' = h @ [StringBuffer data]"
  using assms
  by (auto simp: db_create_def db_create_impl_def db_ok_def content_def heap_bytes_def impl_ok_def
      sb_ok_def impl_size_def)

section \<open>Access, searching and splitting\<close>

lemma db_at_content [simp]:
  assumes "db_ok h d" "i < length (content h d)"
  shows "db_at h d i = Inr (content h d ! i)"
proof -
  from assms have "content h d \<noteq> []" by auto
  then obtain a where a: "db_data d = Some a" "impl_ok (h ! a)" "db_end d \<le> length (impl_bytes (h ! a))"
    "db_end d < two64" "db_impl h d = Inr (h ! a)" "heap_bytes h d = impl_bytes (h ! a)"
    using db_okE[OF assms(1)] by metis
  have i: "db_begin d + i < db_end d"
    using assms db_ok_bounds[OF assms(1)] by (simp add: content_def)
  then show ?thesis
    using a content_nth[OF assms] impl.at_law[of "h ! a" "db_begin d + i"]
    by (simp add: db_at_def checkIndex_def u64_simps)
qed

lemma db_find_content:
  assumes "db_ok h d" "content h d \<noteq> []" "s \<noteq> []"
  shows "db_find h d (db_begin d) s = Inr (std_search (content h d) s)"
proof -
  obtain a where a: "impl_ok (h ! a)" "db_begin d < db_end d" "db_end d \<le> length (impl_bytes (h ! a))"
    "db_end d < two64" "db_impl h d = Inr (h ! a)" "heap_bytes h d = impl_bytes (h ! a)"
    using db_okE[OF assms(1,2)] by metis
  have le: "std_search (content h d) s \<le> db_end d - db_begin d"
    using std_search_le[of "content h d" s] a by (simp add: content_def)
  have "impl_find (h ! a) (db_begin d) (db_end d) s = Inr (db_begin d + std_search (content h d) s)"
    using impl.find_law[of "h ! a" "db_begin d" "db_end d" s] a assms(3) by (simp add: content_def)
  then show ?thesis
    using a le by (simp add: db_find_def checkIndex_def u64_simps)
qed

text \<open>Sub-views of the same storage.\<close>

lemma sub_view_ok:
  assumes "db_ok h d" "db_data d \<noteq> None" "b \<le> e" "e \<le> db_end d"
  shows "db_ok h (d\<lparr>db_begin := b, db_end := e\<rparr>)"
    "content h (d\<lparr>db_begin := b, db_end := e\<rparr>) = between (heap_bytes h d) b e"
  using assms by (auto simp: db_ok_def content_def heap_bytes_def)

lemma str_split_single: "str_split s [ch] = str_split_char s ch"
proof -
  have "drop (Suc (std_find s ch)) s = drop 1 (dropWhile (\<lambda>c. c \<noteq> ch) s)"
    by (simp add: dropWhile_eq_drop std_find_length)
  moreover have "std_find s ch < length s \<longleftrightarrow> ch \<in> set s"
    using std_find_eq_length_iff[of s ch] std_find_le[of s ch] by linarith
  ultimately show ?thesis
    by (simp add: str_split_def str_split_char_def std_search_single std_find_takeWhile)
qed

lemma db_split_char_eq: "db_split_char h d ch = db_split h d [ch]"
proof -
  have "length [ch] = 1" by simp
  then show ?thesis unfolding db_split_char_def db_split_def by metis
qed

text \<open>
  What \<^verbatim>\<open>split\<close> returns: two views of the same storage, the first one starting where the buffer
  starts, and the second one ending where it ends when the delimiter is found.
\<close>

lemma db_split_content:
  assumes "db_ok h d" "s \<noteq> []"
  shows "\<exists>f a b. db_split h d s = Inr (f, a, b) \<and> db_ok h a \<and> db_ok h b \<and>
    (f, content h a, content h b) = str_split (content h d) s \<and>
    db_data a = db_data d \<and> db_data b = db_data d \<and> db_begin a = db_begin d \<and>
    db_end a = db_begin d + std_search (content h d) s \<and>
    (f \<longrightarrow> db_begin b = db_end a + length s \<and> db_end b = db_end d)"
proof (cases "content h d = []")
  case True
  then have "db_empty d" "db_begin d = db_end d"
    using assms(1) db_ok_bounds[OF assms(1)] by (auto simp: content_def length_0_conv[symmetric] simp del: length_0_conv)
  then show ?thesis
    using assms(1) True
    by (auto simp: db_split_def Let_def str_split_def db_ok_def content_def db_nil_def split: option.splits)
next
  case False
  then obtain a where a: "db_data d = Some a" "db_begin d < db_end d" "db_end d < two64"
    using db_okE[OF assms(1)] by metis
  let ?n = "std_search (content h d) s"
  have len: "length (content h d) = db_end d - db_begin d"
    using db_ok_bounds[OF assms(1)] by (simp add: content_def)
  have le: "?n \<le> db_end d - db_begin d"
    using std_search_le[of "content h d" s] len by simp
  have ne: "\<not> db_empty d" using assms(1) False by simp
  have second: "db_ok h (db_nil\<lparr>db_data := db_data d\<rparr>)" "content h (db_nil\<lparr>db_data := db_data d\<rparr>) = []"
    using assms(1) a by (auto simp: db_ok_def content_def db_nil_def)
  show ?thesis
  proof (cases "?n = length (content h d)")
    case True
    then show ?thesis
      using ne assms db_find_content[OF assms(1) False assms(2)] second le len a
      by (auto simp: db_split_def Let_def str_split_def db_nil_def)
  next
    case found: False
    then have fits: "?n + length s \<le> db_end d - db_begin d"
      using std_search_fits[of "content h d" s] le len by linarith
    let ?a = "d\<lparr>db_begin := db_begin d, db_end := db_begin d + ?n\<rparr>"
    let ?b = "d\<lparr>db_begin := db_begin d + ?n + length s, db_end := db_end d\<rparr>"
    have va: "db_ok h ?a" "content h ?a = take ?n (content h d)"
      using sub_view_ok[OF assms(1), of "db_begin d" "db_begin d + ?n"] a le
      by (auto simp: content_def between_def min_def)
    have vb: "db_ok h ?b" "content h ?b = drop (?n + length s) (content h d)"
      using sub_view_ok[OF assms(1), of "db_begin d + ?n + length s" "db_end d"] a fits
      by (auto simp: content_def between_def drop_take add.commute add.left_commute)
    have "db_split h d s = Inr (True, ?a, ?b)"
      using ne assms(1) found db_find_content[OF assms(1) False assms(2)] fits a len
      by (simp add: db_split_def Let_def u64_simps db_nil_def)
    then show ?thesis
      using va vb found le len by (auto simp: str_split_def)
  qed
qed

lemma starts_loop_content:
  assumes "db_ok h d" "i + length s \<le> length (content h d)"
  shows "starts_loop f h d s i = Inr (map f (take (length s) (drop i (content h d))) = map f s)"
  using assms(2)
proof (induction s arbitrary: i)
  case Nil
  then show ?case by simp
next
  case (Cons c s)
  then have i: "i < length (content h d)" by simp
  then have "drop i (content h d) = content h d ! i # drop (Suc i) (content h d)"
    by (simp add: Cons_nth_drop_Suc)
  then show ?case
    using Cons.IH[of "Suc i"] Cons.prems assms(1) i by auto
qed

lemma db_startsWith_content [simp]:
  assumes "db_ok h d"
  shows "db_startsWith h d s = Inr (prefix s (content h d))"
proof (cases "length s \<le> length (content h d)")
  case True
  then have "take (length s) (content h d) = s \<longleftrightarrow> prefix s (content h d)"
    by (auto simp: prefix_def) (metis append_take_drop_id)
  then show ?thesis
    using True assms starts_loop_content[of h d 0 s "\<lambda>c. c"] by (simp add: db_startsWith_def)
next
  case False
  then show ?thesis
    using assms prefix_length_le[of s "content h d"] by (auto simp: db_startsWith_def)
qed

lemma db_startsWithCI_content [simp]:
  assumes "db_ok h d"
  shows "db_startsWithCI h d s = Inr (map tolower (take (length s) (content h d)) = map tolower s)"
proof (cases "length s \<le> length (content h d)")
  case True
  then show ?thesis
    using assms starts_loop_content[of h d 0 s tolower] by (simp add: db_startsWithCI_def)
next
  case False
  have "map tolower (take (length s) (content h d)) \<noteq> map tolower s"
  proof
    assume "map tolower (take (length s) (content h d)) = map tolower s"
    from arg_cong[OF this, of length] False show False by simp
  qed
  with False show ?thesis
    using assms by (simp add: db_startsWithCI_def)
qed

lemma ends_loop_content:
  assumes "db_ok h d" "1 \<le> i" "i + length s \<le> Suc (length (content h d))"
  shows "ends_loop f h d s i =
    Inr (map f (take (length s) (drop (i - 1) (rev (content h d)))) = map f s)"
  using assms(2,3)
proof (induction s arbitrary: i)
  case Nil
  then show ?case by simp
next
  case (Cons c s)
  let ?n = "length (content h d)"
  have i: "i \<le> ?n" using Cons.prems by simp
  have small: "?n < two64"
    using db_ok_bounds[OF assms(1)] by (simp add: content_def)
  have "drop (i - 1) (rev (content h d)) = rev (content h d) ! (i - 1) # drop i (rev (content h d))"
    using i Cons.prems Cons_nth_drop_Suc[of "i - 1" "rev (content h d)"] by simp
  moreover have "rev (content h d) ! (i - 1) = content h d ! (?n - i)"
    using i Cons.prems by (simp add: rev_nth)
  moreover have "db_at h d (wsub (db_size d) i) = Inr (content h d ! (?n - i))"
    using assms(1) i small Cons.prems by (simp add: u64_simps)
  ultimately show ?case
    using Cons.IH[of "Suc i"] Cons.prems i by auto
qed

lemma db_endsWith_content [simp]:
  assumes "db_ok h d"
  shows "db_endsWith h d s = Inr (suffix s (content h d))"
proof (cases "length s \<le> length (content h d)")
  case True
  then have "take (length s) (rev (content h d)) = rev s \<longleftrightarrow> suffix s (content h d)"
    by (simp add: suffix_drop_iff take_rev)
  then show ?thesis
    using True assms ends_loop_content[of h d 1 "rev s" "\<lambda>c. c"] by (simp add: db_endsWith_def)
next
  case False
  then show ?thesis
    using assms suffix_length_le[of s "content h d"] by (auto simp: db_endsWith_def)
qed

section \<open>Trimming\<close>

text \<open>A buffer on a storage whose \<^verbatim>\<open>trim\<close> does what it should.\<close>

definition db_in_memory :: "heap \<Rightarrow> data_buffer \<Rightarrow> bool" where
  "db_in_memory h d = (case db_data d of None \<Rightarrow> True | Some a \<Rightarrow> (\<exists>s. h ! a = StringBuffer s))"

lemma db_trim_content:
  assumes "db_ok h d" "db_in_memory h d"
  shows "\<exists>t. db_trim h d = Inr t \<and> db_ok h t \<and> content h t = str_trim (content h d) \<and>
    db_data t = db_data d \<and> db_begin d \<le> db_begin t \<and> db_end t \<le> db_end d"
proof (cases "content h d = []")
  case True
  then show ?thesis using assms by (simp add: db_trim_def str_trim_def)
next
  case False
  then obtain a where a: "db_data d = Some a" "a < length h" "impl_ok (h ! a)" "db_begin d < db_end d"
    "db_end d \<le> length (impl_bytes (h ! a))" "db_impl h d = Inr (h ! a)"
    "heap_bytes h d = impl_bytes (h ! a)"
    using db_okE[OF assms(1)] by metis
  obtain s where s: "h ! a = StringBuffer s"
    using assms(2) a(1) by (auto simp: db_in_memory_def)
  obtain b e where be: "sb_trim s (db_begin d) (db_end d) = Inr (b, e)" "db_begin d \<le> b" "b \<le> e"
    "e \<le> db_end d" "between s b e = str_trim (between s (db_begin d) (db_end d))"
    using sb.trim_law[of s "db_begin d" "db_end d"] a s by (auto simp: impl_ok_def)
  have "db_trim h d = Inr (d\<lparr>db_begin := b, db_end := e\<rparr>)"
    using assms(1) False a s be by (simp add: db_trim_def)
  then show ?thesis
    using sub_view_ok[OF assms(1) _ be(3,4)] be a s by (simp add: content_def)
qed

lemma db_trimn_content:
  assumes "db_ok h d" "e \<le> db_end d" "db_begin d + b < two64"
  shows "db_ok h (db_trimn d b e)"
    "content h (db_trimn d b e) = take (length (content h d) - b - e) (drop b (content h d))"
    "db_data (db_trimn d b e) = db_data d"
proof -
  have "db_ok h (db_trimn d b e) \<and> db_data (db_trimn d b e) = db_data d \<and>
    content h (db_trimn d b e) = take (length (content h d) - b - e) (drop b (content h d))"
  proof (cases "content h d = []")
    case True
    then show ?thesis using assms(1) by (simp add: db_trimn_def)
  next
    case False
    then obtain a where a: "db_data d = Some a" "db_begin d < db_end d" "db_end d < two64"
      using db_okE[OF assms(1)] by metis
    have len: "length (content h d) = db_end d - db_begin d"
      using db_ok_bounds[OF assms(1)] by (simp add: content_def)
    have ne: "\<not> db_empty d" using False assms(1) by simp
    show ?thesis
    proof (cases "db_begin d + b \<ge> db_end d")
      case True
      then have "db_trimn d b e = d\<lparr>db_begin := db_end d, db_end := db_end d\<rparr>"
        using ne assms(3) a by (simp add: db_trimn_def Let_def u64_simps)
      moreover have "drop b (content h d) = []"
        using True len by simp
      ultimately show ?thesis
        using sub_view_ok[OF assms(1), of "db_end d" "db_end d"] a by simp
    next
      case inside: False
      let ?b = "db_begin d + b" and ?e = "max (db_end d - e) (db_begin d + b)"
      have eq: "db_trimn d b e = d\<lparr>db_begin := ?b, db_end := ?e\<rparr>"
        using ne inside assms(2,3) a by (simp add: db_trimn_def Let_def u64_simps)
      have "?e - ?b = db_end d - db_begin d - b - e" by simp
      then have "between (heap_bytes h d) ?b ?e = take (length (content h d) - b - e) (drop b (content h d))"
        unfolding len by (simp add: content_def between_def drop_take add.commute min_def)
      then show ?thesis
        using sub_view_ok[OF assms(1), of ?b ?e] a inside unfolding eq by simp
    qed
  qed
  then show "db_ok h (db_trimn d b e)"
    "content h (db_trimn d b e) = take (length (content h d) - b - e) (drop b (content h d))"
    "db_data (db_trimn d b e) = db_data d" by auto
qed

section \<open>Chunks\<close>

text \<open>The chunks tile the range from \<open>p\<close> to \<open>e\<close>.\<close>

fun tiles :: "nat \<Rightarrow> nat \<Rightarrow> (nat \<times> nat) list \<Rightarrow> bool" where
  "tiles p e [] \<longleftrightarrow> p = e"
| "tiles p e (c # cs) \<longleftrightarrow> fst c = p \<and> 0 < snd c \<and> p + snd c \<le> e \<and> tiles (p + snd c) e cs"

lemma tiles_le: "tiles p e cs \<Longrightarrow> p \<le> e"
  by (induction cs arbitrary: p) auto

lemma tiles_bytes:
  "tiles p e cs \<Longrightarrow> fold (\<lambda>c str. str @ chunk_bytes s c) cs r = r @ between s p e"
proof (induction cs arbitrary: p r)
  case Nil
  then show ?case by simp
next
  case (Cons c cs)
  then show ?case
    using tiles_le[of "p + snd c" e cs] between_split[of p "p + snd c" e s]
    by (auto simp: chunk_bytes_def)
qed

lemma seg_walk_tiles:
  assumes "db_data d = Some a" "db_impl h d = Inr (h ! a)" "impl_ok (h ! a)"
    "db_end d \<le> length (impl_bytes (h ! a))" "db_end d < two64"
    and "p < e" "e \<le> db_end d" "db_end d - p < n"
    and "\<exists>q. impl_segment (h ! a) p = Inr (p, q) \<and> e = min q (db_end d)"
  shows "\<exists>cs. seg_walk n h \<lparr>si_buffer = d, si_begin = p, si_end = e\<rparr> = Inr cs \<and> tiles p (db_end d) cs"
  using assms(6-9)
proof (induction n arbitrary: p e)
  case 0
  then show ?case by simp
next
  case (Suc n)
  let ?it = "\<lparr>si_buffer = d, si_begin = p, si_end = e\<rparr>"
  obtain q where q: "impl_segment (h ! a) p = Inr (p, q)" "p < q" "e = min q (db_end d)"
      "impl_chunk (h ! a) p = Inr (p, min q (length (impl_bytes (h ! a))) - p)"
    using impl.segment_law[of "h ! a" p] assms(3,4) Suc.prems by fastforce
  have notend: "\<not> si_is_end ?it"
    using assms(1) by (simp add: si_is_end_def)
  have "min (min q (length (impl_bytes (h ! a))) - p) (db_end d - p) = e - p"
    using q(3) assms(4) by auto
  then have deref: "si_deref h ?it = Inr (p, e - p)"
    using notend assms(2,5) q Suc.prems by (simp add: si_deref_def u64_simps)
  show ?case
  proof (cases "e \<ge> db_end d")
    case True
    then have "e = db_end d" using Suc.prems by simp
    moreover have "seg_walk n h si_default = Inr []"
      using Suc.prems by (cases n) (auto simp: si_is_end_def si_default_def db_nil_def)
    ultimately show ?thesis
      using notend deref Suc.prems by (simp add: si_next_def)
  next
    case False
    obtain q' where q': "impl_segment (h ! a) e = Inr (e, q')" "e < q'"
      using impl.segment_law[of "h ! a" e] assms(3,4) False by fastforce
    let ?e' = "min q' (db_end d)"
    have nxt: "si_next h ?it = Inr \<lparr>si_buffer = d, si_begin = e, si_end = ?e'\<rparr>"
      using notend False assms(2) q' by (simp add: si_next_def)
    have "\<exists>cs. seg_walk n h \<lparr>si_buffer = d, si_begin = e, si_end = ?e'\<rparr> = Inr cs \<and> tiles e (db_end d) cs"
    proof (rule Suc.IH)
      show "e < ?e'" using q' False by simp
      show "?e' \<le> db_end d" by simp
      show "db_end d - e < n" using Suc.prems by linarith
      show "\<exists>q. impl_segment (h ! a) e = Inr (e, q) \<and> ?e' = min q (db_end d)" using q' by blast
    qed
    then show ?thesis
      using notend deref nxt Suc.prems by auto
  qed
qed

lemma db_chunks_ok:
  assumes "db_ok h d"
  shows "\<exists>cs. db_chunks h d = Inr cs \<and> (if content h d = [] then cs = [] else tiles (db_begin d) (db_end d) cs)"
proof (cases "content h d = []")
  case True
  then show ?thesis
    using assms by (simp add: db_chunks_def si_first_def si_is_end_def si_default_def db_nil_def)
next
  case False
  then obtain a where a: "db_data d = Some a" "impl_ok (h ! a)" "db_begin d < db_end d"
    "db_end d \<le> length (impl_bytes (h ! a))" "db_end d < two64" "db_impl h d = Inr (h ! a)"
    using db_okE[OF assms] by metis
  obtain q where q: "impl_segment (h ! a) (db_begin d) = Inr (db_begin d, q)" "db_begin d < q"
    using impl.segment_law[of "h ! a" "db_begin d"] a by fastforce
  have size: "db_size d = db_end d - db_begin d"
    using a by (simp add: db_size_def u64_simps)
  have "\<exists>cs. seg_walk (Suc (db_size d)) h \<lparr>si_buffer = d, si_begin = db_begin d, si_end = min q (db_end d)\<rparr>
      = Inr cs \<and> tiles (db_begin d) (db_end d) cs"
    by (rule seg_walk_tiles) (use a q size in auto)
  then show ?thesis
    using assms False a q by (auto simp: db_chunks_def si_first_def)
qed

lemma db_toString_content [simp]: "db_ok h d \<Longrightarrow> db_toString h d = Inr (content h d)"
  using db_chunks_ok[of h d] tiles_bytes[of "db_begin d" "db_end d" _ "heap_bytes h d" "[]"]
  by (auto simp: db_toString_def content_def split: if_splits)

section \<open>Reading, writing and resizing\<close>

lemma db_read_content:
  assumes "db_ok h d"
  shows "db_read h d pos n = Inr (take n (drop pos (content h d)))"
proof (cases "pos < length (content h d)")
  case False
  then show ?thesis
    using assms db_size_content[OF assms] by (auto simp: db_read_def db_size_def)
next
  case True
  then have "content h d \<noteq> []" by auto
  then obtain a where a: "impl_ok (h ! a)" "db_begin d < db_end d" "db_end d \<le> length (impl_bytes (h ! a))"
    "db_end d < two64" "db_impl h d = Inr (h ! a)" "heap_bytes h d = impl_bytes (h ! a)"
    using db_okE[OF assms] by metis
  have len: "length (content h d) = db_end d - db_begin d"
    using db_ok_bounds[OF assms] by (simp add: content_def)
  let ?n = "min (db_end d - db_begin d - pos) n"
  have "impl_read (h ! a) (db_begin d + pos) ?n =
      Inr (between (impl_bytes (h ! a)) (db_begin d + pos) (db_begin d + pos + ?n))"
    using impl.read_law[of "h ! a" "db_begin d + pos" ?n] a True len by simp
  moreover have "between (impl_bytes (h ! a)) (db_begin d + pos) (db_begin d + pos + ?n) =
      take n (drop pos (content h d))"
    using a len by (simp add: content_def between_def drop_take add.commute min.commute)
  ultimately show ?thesis
    using a True len by (simp add: db_read_def u64_simps add.commute)
qed

text \<open>What a write or a resize through \<open>d\<close> leaves alone: every other storage.\<close>

definition store_frame :: "data_buffer \<Rightarrow> heap \<Rightarrow> heap \<Rightarrow> bool" where
  "store_frame d h h' \<longleftrightarrow> length h' = length h \<and> (\<forall>b. db_data d \<noteq> Some b \<longrightarrow> h' ! b = h ! b)"

lemma store_frame_refl [simp]: "store_frame d h h"
  by (simp add: store_frame_def)

lemma store_frame_trans: "store_frame d h h' \<Longrightarrow> store_frame d h' h'' \<Longrightarrow> store_frame d h h''"
  by (simp add: store_frame_def)

lemma store_frame_other:
  assumes "store_frame d h h'" "db_data x \<noteq> db_data d"
  shows "db_ok h' x = db_ok h x" "content h' x = content h x"
  using assms by (auto simp: store_frame_def db_ok_def content_def heap_bytes_def split: option.splits)

lemma between_overwrite_inside:
  assumes "b \<le> e" "e \<le> length xs" "p + length s \<le> e - b"
  shows "between (overwrite xs (b + p) s) b e = overwrite (between xs b e) p s"
proof -
  have "take (b + p) xs = take b xs @ take p (drop b xs)"
    by (simp add: take_add)
  then show ?thesis
    using assms
    by (auto simp: between_def overwrite_def drop_take min_def ac_simps) (metis le_antisym add_leD1)
qed

lemma overwrite_Nil [simp]: "overwrite xs p [] = xs"
  by (simp add: overwrite_def)

lemma db_write_content:
  assumes "db_ok h d" "pos + length s \<le> length (content h d)"
  shows "\<exists>h'. db_write h d pos s = Inr (length s, h') \<and> db_ok h' d \<and>
    content h' d = overwrite (content h d) pos s \<and> store_frame d h h' \<and>
    length (heap_bytes h' d) = length (heap_bytes h d)"
proof (cases "pos < length (content h d)")
  case False
  then show ?thesis
    using assms db_size_content[OF assms(1)] by (cases s) (auto simp: db_write_def db_size_def)
next
  case True
  then have "content h d \<noteq> []" by auto
  then obtain a where a: "db_data d = Some a" "a < length h" "impl_ok (h ! a)" "db_begin d < db_end d"
    "db_end d \<le> length (impl_bytes (h ! a))" "db_end d < two64" "db_impl h d = Inr (h ! a)"
    "heap_bytes h d = impl_bytes (h ! a)"
    using db_okE[OF assms(1)] by metis
  have len: "length (content h d) = db_end d - db_begin d"
    using db_ok_bounds[OF assms(1)] by (simp add: content_def)
  have fit: "db_begin d + pos + length s \<le> length (impl_bytes (h ! a))"
    using assms(2) a len by simp
  obtain i' where i': "impl_write (h ! a) (db_begin d + pos) s = Inr i'" "impl_ok i'"
    "impl_bytes i' = overwrite (impl_bytes (h ! a)) (db_begin d + pos) s"
    using impl.write_law[OF a(3) fit] by blast
  have "min (db_end d - db_begin d - pos) (length s) = length s"
    using assms(2) len by simp
  then have "db_write h d pos s = Inr (length s, h[a := i'])"
    using a True len i' by (simp add: db_write_def u64_simps add.commute)
  moreover have "db_ok (h[a := i']) d"
    using a i' fit by (simp add: db_ok_def)
  moreover have "content (h[a := i']) d = overwrite (content h d) pos s"
    using a i' fit assms(2) len between_overwrite_inside[of "db_begin d" "db_end d" "impl_bytes (h ! a)" pos s]
    by (simp add: content_def heap_bytes_def)
  moreover have "length (heap_bytes (h[a := i']) d) = length (heap_bytes h d)"
    using a i' fit by (simp add: heap_bytes_def)
  ultimately show ?thesis
    using a by (auto simp: store_frame_def nth_list_update)
qed

lemma db_resize_content:
  assumes "db_ok h d" "db_data d = Some a" "db_begin d + n < two64" "db_end d = length (heap_bytes h d)"
  shows "\<exists>h' d'. db_resize h d n = Inr (h', d') \<and> db_ok h' d' \<and> content h' d' = vec_resize (content h d) n \<and>
    db_data d' = Some a \<and> db_begin d' = db_begin d \<and> db_end d' = length (heap_bytes h' d') \<and>
    store_frame d h h'"
proof -
  have a: "a < length h" "impl_ok (h ! a)" "db_begin d \<le> db_end d" "db_end d \<le> length (impl_bytes (h ! a))"
    "db_impl h d = Inr (h ! a)"
    using assms(1,2) by (auto simp: db_ok_def db_impl_def)
  obtain i' where i': "impl_resize (h ! a) (db_begin d + n) = Inr i'" "impl_ok i'"
    "impl_bytes i' = vec_resize (impl_bytes (h ! a)) (db_begin d + n)"
    using impl.resize_law[OF a(2) assms(3)] by blast
  have "drop (db_begin d) (vec_resize (impl_bytes (h ! a)) (db_begin d + n)) =
      vec_resize (drop (db_begin d) (impl_bytes (h ! a))) n"
    using a(3,4) by (simp add: vec_resize_def drop_take)
  then have "content (h[a := i']) (d\<lparr>db_end := db_begin d + n\<rparr>) = vec_resize (content h d) n"
    using assms(2,4) a i' by (simp add: content_def heap_bytes_def between_def)
  then show ?thesis
    using assms a i'
    by (auto simp: db_resize_def u64_simps db_ok_def heap_bytes_def store_frame_def nth_list_update)
qed

section \<open>Properties\<close>

text \<open>
  C37. Splitting a buffer at a delimiter is splitting the text it shows: both parts are views of the
  same storage, whatever storage that is.
\<close>

theorem buffer_split_refines:
  assumes "db_ok h d" "s \<noteq> []"
  shows "\<exists>f a b. db_split h d s = Inr (f, a, b) \<and> db_ok h a \<and> db_ok h b \<and>
    (f, content h a, content h b) = str_split (content h d) s \<and> db_data a = db_data d \<and> db_data b = db_data d"
  using db_split_content[OF assms] by blast

definition example_view :: data_buffer where
  "example_view = \<lparr>db_data = Some 0, db_begin = 1, db_end = 7\<rparr>"

theorem buffer_split_refines_witness:
  "\<exists>f a b. db_split [FileBuffer \<lparr>fb_name = [], fb_bytes = ''xab--cdy'', fb_window = 4\<rparr>] example_view ''--'' = Inr (f, a, b) \<and>
    (f, content [FileBuffer \<lparr>fb_name = [], fb_bytes = ''xab--cdy'', fb_window = 4\<rparr>] a) = (True, ''ab'')"
proof -
  let ?h = "[FileBuffer \<lparr>fb_name = [], fb_bytes = ''xab--cdy'', fb_window = 4\<rparr>]"
  have ok: "db_ok ?h example_view"
    by (simp add: db_ok_def example_view_def impl_ok_def fb_ok_def two64_def)
  have c: "content ?h example_view = ''ab--cd''"
    by (simp add: content_def heap_bytes_def example_view_def between_def)
  have "str_split ''ab--cd'' ''--'' = (True, ''ab'', ''cd'')" by (simp add: str_split_def)
  moreover obtain f a b where "db_split ?h example_view ''--'' = Inr (f, a, b)"
    "(f, content ?h a, content ?h b) = str_split (content ?h example_view) ''--''"
    using buffer_split_refines[OF ok, of "''--''"] by blast
  ultimately show ?thesis
    unfolding c by (intro exI[of _ f] exI[of _ a] exI[of _ b]) simp
qed

text \<open>
  Reading a buffer chunk by chunk, as every loop over a buffer does, gives the bytes it shows.
\<close>

theorem buffer_toString:
  assumes "db_ok h d"
  shows "db_toString h d = Inr (content h d)"
  using assms by simp

theorem buffer_toString_witness:
  "db_toString [FileBuffer \<lparr>fb_name = [], fb_bytes = ''xab--cdy'', fb_window = 4\<rparr>] example_view = Inr ''ab--cd''"
  using buffer_toString[of "[FileBuffer \<lparr>fb_name = [], fb_bytes = ''xab--cdy'', fb_window = 4\<rparr>]" example_view]
  by (simp add: db_ok_def example_view_def impl_ok_def fb_ok_def two64_def content_def heap_bytes_def between_def)

text \<open>
  Writing through a buffer puts the bytes at their place, is seen by every buffer on the same
  storage, and is seen by no buffer on another storage.
\<close>

theorem buffer_write_shared:
  assumes "db_ok h d" "pos + length s \<le> length (content h d)"
  shows "\<exists>h'. db_write h d pos s = Inr (length s, h') \<and> db_ok h' d \<and>
    content h' d = overwrite (content h d) pos s \<and>
    (\<forall>x. db_data x \<noteq> db_data d \<longrightarrow> content h' x = content h x) \<and>
    (\<forall>x. db_data x = db_data d \<and> db_begin x = db_begin d \<and> db_end x = db_end d \<longrightarrow>
       content h' x = overwrite (content h x) pos s)"
proof -
  obtain h' where h': "db_write h d pos s = Inr (length s, h')" "db_ok h' d"
    "content h' d = overwrite (content h d) pos s" "store_frame d h h'"
    using db_write_content[OF assms] by blast
  have same: "content k x = content k d"
    if "db_data x = db_data d \<and> db_begin x = db_begin d \<and> db_end x = db_end d" for k x
    using that by (simp add: content_def heap_bytes_def)
  have "\<forall>x. db_data x = db_data d \<and> db_begin x = db_begin d \<and> db_end x = db_end d \<longrightarrow>
       content h' x = overwrite (content h x) pos s"
    using h'(3) same[of _ h'] same[of _ h] by metis
  then show ?thesis
    using h' store_frame_other(2)[OF h'(4)] by blast
qed

theorem buffer_write_shared_witness:
  "\<exists>h'. db_write [StringBuffer ''xab--cdy'', StringBuffer ''other''] example_view 2 ''++'' = Inr (2, h') \<and>
    content h' example_view = ''ab++cd'' \<and> content h' \<lparr>db_data = Some 1, db_begin = 0, db_end = 5\<rparr> = ''other''"
proof -
  let ?h = "[StringBuffer ''xab--cdy'', StringBuffer ''other'']"
  have ok: "db_ok ?h example_view"
    by (simp add: db_ok_def example_view_def impl_ok_def sb_ok_def two64_def)
  have c: "content ?h example_view = ''ab--cd''"
    "content ?h \<lparr>db_data = Some 1, db_begin = 0, db_end = 5\<rparr> = ''other''"
    by (simp_all add: content_def heap_bytes_def example_view_def between_def)
  obtain h' where h': "db_write ?h example_view 2 ''++'' = Inr (length ''++'', h')"
    "content h' example_view = overwrite (content ?h example_view) 2 ''++''"
    "\<forall>x. db_data x \<noteq> db_data example_view \<longrightarrow> content h' x = content ?h x"
    using buffer_write_shared[OF ok, of 2 "''++''"] c(1) by auto
  have "content h' \<lparr>db_data = Some 1, db_begin = 0, db_end = 5\<rparr> = ''other''"
    using h'(3) c(2) by (simp add: example_view_def)
  then show ?thesis
    using h' c(1) by (simp add: overwrite_def)
qed

end
