(* ===== verification/Buffer_Utils.thy ===== *)
theory Buffer_Utils
  imports Data_Buffer String_Utils
begin

text \<open>
  \<^verbatim>\<open>StringUtils::urldecode(DataBuffer)\<close> and \<^verbatim>\<open>StringUtils::parse(DataBuffer)\<close>
  (\<^verbatim>\<open>library/util.cpp\<close>), the parsers of a form sent as the body of a request. On a body that is
  held in memory they compute what the parsers of a string compute. On a body in a mapped file the
  decoder works window by window and does not see an escape sequence across two windows.
\<close>

section \<open>Definitions\<close>

definition urldecode_buffer :: "heap \<Rightarrow> data_buffer \<Rightarrow> string result" where
  "urldecode_buffer h d = bindE (db_chunks h d) (\<lambda>cs.
     Inr (fold (\<lambda>c result. urldecode_onto (chunk_bytes (heap_bytes h d) c) result) cs []))"

text \<open>
  The loop over the fields of the form, mutating the vector \<^verbatim>\<open>v\<close>. Every step shortens the
  buffer, so that as many steps as there are bytes, and one to leave the loop, are enough
  (\<open>parse_buffer_values\<close> below shows that the fuel does not run out).
\<close>

fun parse_buffer_loop :: "nat \<Rightarrow> heap \<Rightarrow> data_buffer \<Rightarrow> ((string \<times> string) list, unit) st" where
  "parse_buffer_loop 0 h tmp = throwS Diverges"
| "parse_buffer_loop (Suc n) h tmp =
     (if db_empty tmp then returnS ()
      else bindS (liftS (db_split_char h tmp (CHR ''&''))) (\<lambda>(_, head, tail).
        bindS (liftS (db_split_char h head (CHR ''=''))) (\<lambda>(_, key, val).
        bindS (if \<not> db_empty key
               then bindS (liftS (urldecode_buffer h key)) (\<lambda>k.
                    bindS (liftS (urldecode_buffer h val)) (\<lambda>w. modifyS (\<lambda>v. v @ [(k, w)])))
               else returnS ())
          (\<lambda>_. parse_buffer_loop n h tail))))"

definition parse_buffer :: "heap \<Rightarrow> data_buffer \<Rightarrow> ((string \<times> string) list, unit) st" where
  "parse_buffer h data = parse_buffer_loop (Suc (db_size data)) h data"

section \<open>Bodies in memory\<close>

lemma db_chunks_in_memory:
  assumes "db_ok h d" "db_in_memory h d" "content h d \<noteq> []"
  shows "db_chunks h d = Inr [(db_begin d, db_end d - db_begin d)]"
proof -
  obtain a where a: "db_data d = Some a" "db_begin d < db_end d" "db_end d \<le> length (impl_bytes (h ! a))"
    "db_end d < two64" "db_impl h d = Inr (h ! a)" "impl_ok (h ! a)"
    using db_okE[OF assms(1,3)] by metis
  obtain s where s: "h ! a = StringBuffer s"
    using assms(2) a(1) by (auto simp: db_in_memory_def)
  have len: "length s < two64" using a(6) s by (simp add: impl_ok_def sb_ok_def)
  obtain n where n: "db_size d = Suc n"
    using assms by (cases "db_size d") auto
  have "si_first h d = Inr \<lparr>si_buffer = d, si_begin = db_begin d, si_end = db_end d\<rparr>"
    using assms a s by (simp add: si_first_def sb_segment_def min_absorb2)
  then show ?thesis
    using a s n len
    by (simp add: db_chunks_def si_is_end_def si_deref_def si_next_def sb_chunk_def si_default_def
        db_nil_def u64_simps)
qed

lemma urldecode_buffer_in_memory:
  assumes "db_ok h d" "db_in_memory h d"
  shows "urldecode_buffer h d = Inr (url_dec (content h d))"
proof (cases "content h d = []")
  case True
  then show ?thesis
    using db_chunks_ok[OF assms(1)] by (auto simp: urldecode_buffer_def)
next
  case False
  then show ?thesis
    using db_chunks_in_memory[OF assms False] db_ok_bounds[OF assms(1)]
    by (simp add: urldecode_buffer_def url_dec_def chunk_bytes_def content_def)
qed

lemma db_split_char_content:
  assumes "db_ok h d"
  obtains f a b where "db_split_char h d ch = Inr (f, a, b)" "db_ok h a" "db_ok h b"
    "(f, content h a, content h b) = str_split_char (content h d) ch"
    "db_data a = db_data d" "db_data b = db_data d"
  using db_split_content[OF assms, of "[ch]"] that by (auto simp: db_split_char_eq str_split_single)

lemma length_split_tail:
  "s \<noteq> [] \<Longrightarrow> (f, a, b) = str_split_char s ch \<Longrightarrow> length b < length s"
  using length_dropWhile_le[of "\<lambda>c. c \<noteq> ch" s] by (cases s) (auto simp: str_split_char_def)

lemma parse_buffer_loop_values:
  assumes "db_ok h tmp" "db_in_memory h tmp" "length (content h tmp) < n"
  shows "parse_buffer_loop n h tmp v = (Inr (), v @ query_values (content h tmp))"
  using assms
proof (induction n arbitrary: tmp v)
  case 0
  then show ?case by simp
next
  case (Suc n)
  show ?case
  proof (cases "content h tmp = []")
    case True
    then show ?thesis
      using Suc.prems by (simp add: monad_simps query_values_def)
  next
    case False
    obtain f hed rest where s1: "db_split_char h tmp (CHR ''&'') = Inr (f, hed, rest)" "db_ok h hed" "db_ok h rest"
      "(f, content h hed, content h rest) = str_split_char (content h tmp) (CHR ''&'')"
      "db_data hed = db_data tmp" "db_data rest = db_data tmp"
      using db_split_char_content[OF Suc.prems(1)] .
    obtain g k w where s2: "db_split_char h hed (CHR ''='') = Inr (g, k, w)" "db_ok h k" "db_ok h w"
      "(g, content h k, content h w) = str_split_char (content h hed) (CHR ''='')"
      "db_data k = db_data hed" "db_data w = db_data hed"
      using db_split_char_content[OF s1(2)] .
    have mem: "db_in_memory h k" "db_in_memory h w" "db_in_memory h rest"
      using Suc.prems(2) unfolding db_in_memory_def s1(5,6) s2(5,6) by blast+
    have "length (content h rest) < n"
      using length_split_tail[OF False s1(4)] Suc.prems(3) by simp
    then have IH: "parse_buffer_loop n h rest u = (Inr (), u @ query_values (content h rest))" for u
      using Suc.IH s1(3) mem(3) by blast
    have "query_values (content h tmp) =
        (if content h k \<noteq> [] then [(url_dec (content h k), url_dec (content h w))] else []) @
        query_values (content h rest)"
      using query_values_step[OF False s1(4)[symmetric] s2(4)[symmetric]] .
    moreover have "\<not> db_empty tmp" "db_empty k \<longleftrightarrow> content h k = []"
      "urldecode_buffer h k = Inr (url_dec (content h k))" "urldecode_buffer h w = Inr (url_dec (content h w))"
      using False Suc.prems(1) s2(2,3) mem by (simp_all add: urldecode_buffer_in_memory)
    ultimately show ?thesis
      by (simp add: s1(1) s2(1) bindS_def liftS_def modifyS_def returnS_def IH)
  qed
qed

lemma parse_buffer_values:
  assumes "db_ok h d" "db_in_memory h d"
  shows "parse_buffer h d v = (Inr (), v @ query_values (content h d))"
  unfolding parse_buffer_def by (rule parse_buffer_loop_values) (use assms in simp_all)

section \<open>Bodies in a mapped file\<close>

text \<open>A view of three bytes of which the first is the last byte of the first window.\<close>

definition across :: "nat \<Rightarrow> data_buffer" where
  "across w = \<lparr>db_data = Some 0, db_begin = w - 1, db_end = w + 2\<rparr>"

lemma across_chunks:
  assumes "2 \<le> w" "w + 2 < two64" "fb_window f = w" "w + 2 \<le> length (fb_bytes f)"
  shows "db_chunks [FileBuffer f] (across w) = Inr [(w - 1, 1), (w, 2)]"
proof -
  let ?h = "[FileBuffer f]" and ?d = "across w"
  have size: "db_size ?d = 3" "\<not> db_empty ?d"
    using assms(1,2) by (simp_all add: db_size_def db_empty_def db_isNil_def across_def wsub_small)
  have s1: "impl_segment (FileBuffer f) (w - 1) = Inr (w - 1, w)"
    and s2: "impl_segment (FileBuffer f) w = Inr (w, w + w)"
    using assms(1,3) by (simp_all add: fb_segment_def)
  have c1: "impl_chunk (FileBuffer f) (w - 1) = Inr (w - 1, 1)"
    and c2: "impl_chunk (FileBuffer f) w = Inr (w, min (w + w) (length (fb_bytes f)) - w)"
    using assms by (simp_all add: fb_chunk_def)
  have first: "si_first ?h ?d = Inr \<lparr>si_buffer = ?d, si_begin = w - 1, si_end = w\<rparr>"
    using size s1 by (simp add: si_first_def across_def db_impl_def)
  let ?i1 = "\<lparr>si_buffer = ?d, si_begin = w - 1, si_end = w\<rparr>"
  let ?i2 = "\<lparr>si_buffer = ?d, si_begin = w, si_end = w + 2\<rparr>"
  have d1: "si_deref ?h ?i1 = Inr (w - 1, 1)"
    using c1 assms(1,2) by (simp add: si_deref_def si_is_end_def across_def db_impl_def wsub_small)
  have n1: "si_next ?h ?i1 = Inr ?i2"
    using s2 assms(1) by (simp add: si_next_def si_is_end_def across_def db_impl_def)
  have d2: "si_deref ?h ?i2 = Inr (w, 2)"
    using c2 assms by (simp add: si_deref_def si_is_end_def across_def db_impl_def wsub_small)
  have n2: "si_next ?h ?i2 = Inr si_default"
    by (simp add: si_next_def si_is_end_def across_def)
  have ends: "\<not> si_is_end ?i1" "\<not> si_is_end ?i2" "si_is_end si_default"
    by (simp_all add: si_is_end_def across_def si_default_def db_nil_def)
  have "seg_walk (Suc (Suc (Suc 1))) ?h ?i1 = Inr [(w - 1, 1), (w, 2)]"
    using ends d1 n1 d2 n2 by simp
  then show ?thesis
    using size(1) first by (simp add: db_chunks_def eval_nat_numeral)
qed

section \<open>Properties\<close>

text \<open>
  A form that is held in memory is parsed into the named values that its text denotes, by the same
  rules as a query string; the loop over the body ends.
\<close>

theorem form_in_memory:
  assumes "db_ok h d" "db_in_memory h d"
  shows "parse_buffer h d v = (Inr (), parse_string (content h d) v)"
  using parse_buffer_values[OF assms] parse_range_values[of "fromString (content h d)" v]
  by (simp add: parse_string_def)

theorem form_in_memory_witness:
  "parse_buffer [StringBuffer ''a=1&b=%41''] \<lparr>db_data = Some 0, db_begin = 0, db_end = 9\<rparr> [] =
     (Inr (), parse_string ''a=1&b=%41'' [])"
  using form_in_memory[of "[StringBuffer ''a=1&b=%41'']" "\<lparr>db_data = Some 0, db_begin = 0, db_end = 9\<rparr>" "[]"]
  by (simp add: db_ok_def impl_ok_def sb_ok_def two64_def db_in_memory_def content_def heap_bytes_def between_def)

text \<open>
  An escape sequence that starts at the last byte of a window of a mapped file is not decoded: the
  text \<^verbatim>\<open>%41\<close> stays as it is, where the decoder of a string gives \<^verbatim>\<open>A\<close>.
\<close>

theorem escape_across_windows:
  assumes "2 \<le> w" "w + 2 < two64" "fb_window f = w" "w + 2 \<le> length (fb_bytes f)"
    and "content [FileBuffer f] (across w) = ''%41''"
  shows "urldecode_buffer [FileBuffer f] (across w) = Inr ''%41'' \<and>
    urldecode_string (content [FileBuffer f] (across w)) = ''A''"
proof -
  let ?b = "fb_bytes f"
  have c: "between ?b (w - 1) (w + 2) = ''%41''"
    using assms(5) by (simp add: content_def heap_bytes_def across_def)
  have "between ?b (w - 1) (w + 2) = between ?b (w - 1) w @ between ?b w (w + 2)"
    using between_split[of "w - 1" w "w + 2" ?b] by simp
  moreover have "length (between ?b (w - 1) w) = 1"
    using assms(1,4) by simp
  ultimately have "between ?b (w - 1) w = ''%''" "between ?b w (w + 2) = ''41''"
    using c by (cases "between ?b (w - 1) w"; auto)+
  moreover have "urldecode_onto ''41'' (urldecode_onto ''%'' []) = ''%41''"
    "urldecode_onto ''%41'' [] = ''A''"
    by code_simp+
  ultimately show ?thesis
    using across_chunks[OF assms(1-4)] assms(1,5)
    by (simp add: urldecode_buffer_def heap_bytes_def across_def chunk_bytes_def urldecode_string_def url_dec_def)
qed

theorem escape_across_windows_witness:
  "urldecode_buffer [FileBuffer \<lparr>fb_name = [], fb_bytes = ''a=b%41'', fb_window = 4\<rparr>] (across 4) = Inr ''%41''"
  using escape_across_windows[of 4 "\<lparr>fb_name = [], fb_bytes = ''a=b%41'', fb_window = 4\<rparr>"]
  by (simp add: two64_def content_def heap_bytes_def across_def between_def)

end
