(* ===== verification/Request_Impl.thy ===== *)
theory Request_Impl
  imports Cookies Buffer_Utils
begin

text \<open>
  \<^verbatim>\<open>RequestImpl\<close> (\<^verbatim>\<open>library/requestimpl.cpp\<close>, \<^verbatim>\<open>include/details/requestimpl.h\<close>): the state of a
  request, its getters, and the output side: status, headers, cookies, the header block that is
  sent once, and the body. The stream is the interface \<^verbatim>\<open>RequestIOStream\<close>: what is left to read,
  what has been written, and, if it is going to fail, after how many writes. Writes of two
  gigabytes and more, whose size the \<^verbatim>\<open>int\<close> parameter of the interface cannot hold, are outside the
  model.

  \<^verbatim>\<open>boost::lexical_cast\<close> is a parameter (\<open>boost\<close>).
\<close>

section \<open>State\<close>

record io_stream =
  io_input :: string
  io_output :: string
  io_writes_left :: "nat option"

definition io_write :: "string \<Rightarrow> (io_stream, unit) st" where
  "io_write s = (\<lambda>io. case io_writes_left io of
     None \<Rightarrow> (Inr (), io\<lparr>io_output := io_output io @ s\<rparr>)
   | Some 0 \<Rightarrow> (Inl (RuntimeError ''Cannot write data to fastcgi socket''), io)
   | Some (Suc n) \<Rightarrow> (Inr (), io\<lparr>io_output := io_output io @ s, io_writes_left := Some n\<rparr>))"

definition io_read :: "nat \<Rightarrow> io_stream \<Rightarrow> string \<times> io_stream" where
  "io_read n io = (take n (io_input io), io\<lparr>io_input := drop n (io_input io)\<rparr>)"

record uploaded_file =
  file_name :: string
  file_type :: string
  file_data :: data_buffer

definition File_of_buffers :: "heap \<Rightarrow> data_buffer \<Rightarrow> data_buffer \<Rightarrow> data_buffer \<Rightarrow> uploaded_file result" where
  "File_of_buffers h filename type cont =
     bindE (if \<not> db_empty type then db_toString h type else Inr []) (\<lambda>t.
     if \<not> db_empty filename
     then bindE (db_toString h filename) (\<lambda>n.
       Inr \<lparr>file_name = n, file_type = t, file_data = cont\<rparr>)
     else Inl (RuntimeError ''uploaded file without name''))"

definition File_of_strings :: "string \<Rightarrow> string \<Rightarrow> data_buffer \<Rightarrow> uploaded_file result" where
  "File_of_strings filename type cont =
     (if filename = [] then Inl (RuntimeError ''uploaded file without name'')
      else Inr \<lparr>file_name = filename, file_type = type, file_data = cont\<rparr>)"

text \<open>The interface \<^verbatim>\<open>RequestCache\<close>, as far as \<^verbatim>\<open>attach\<close> uses it.\<close>

record request_cache =
  rc_minPostSize :: nat
  rc_create :: "heap \<Rightarrow> heap \<times> data_buffer"

record request_impl =
  rq_headers_sent :: bool
  rq_status :: nat
  rq_processed :: bool
  rq_delay :: int
  rq_stream :: "io_stream option"
  rq_vars :: str_map
  rq_cookies :: str_map
  rq_body :: data_buffer
  rq_headers :: str_map
  rq_out_headers :: str_map
  rq_out_cookies :: "cookie list"
  rq_files :: "(string, uploaded_file) entries"
  rq_args :: "(string \<times> string) list"
  rq_cache :: "request_cache option"

record boost =
  lexical_cast_ushort :: "string \<Rightarrow> nat result"
  lexical_cast_streamsize :: "string \<Rightarrow> int result"
  lexical_cast_string :: "nat \<Rightarrow> string"

abbreviation var_get :: "str_map \<Rightarrow> string \<Rightarrow> string" where
  "var_get \<equiv> Parser_get (=)"

abbreviation header_get :: "str_map \<Rightarrow> string \<Rightarrow> string" where
  "header_get \<equiv> Parser_get StringCIEqual"

definition rq_reset :: "request_impl \<Rightarrow> request_impl" where
  "rq_reset r = r\<lparr>rq_status := 200, rq_stream := None, rq_headers_sent := False, rq_args := [],
     rq_vars := [], rq_files := [], rq_cookies := [], rq_headers := [], rq_out_cookies := [],
     rq_out_headers := []\<rparr>"

text \<open>The constructor leaves \<^verbatim>\<open>status_\<close>, \<^verbatim>\<open>stream_\<close> and \<^verbatim>\<open>headers_sent_\<close> to \<^verbatim>\<open>reset\<close>.\<close>

definition RequestImpl_new :: "request_cache option \<Rightarrow> request_impl" where
  "RequestImpl_new cache = rq_reset
     \<lparr>rq_headers_sent = False, rq_status = 0, rq_processed = False, rq_delay = 0, rq_stream = None,
      rq_vars = [], rq_cookies = [], rq_body = db_nil, rq_headers = [], rq_out_headers = [],
      rq_out_cookies = [], rq_files = [], rq_args = [], rq_cache = cache\<rparr>"

section \<open>Getters\<close>

definition getServerPort :: "boost \<Rightarrow> request_impl \<Rightarrow> nat result" where
  "getServerPort lib r = (let res = var_get (rq_vars r) ''SERVER_PORT'' in
     if res \<noteq> [] then lexical_cast_ushort lib res else Inr 80)"

definition getHost :: "request_impl \<Rightarrow> string" where
  "getHost r = header_get (rq_headers r) ''host''"

definition getServerAddr :: "request_impl \<Rightarrow> string" where
  "getServerAddr r = var_get (rq_vars r) ''SERVER_ADDR''"

definition getPathInfo :: "request_impl \<Rightarrow> string" where
  "getPathInfo r = var_get (rq_vars r) ''PATH_INFO''"

definition getPathTranslated :: "request_impl \<Rightarrow> string" where
  "getPathTranslated r = var_get (rq_vars r) ''PATH_TRANSLATED''"

definition getScriptName :: "request_impl \<Rightarrow> string" where
  "getScriptName r = var_get (rq_vars r) ''SCRIPT_NAME''"

definition getScriptFilename :: "request_impl \<Rightarrow> string" where
  "getScriptFilename r = var_get (rq_vars r) ''SCRIPT_FILENAME''"

definition getDocumentRoot :: "request_impl \<Rightarrow> string" where
  "getDocumentRoot r = var_get (rq_vars r) ''DOCUMENT_ROOT''"

definition getRemoteUser :: "request_impl \<Rightarrow> string" where
  "getRemoteUser r = var_get (rq_vars r) ''REMOTE_USER''"

definition getRemoteAddr :: "request_impl \<Rightarrow> string" where
  "getRemoteAddr r = var_get (rq_vars r) ''REMOTE_ADDR''"

definition getQueryString :: "request_impl \<Rightarrow> string" where
  "getQueryString r = var_get (rq_vars r) ''QUERY_STRING''"

definition getRequestMethod :: "request_impl \<Rightarrow> string" where
  "getRequestMethod r = var_get (rq_vars r) ''REQUEST_METHOD''"

definition getContentLength :: "boost \<Rightarrow> request_impl \<Rightarrow> int result" where
  "getContentLength lib r = lexical_cast_streamsize lib (header_get (rq_headers r) ''content-length'')"

definition getContentType :: "request_impl \<Rightarrow> string" where
  "getContentType r = header_get (rq_headers r) ''content-type''"

definition countArgs :: "request_impl \<Rightarrow> nat" where
  "countArgs r = length (rq_args r)"

fun find_arg :: "(string \<times> string) list \<Rightarrow> string \<Rightarrow> string option" where
  "find_arg [] nam = None"
| "find_arg (i # is) nam = (if fst i = nam then Some (snd i) else find_arg is nam)"

definition hasArg :: "request_impl \<Rightarrow> string \<Rightarrow> bool" where
  "hasArg r nam \<longleftrightarrow> find_arg (rq_args r) nam \<noteq> None"

definition getArg :: "request_impl \<Rightarrow> string \<Rightarrow> string" where
  "getArg r nam = (case find_arg (rq_args r) nam of Some v \<Rightarrow> v | None \<Rightarrow> [])"

definition getArgs :: "request_impl \<Rightarrow> string \<Rightarrow> string list" where
  "getArgs r nam = fold (\<lambda>i tmp. if fst i = nam then tmp @ [snd i] else tmp) (rq_args r) []"

definition argNames :: "request_impl \<Rightarrow> string list" where
  "argNames r = fold (\<lambda>i names. ss_insert names (fst i)) (rq_args r) []"

definition countHeaders :: "request_impl \<Rightarrow> nat" where
  "countHeaders r = length (rq_headers r)"

definition hasHeader :: "request_impl \<Rightarrow> string \<Rightarrow> bool" where
  "hasHeader r nam = Parser_has StringCIEqual (rq_headers r) nam"

definition getHeader :: "request_impl \<Rightarrow> string \<Rightarrow> string" where
  "getHeader r nam = header_get (rq_headers r) nam"

definition headerNames :: "request_impl \<Rightarrow> string list" where
  "headerNames r = Parser_keys (rq_headers r)"

definition countCookie :: "request_impl \<Rightarrow> nat" where
  "countCookie r = length (rq_cookies r)"

definition hasCookie :: "request_impl \<Rightarrow> string \<Rightarrow> bool" where
  "hasCookie r nam = Parser_has (=) (rq_cookies r) nam"

definition getCookie :: "request_impl \<Rightarrow> string \<Rightarrow> string" where
  "getCookie r nam = var_get (rq_cookies r) nam"

definition cookieNames :: "request_impl \<Rightarrow> string list" where
  "cookieNames r = Parser_keys (rq_cookies r)"

definition hasFile :: "request_impl \<Rightarrow> string \<Rightarrow> bool" where
  "hasFile r nam \<longleftrightarrow> sm_find (rq_files r) nam \<noteq> None"

definition remoteFiles :: "request_impl \<Rightarrow> string list" where
  "remoteFiles r = map fst (rq_files r)"

definition remoteFileName :: "request_impl \<Rightarrow> string \<Rightarrow> string" where
  "remoteFileName r nam = (case sm_find (rq_files r) nam of Some f \<Rightarrow> file_name f | None \<Rightarrow> [])"

definition remoteFileType :: "request_impl \<Rightarrow> string \<Rightarrow> string" where
  "remoteFileType r nam = (case sm_find (rq_files r) nam of Some f \<Rightarrow> file_type f | None \<Rightarrow> [])"

definition remoteFile :: "heap \<Rightarrow> request_impl \<Rightarrow> string \<Rightarrow> data_buffer result" where
  "remoteFile h r nam = (case sm_find (rq_files r) nam of
     Some f \<Rightarrow> Inr (file_data f) | None \<Rightarrow> db_sub h (rq_body r) 0 0)"

definition isSecure :: "request_impl \<Rightarrow> bool" where
  "isSecure r = (let val = var_get (rq_vars r) ''HTTPS'' in val \<noteq> [] \<and> val = ''on'')"

section \<open>Output\<close>

definition CRLF :: string where
  "CRLF = [CHR 0x0D, CHR 0x0A]"

text \<open>\<^verbatim>\<open>Parser::statusToString\<close>; a status that does not fit into a \<^verbatim>\<open>short\<close> is not in the table either.\<close>

definition statusToString :: "nat \<Rightarrow> string" where
  "statusToString status = (case map_of
     [(200, ''OK''), (201, ''Created''), (202, ''Accepted''), (203, ''Partial Information''),
      (204, ''No Response''), (301, ''Moved''), (302, ''Moved Temporarily''), (303, ''Method''),
      (304, ''Not Modified''), (400, ''Bad request''), (401, ''Unauthorized''),
      (402, ''PaymentRequired''), (403, ''Forbidden''), (404, ''Not found''),
      (405, ''Method not allowed''), (500, ''Internal Error''), (501, ''Not implemented''),
      (502, ''Service temporarily overloaded''), (503, ''Gateway timeout'')] status
   of Some s \<Rightarrow> s | None \<Rightarrow> ''Unknown status'')"

text \<open>\<^verbatim>\<open>Parser::normalizeOutputHeaderName\<close>: upper case after every hyphen, white space cut.\<close>

function normalize_out_loop :: "range \<Rightarrow> string \<Rightarrow> string" where
  "normalize_out_loop r res =
     (if range_begin r < range_end r then
        (case range_split_char r (CHR ''-'') of (_, head, tail) \<Rightarrow>
          (let res = (if \<not> range_empty head then res @ [toupper (range_at head 0)] else res);
               res = (if range_size head > 1 then res @ drop 1 (chars head) else res);
               r' = range_trim tail;
               res = (if \<not> range_empty r' then res @ ''-'' else res)
           in normalize_out_loop r' res))
      else res)"
  by pat_completeness auto
termination
proof (relation "measure (\<lambda>(r, res). range_end r - range_begin r)", goal_cases)
  case 1
  show ?case by simp
next
  case (2 r res a b head tail resa resb r' resc)
  have "range_end tail - range_begin tail < range_end r - range_begin r" "range_begin tail \<le> range_end tail"
    using split_char_shrinks[OF 2(1), of "CHR ''-''" a head tail] 2(2,3) by simp_all
  then show ?case
    using trim_shrinks(1)[of tail] 2(6) by simp
qed

definition normalizeOutputHeaderName :: "string \<Rightarrow> string" where
  "normalizeOutputHeaderName nam = normalize_out_loop (range_trim (fromString nam)) []"

declare normalize_out_loop.simps [simp del]

text \<open>\<^verbatim>\<open>stream_->write\<close> on the stream of the request.\<close>

definition stream_write :: "string \<Rightarrow> (request_impl, unit) st" where
  "stream_write s = (\<lambda>r. case rq_stream r of
     None \<Rightarrow> (Inl UndefinedBehaviour, r)
   | Some io \<Rightarrow> (case io_write s io of (res, io') \<Rightarrow> (res, r\<lparr>rq_stream := Some io'\<rparr>)))"

definition send_header :: "string \<times> string \<Rightarrow> (request_impl, unit) st" where
  "send_header i = bindS (stream_write (fst i)) (\<lambda>_. bindS (stream_write '': '') (\<lambda>_.
     bindS (stream_write (snd i)) (\<lambda>_. stream_write CRLF)))"

definition send_cookie :: "cookie \<Rightarrow> (request_impl, unit) st" where
  "send_cookie c = bindS (stream_write ''Set-Cookie: '') (\<lambda>_. bindS (liftS (cookie_toString c)) (\<lambda>s.
     bindS (stream_write s) (\<lambda>_. stream_write CRLF)))"

definition put_out_header :: "string \<Rightarrow> string \<Rightarrow> request_impl \<Rightarrow> request_impl" where
  "put_out_header nam val r = r\<lparr>rq_out_headers := hm_put StringCIEqual (rq_out_headers r) nam val\<rparr>"

definition sendHeadersInternal :: "(request_impl, unit) st" where
  "sendHeadersInternal = bindS getS (\<lambda>r.
     if \<not> rq_headers_sent r then
       bindS (modifyS (put_out_header ''Status''
           (show_nat (rq_status r) @ '' '' @ statusToString (rq_status r)))) (\<lambda>_.
       bindS getS (\<lambda>r.
       bindS (if rq_stream r \<noteq> None then
                bindS (foreachS send_header (rq_out_headers r)) (\<lambda>_.
                bindS (foreachS send_cookie (rq_out_cookies r)) (\<lambda>_.
                stream_write CRLF))
              else returnS ()) (\<lambda>_.
       modifyS (\<lambda>r. r\<lparr>rq_headers_sent := True\<rparr>))))
     else returnS ())"

definition sendHeaders :: "(request_impl, unit) st" where
  "sendHeaders = sendHeadersInternal"

definition setCookie :: "cookie \<Rightarrow> (request_impl, unit) st" where
  "setCookie c = bindS getS (\<lambda>r.
     if \<not> rq_headers_sent r then
       modifyS (\<lambda>r. r\<lparr>rq_out_cookies :=
         (case cset_insert (rq_out_cookies r) c of (s', inserted) \<Rightarrow>
            if inserted then s' else cset_assign s' c)\<rparr>)
     else throwS (RuntimeError (''Error in RequestImpl::setCookie: headers already sent: cookie - '' @
       [CHR 0x27] @ ck_name c @ ''='' @ ck_value c @ [CHR 0x27])))"

definition setStatus :: "boost \<Rightarrow> nat \<Rightarrow> (request_impl, unit) st" where
  "setStatus lib status = bindS getS (\<lambda>r.
     if \<not> rq_headers_sent r then modifyS (\<lambda>r. r\<lparr>rq_status := status\<rparr>)
     else throwS (RuntimeError (''Error in RequestImpl::setStatus headers already sent: status - '' @
       [CHR 0x27] @ lexical_cast_string lib status @ [CHR 0x27])))"

definition setHeader :: "string \<Rightarrow> string \<Rightarrow> (request_impl, unit) st" where
  "setHeader nam val = bindS getS (\<lambda>r.
     if \<not> rq_headers_sent r then modifyS (put_out_header (normalizeOutputHeaderName nam) val)
     else throwS (RuntimeError (''Error in RequestImpl::setCookie: headers already sent: header - '' @
       [CHR 0x27] @ nam @ '': '' @ val @ [CHR 0x27])))"

definition sendError :: "boost \<Rightarrow> nat \<Rightarrow> (request_impl, unit) st" where
  "sendError lib status = bindS getS (\<lambda>r.
     if \<not> rq_headers_sent r then
       bindS (modifyS (\<lambda>r. r\<lparr>rq_out_cookies := [], rq_out_headers := []\<rparr>)) (\<lambda>_.
       bindS (modifyS (\<lambda>r. r\<lparr>rq_status := status\<rparr>)) (\<lambda>_.
       bindS (modifyS (\<lambda>r. r\<lparr>rq_out_headers :=
         hm_insert StringCIEqual (rq_out_headers r) ''Content-type'' ''text/html''\<rparr>)) (\<lambda>_.
       bindS sendHeadersInternal (\<lambda>_.
       bindS getS (\<lambda>r.
       if rq_stream r \<noteq> None then
         bindS (stream_write ''<html><body><h1>'') (\<lambda>_.
         bindS (stream_write (lexical_cast_string lib status)) (\<lambda>_.
         bindS (stream_write '' '') (\<lambda>_.
         bindS (stream_write (statusToString status)) (\<lambda>_.
         stream_write ''</h1></body></html>''))))
       else returnS ())))))
     else throwS (RuntimeError (''Error in RequestImpl::setError headers already sent: status - '' @
       [CHR 0x27] @ lexical_cast_string lib status @ [CHR 0x27])))"

definition rq_write_buf :: "string \<Rightarrow> (request_impl, unit) st" where
  "rq_write_buf cont = bindS sendHeaders (\<lambda>_. bindS getS (\<lambda>r.
     if rq_stream r \<noteq> None \<and> ''HEAD'' \<noteq> getRequestMethod r then stream_write cont else returnS ()))"

definition rq_write :: "string \<Rightarrow> (request_impl, nat) st" where
  "rq_write buf = bindS sendHeaders (\<lambda>_. bindS getS (\<lambda>r.
     bindS (if rq_stream r \<noteq> None \<and> ''HEAD'' \<noteq> getRequestMethod r then stream_write buf else returnS ())
       (\<lambda>_. returnS (length buf))))"

definition outputHeader :: "request_impl \<Rightarrow> string \<Rightarrow> string" where
  "outputHeader r nam = header_get (rq_out_headers r) nam"

definition markAsProcessed :: "request_impl \<Rightarrow> request_impl" where
  "markAsProcessed r = r\<lparr>rq_processed := True\<rparr>"

definition tryAgain :: "int \<Rightarrow> request_impl \<Rightarrow> request_impl" where
  "tryAgain delay r = r\<lparr>rq_delay := delay\<rparr>"

section \<open>Well-formed requests\<close>

text \<open>
  The representation invariant of the containers: no two entries with equal keys, sorted maps
  and sets. Every operation keeps it.
\<close>

definition rq_wf :: "request_impl \<Rightarrow> bool" where
  "rq_wf r \<longleftrightarrow> hm_distinct (=) (rq_vars r) \<and> hm_distinct (=) (rq_cookies r) \<and>
     hm_distinct StringCIEqual (rq_headers r) \<and> hm_distinct StringCIEqual (rq_out_headers r) \<and>
     cset_sorted (rq_out_cookies r) \<and> sm_sorted (rq_files r)"

lemma rq_wf_reset [simp]: "rq_wf (rq_reset r)"
  by (simp add: rq_wf_def rq_reset_def cset_sorted_def sm_sorted_def)

lemma rq_wf_new [simp]: "rq_wf (RequestImpl_new cache)"
  by (simp add: RequestImpl_new_def)

text \<open>A stream that accepts every write, and the effect of writing to it.\<close>

definition rq_open :: "request_impl \<Rightarrow> bool" where
  "rq_open r \<longleftrightarrow> (\<exists>io. rq_stream r = Some io \<and> io_writes_left io = None)"

definition rq_emit :: "string \<Rightarrow> request_impl \<Rightarrow> request_impl" where
  "rq_emit s r = r\<lparr>rq_stream := map_option (\<lambda>io. io\<lparr>io_output := io_output io @ s\<rparr>) (rq_stream r)\<rparr>"

lemma rq_open_emit [simp]: "rq_open (rq_emit s r) = rq_open r"
  by (cases "rq_stream r") (auto simp: rq_open_def rq_emit_def)

lemma rq_open_put [simp]: "rq_open (put_out_header n v r) = rq_open r"
  by (simp add: rq_open_def put_out_header_def)

lemma rq_emit_emit [simp]: "rq_emit t (rq_emit s r) = rq_emit (s @ t) r"
  by (cases "rq_stream r") (auto simp: rq_emit_def)

lemma rq_emit_Nil [simp]: "rq_emit [] r = r"
  by (cases "rq_stream r") (auto simp: rq_emit_def)

lemma rq_emit_fields [simp]:
  "rq_out_headers (rq_emit s r) = rq_out_headers r" "rq_out_cookies (rq_emit s r) = rq_out_cookies r"
  "rq_headers_sent (rq_emit s r) = rq_headers_sent r" "rq_status (rq_emit s r) = rq_status r"
  "rq_vars (rq_emit s r) = rq_vars r"
  by (simp_all add: rq_emit_def)

lemma stream_write_open [simp]: "rq_open r \<Longrightarrow> stream_write s r = (Inr (), rq_emit s r)"
  by (auto simp: rq_open_def stream_write_def io_write_def rq_emit_def)

lemma rq_open_stream [simp]: "rq_open r \<Longrightarrow> \<exists>io. rq_stream r = Some io"
  by (auto simp: rq_open_def)

section \<open>The header block\<close>

definition header_line :: "string \<times> string \<Rightarrow> string" where
  "header_line i = fst i @ '': '' @ snd i @ CRLF"

definition cookie_text :: "cookie \<Rightarrow> string" where
  "cookie_text c = (case cookie_toString c of Inr s \<Rightarrow> s | Inl _ \<Rightarrow> [])"

definition cookie_line :: "cookie \<Rightarrow> string" where
  "cookie_line c = ''Set-Cookie: '' @ cookie_text c @ CRLF"

definition header_block :: "request_impl \<Rightarrow> string" where
  "header_block r = concat (map header_line (rq_out_headers r)) @
     concat (map cookie_line (rq_out_cookies r)) @ CRLF"

definition status_line :: "nat \<Rightarrow> string" where
  "status_line status = show_nat status @ '' '' @ statusToString status"

text \<open>No expiry date of a cookie is outside the calendar.\<close>

definition cookies_printable :: "request_impl \<Rightarrow> bool" where
  "cookies_printable r \<longleftrightarrow> (\<forall>c\<in>set (rq_out_cookies r). \<exists>s. cookie_toString c = Inr s)"

lemma send_header_open: "rq_open r \<Longrightarrow> send_header i r = (Inr (), rq_emit (header_line i) r)"
  by (simp add: send_header_def bindS_def header_line_def)

lemma send_cookie_open:
  "rq_open r \<Longrightarrow> cookie_toString c = Inr s \<Longrightarrow> send_cookie c r = (Inr (), rq_emit (cookie_line c) r)"
  by (simp add: send_cookie_def bindS_def liftS_def cookie_line_def cookie_text_def)

lemma foreach_emit:
  assumes "\<And>x r. x \<in> set xs \<Longrightarrow> rq_open r \<Longrightarrow> f x r = (Inr (), rq_emit (g x) r)" "rq_open r"
  shows "foreachS f xs r = (Inr (), rq_emit (concat (map g xs)) r)"
  using assms by (induction xs arbitrary: r) (auto simp: returnS_def bindS_def)

lemma sendHeaders_sent: "rq_headers_sent r \<Longrightarrow> sendHeadersInternal r = (Inr (), r)"
  by (simp add: sendHeadersInternal_def monad_simps)

text \<open>The headers are sent in one block, with the status, and marked as sent.\<close>

lemma sendHeaders_open:
  assumes "\<not> rq_headers_sent r" "rq_open r" "cookies_printable r"
  defines "r' \<equiv> put_out_header ''Status'' (status_line (rq_status r)) r"
  shows "sendHeadersInternal r = (Inr (), (rq_emit (header_block r') r')\<lparr>rq_headers_sent := True\<rparr>)"
proof -
  have o: "rq_open r'" and c: "rq_out_cookies r' = rq_out_cookies r"
    using assms(2) by (simp_all add: r'_def put_out_header_def rq_open_def)
  have s: "\<exists>io. rq_stream r' = Some io" using o by simp
  have h: "foreachS send_header (rq_out_headers r') r' =
      (Inr (), rq_emit (concat (map header_line (rq_out_headers r'))) r')"
    by (intro foreach_emit send_header_open o)
  have k: "foreachS send_cookie (rq_out_cookies r') x =
      (Inr (), rq_emit (concat (map cookie_line (rq_out_cookies r'))) x)" if "rq_open x" for x
    using assms(3) c that by (intro foreach_emit) (auto simp: cookies_printable_def intro: send_cookie_open)
  have st: "put_out_header ''Status'' (show_nat (rq_status r) @ '' '' @ statusToString (rq_status r)) r = r'"
    by (simp add: r'_def status_line_def)
  show ?thesis
    using assms(1) s o h k st
    by (auto simp: sendHeadersInternal_def bindS_def getS_def modifyS_def returnS_def header_block_def)
qed

lemma sendHeaders_no_stream:
  assumes "\<not> rq_headers_sent r" "rq_stream r = None"
  shows "sendHeadersInternal r =
    (Inr (), (put_out_header ''Status'' (status_line (rq_status r)) r)\<lparr>rq_headers_sent := True\<rparr>)"
  using assms by (simp add: sendHeadersInternal_def monad_simps put_out_header_def status_line_def)

section \<open>Invariants of the output operations\<close>

lemma rq_wf_stream [simp]: "rq_wf (r\<lparr>rq_stream := s\<rparr>) = rq_wf r" "rq_wf (r\<lparr>rq_headers_sent := b\<rparr>) = rq_wf r"
  "rq_wf (r\<lparr>rq_status := n\<rparr>) = rq_wf r"
  by (simp_all add: rq_wf_def)

lemma rq_wf_put_out_header [intro]: "rq_wf r \<Longrightarrow> rq_wf (put_out_header n v r)"
  by (simp add: rq_wf_def put_out_header_def header_map.distinct_put)

lemma keeps_wf_stream_write [keeps_intros]: "keeps rq_wf (stream_write s)"
  by (auto simp: keeps_def stream_write_def split: option.splits prod.splits)

lemma keeps_wf_sendHeaders [keeps_intros]: "keeps rq_wf sendHeadersInternal"
  unfolding sendHeadersInternal_def send_header_def send_cookie_def by (intro keeps_intros) auto

lemma keeps_wf_setCookie: "keeps rq_wf (setCookie c)"
proof -
  have "rq_wf r \<Longrightarrow> rq_wf (r\<lparr>rq_out_cookies := cset_replace (rq_out_cookies r) c\<rparr>)" for r
    by (simp add: rq_wf_def cset_replace_sorted)
  then show ?thesis
    unfolding setCookie_def cset_replace_def[symmetric] by (intro keeps_intros) auto
qed

lemma keeps_wf_sendError: "keeps rq_wf (sendError lib n)"
  unfolding sendError_def
  by (intro keeps_intros) (auto simp: rq_wf_def cset_sorted_def header_map.distinct_insert)

lemma keeps_wf_output:
  "keeps rq_wf (setStatus lib n)" "keeps rq_wf (setHeader k v)" "keeps rq_wf (rq_write s)" "keeps rq_wf (rq_write_buf s)"
  unfolding setStatus_def setHeader_def rq_write_def rq_write_buf_def sendHeaders_def
  by (intro keeps_intros; auto)+

text \<open>The flag that the headers have been sent is set by the last step of sending them.\<close>

lemma keeps_unsent: "keeps (\<lambda>r. \<not> rq_headers_sent r) (stream_write s)"
  "keeps (\<lambda>r. \<not> rq_headers_sent r) (send_header i)" "keeps (\<lambda>r. \<not> rq_headers_sent r) (send_cookie c)"
proof -
  show w: "keeps (\<lambda>r. \<not> rq_headers_sent r) (stream_write s)" for s
    by (auto simp: keeps_def stream_write_def split: option.splits prod.splits)
  show "keeps (\<lambda>r. \<not> rq_headers_sent r) (send_header i)" "keeps (\<lambda>r. \<not> rq_headers_sent r) (send_cookie c)"
    unfolding send_header_def send_cookie_def by (intro keeps_intros w)+
qed

lemma sendHeaders_result:
  assumes "\<not> rq_headers_sent r" "sendHeadersInternal r = (res, r')"
  shows "rq_headers_sent r' \<longleftrightarrow> (\<exists>u. res = Inr u)"
proof -
  let ?r1 = "put_out_header ''Status'' (show_nat (rq_status r) @ '' '' @ statusToString (rq_status r)) r"
  let ?send = "if rq_stream ?r1 \<noteq> None then
      bindS (foreachS send_header (rq_out_headers ?r1)) (\<lambda>_.
      bindS (foreachS send_cookie (rq_out_cookies ?r1)) (\<lambda>_. stream_write CRLF)) else returnS ()"
  have eq: "sendHeadersInternal r = bindS ?send (\<lambda>_. modifyS (\<lambda>r. r\<lparr>rq_headers_sent := True\<rparr>)) ?r1"
    using assms(1) by (simp add: sendHeadersInternal_def bindS_def getS_def modifyS_def)
  have "keeps (\<lambda>r. \<not> rq_headers_sent r) ?send"
    by (intro keeps_intros keeps_unsent)
  then have "\<not> rq_headers_sent (snd (?send ?r1))"
    by (rule keepsD) (simp add: put_out_header_def assms(1))
  then show ?thesis
    using assms(2) unfolding eq by (auto simp: bindS_def modifyS_def split: prod.splits sum.splits)
qed

section \<open>Header names\<close>

lemma tolower_toupper [simp]: "tolower (toupper c) = tolower c"
proof -
  have "\<forall>c. tolower (toupper c) = tolower c" by code_simp
  then show ?thesis by blast
qed

lemma str_trim_visible: "\<forall>c\<in>set s. \<not> isspace c \<Longrightarrow> str_trim s = s"
  by (rule str_trim_id) auto

lemma normalize_out_loop_chars:
  assumes "range_ok r" "\<forall>c\<in>set (chars r). \<not> isspace c" "chars r \<noteq> [] \<Longrightarrow> last (chars r) \<noteq> CHR ''-''"
  shows "map tolower (normalize_out_loop r res) = map tolower (res @ chars r)"
  using assms
proof (induction r res rule: normalize_out_loop.induct)
  case (1 r res)
  show ?case
  proof (cases "range_begin r < range_end r")
    case False
    then have "chars r = []" by (simp add: chars_def between_empty)
    then show ?thesis using False by (simp add: normalize_out_loop.simps[of r res])
  next
    case True
    obtain f a b where s: "range_split_char r (CHR ''-'') = (f, a, b)" using prod_cases3 by blast
    note c = range_split_char_chars[OF 1(2) s] and ok = range_split_char_ok[OF 1(2) s]
    have ne: "chars r \<noteq> []"
      using True length_chars[OF 1(2)] by (auto simp: range_size_def)
    note parts = str_split_char_decomp[OF c]
    let ?res1 = "if \<not> range_empty a then res @ [toupper (range_at a 0)] else res"
    let ?res2 = "if range_size a > 1 then ?res1 @ drop 1 (chars a) else ?res1"
    have head: "map tolower ?res2 = map tolower (res @ chars a)"
      using ok(1) range_at_chars[OF ok(1), of 0] length_chars[OF ok(1), symmetric]
      by (cases "chars a") auto
    have trim: "chars (range_trim b) = chars b" "range_ok (range_trim b)"
      using ok(2) 1(3) parts str_trim_visible[of "chars b"] by (auto split: if_splits)
    let ?res3 = "if \<not> range_empty (range_trim b) then ?res2 @ ''-'' else ?res2"
    have "f \<Longrightarrow> chars b \<noteq> []"
      using 1(4)[OF ne] parts(1) by auto
    then have sep: "map tolower ?res3 @ map tolower (chars b) = map tolower (res @ chars r)"
      using head trim parts by (auto split: if_splits)
    have vis: "\<forall>c\<in>set (chars (range_trim b)). \<not> isspace c"
      and lst: "chars (range_trim b) \<noteq> [] \<Longrightarrow> last (chars (range_trim b)) \<noteq> CHR ''-''"
      using 1(3) 1(4)[OF ne] parts trim(1) by (auto split: if_splits)
    have "map tolower (normalize_out_loop (range_trim b) ?res3) = map tolower (?res3 @ chars (range_trim b))"
      by (rule 1(1)[OF True s[symmetric] refl refl refl refl refl trim(2) vis lst])
    moreover have "normalize_out_loop r res = normalize_out_loop (range_trim b) ?res3"
      by (simp only: normalize_out_loop.simps[of r res] Let_def True if_True s prod.case)
    ultimately show ?thesis
      using sep trim(1) by (simp only: map_append)
  qed
qed

lemma normalizeOutputHeaderName_ci:
  assumes "\<forall>c\<in>set n. \<not> isspace c \<and> c \<noteq> NUL" "n \<noteq> []" "last n \<noteq> CHR ''-''"
  shows "StringCIEqual (normalizeOutputHeaderName n) n"
proof -
  have trim: "chars (range_trim (fromString n)) = n"
    using assms(1) str_trim_visible[of n] by simp
  have eq: "map tolower (normalizeOutputHeaderName n) = map tolower n"
    unfolding normalizeOutputHeaderName_def
    using normalize_out_loop_chars[of "range_trim (fromString n)" "[]"] assms trim by simp
  have nul: "takeWhile (\<lambda>c. c \<noteq> NUL) n = n"
    using assms(1) by (simp add: takeWhile_eq_all_conv)
  have "NUL \<notin> set (map tolower n)"
    using assms(1) by (metis (no_types) imageE set_map tolower_NUL_iff)
  then have "NUL \<notin> set (normalizeOutputHeaderName n)"
    unfolding eq[symmetric] by (metis (no_types) image_eqI set_map tolower_NUL_iff)
  then have "takeWhile (\<lambda>c. c \<noteq> NUL) (normalizeOutputHeaderName n) = normalizeOutputHeaderName n"
    by (subst takeWhile_eq_all_conv) auto
  moreover have "length (normalizeOutputHeaderName n) = length n"
    using arg_cong[OF eq, of length] by simp
  ultimately show ?thesis
    unfolding StringCIEqual_iff ci_key_def by (simp only: nul eq)
qed

section \<open>Properties\<close>

text \<open>
  C3. On a stream that accepts writes, the first \<^verbatim>\<open>write\<close> of a request sends the header block (the status
  and all other headers, the cookies, an empty line) and then the data, except for a \<^verbatim>\<open>HEAD\<close> request,
  which gets the header block only; every further \<^verbatim>\<open>write\<close> sends its data alone. The size of the data is
  returned in every case.
\<close>

theorem write_sends_headers_once:
  assumes "rq_open r" "cookies_printable r" "\<not> rq_headers_sent r"
  defines "r1 \<equiv> put_out_header ''Status'' (status_line (rq_status r)) r"
  defines "body \<equiv> \<lambda>s. if getRequestMethod r = ''HEAD'' then [] else s"
  shows "\<exists>r2. rq_write s r = (Inr (length s), r2) \<and> rq_headers_sent r2 \<and>
    r2 = (rq_emit (header_block r1 @ body s) r1)\<lparr>rq_headers_sent := True\<rparr> \<and>
    rq_write t r2 = (Inr (length t), rq_emit (body t) r2)"
proof -
  have o: "rq_open (r'\<lparr>rq_headers_sent := b\<rparr>) = rq_open r'" for r' b by (simp add: rq_open_def)
  have e: "rq_emit x (r'\<lparr>rq_headers_sent := b\<rparr>) = (rq_emit x r')\<lparr>rq_headers_sent := b\<rparr>" for x r' b
    by (simp add: rq_emit_def)
  have m: "getRequestMethod (r'\<lparr>rq_headers_sent := b\<rparr>) = getRequestMethod r'" "getRequestMethod (rq_emit x r') = getRequestMethod r'"
    "getRequestMethod r1 = getRequestMethod r" for x r' b
    by (simp_all add: getRequestMethod_def r1_def put_out_header_def)
  have op: "rq_open r1" using assms(1) by (simp add: r1_def)
  have stream: "\<exists>io. rq_stream x = Some io" if "rq_open x" for x :: request_impl using that by simp
  let ?h = "(rq_emit (header_block r1) r1)\<lparr>rq_headers_sent := True\<rparr>"
  let ?r2 = "(rq_emit (header_block r1 @ body s) r1)\<lparr>rq_headers_sent := True\<rparr>"
  have h: "sendHeadersInternal r = (Inr (), ?h)"
    using sendHeaders_open[OF assms(3,1,2)] by (simp add: r1_def)
  have "rq_write s r = (Inr (length s), ?r2)"
    using stream[of ?h] op
    by (simp add: rq_write_def sendHeaders_def bindS_def h getS_def returnS_def o m body_def e)
  moreover have "rq_write t ?r2 = (Inr (length t), rq_emit (body t) ?r2)"
    using stream[of ?r2] op
    by (simp add: rq_write_def sendHeaders_def bindS_def sendHeaders_sent getS_def returnS_def o m body_def)
  ultimately show ?thesis by simp
qed

definition example_request :: request_impl where
  "example_request = (RequestImpl_new None)\<lparr>rq_vars := [(''REQUEST_METHOD'', ''GET'')],
     rq_stream := Some \<lparr>io_input = [], io_output = [], io_writes_left = None\<rparr>\<rparr>"

theorem write_sends_headers_once_witness:
  "\<exists>r2. rq_write ''hello'' example_request = (Inr 5, r2) \<and> rq_headers_sent r2"
proof -
  have "rq_open example_request" "cookies_printable example_request" "\<not> rq_headers_sent example_request"
    by (simp_all add: example_request_def rq_open_def cookies_printable_def RequestImpl_new_def rq_reset_def)
  from write_sends_headers_once[OF this, of "''hello''" "[]"] show ?thesis by auto
qed

text \<open>
  Once the headers have been sent, changing the status, a header or a cookie and sending an error are
  refused with an exception that leaves the request as it is, and sending the headers again does nothing.
\<close>

theorem refused_after_headers:
  assumes "rq_headers_sent r"
  shows "(\<exists>msg. setStatus lib n r = (Inl (RuntimeError msg), r)) \<and>
    (\<exists>msg. setHeader k v r = (Inl (RuntimeError msg), r)) \<and>
    (\<exists>msg. setCookie c r = (Inl (RuntimeError msg), r)) \<and>
    (\<exists>msg. sendError lib n r = (Inl (RuntimeError msg), r)) \<and>
    sendHeaders r = (Inr (), r)"
  using assms sendHeaders_sent[OF assms]
  by (simp add: setStatus_def setHeader_def setCookie_def sendError_def sendHeaders_def bindS_def getS_def throwS_def)

theorem refused_after_headers_witness:
  "\<exists>msg. setHeader ''X'' ''1'' (example_request\<lparr>rq_headers_sent := True\<rparr>) =
     (Inl (RuntimeError msg), example_request\<lparr>rq_headers_sent := True\<rparr>)"
  using refused_after_headers[of "example_request\<lparr>rq_headers_sent := True\<rparr>"] by simp

text \<open>
  When sending the headers fails, at whatever write and for whatever reason, the request does not
  count them as sent: they are marked as sent exactly when the call succeeds.
\<close>

theorem headers_sent_iff_success:
  assumes "\<not> rq_headers_sent r" "sendHeaders r = (res, r')"
  shows "rq_headers_sent r' \<longleftrightarrow> (\<exists>u. res = Inr u)"
  using sendHeaders_result[OF assms(1)] assms(2) by (simp add: sendHeaders_def)

theorem headers_sent_iff_success_witness:
  "\<not> rq_headers_sent (snd (sendHeaders (example_request\<lparr>rq_stream :=
     Some \<lparr>io_input = [], io_output = [], io_writes_left = Some 2\<rparr>\<rparr>)))"
proof -
  let ?r = "example_request\<lparr>rq_stream := Some \<lparr>io_input = [], io_output = [], io_writes_left = Some 2\<rparr>\<rparr>"
  have "\<not> rq_headers_sent ?r"
    by (simp add: example_request_def RequestImpl_new_def rq_reset_def)
  moreover have "fst (sendHeaders ?r) = Inl (RuntimeError ''Cannot write data to fastcgi socket'')"
    by (simp add: sendHeaders_def sendHeadersInternal_def example_request_def RequestImpl_new_def rq_reset_def
        monad_simps put_out_header_def send_header_def stream_write_def io_write_def eval_nat_numeral)
  ultimately show ?thesis
    using headers_sent_iff_success[of ?r "fst (sendHeaders ?r)" "snd (sendHeaders ?r)"]
    by (metis prod.collapse sum.distinct(1))
qed

text \<open>
  A header that has been set is what \<^verbatim>\<open>outputHeader\<close> returns for its name, in any spelling of upper
  and lower case, and no other header changes.
\<close>

theorem setHeader_outputHeader:
  assumes "\<not> rq_headers_sent r" "\<forall>c\<in>set n. \<not> isspace c \<and> c \<noteq> NUL" "n \<noteq> []" "last n \<noteq> CHR ''-''"
  shows "\<exists>r'. setHeader n v r = (Inr (), r') \<and>
    (\<forall>k. outputHeader r' k = (if StringCIEqual n k then v else outputHeader r k))"
proof -
  have "StringCIEqual (normalizeOutputHeaderName n) k = StringCIEqual n k" for k
    using normalizeOutputHeaderName_ci[OF assms(2-4)] header_map.eq_sym header_map.eq_trans by blast
  then show ?thesis
    using assms(1)
    by (simp add: setHeader_def bindS_def getS_def modifyS_def put_out_header_def outputHeader_def Parser_get_def
        header_map.find_put)
qed

theorem setHeader_outputHeader_witness:
  "\<exists>r'. setHeader ''x-powered-by'' ''fcgi'' example_request = (Inr (), r') \<and>
    outputHeader r' ''X-POWERED-BY'' = ''fcgi''"
proof -
  have "\<not> rq_headers_sent example_request"
    by (simp add: example_request_def RequestImpl_new_def rq_reset_def)
  moreover have "list_all (\<lambda>c. \<not> isspace c \<and> c \<noteq> NUL) ''x-powered-by''" "StringCIEqual ''x-powered-by'' ''X-POWERED-BY''"
    by code_simp+
  ultimately show ?thesis
    using setHeader_outputHeader[of example_request "''x-powered-by''" "''fcgi''"] by (auto simp: list_all_iff)
qed

end
