(* ===== verification/Request_Parser.thy ===== *)
theory Request_Parser
  imports Request_Impl
begin

text \<open>
  \<^verbatim>\<open>Parser\<close> (\<^verbatim>\<open>library/parser.cpp\<close>): the FastCGI environment (variables, headers, cookies), the
  boundary of a multipart message, and the multipart message itself. The parsers of the environment
  cannot fail and are functions on the request; those of the multipart message read the body
  through \<^verbatim>\<open>DataBuffer\<close> and may throw. \<^verbatim>\<open>parseMultipart\<close> may also run for ever, and is a partial
  function.
\<close>

section \<open>Environment\<close>

function normalize_in_loop :: "range \<Rightarrow> string \<Rightarrow> string" where
  "normalize_in_loop tmp res =
     (if range_begin tmp < range_end tmp then
        (case range_split_char tmp (CHR ''_'') of (splitted, head, tail) \<Rightarrow>
          (let res = res @ chars head;
               res = (if splitted then res @ ''-'' else res)
           in normalize_in_loop tail res))
      else res)"
  by pat_completeness auto
termination
proof (relation "measure (\<lambda>(r, res). range_end r - range_begin r)", goal_cases)
  case 1
  show ?case by simp
next
  case (2 tmp res a b head tail resa resb)
  then show ?case
    using split_char_shrinks[OF 2(1), of "CHR ''_''" a head tail] by simp
qed

definition normalizeInputHeaderName :: "range \<Rightarrow> string" where
  "normalizeInputHeaderName r = normalize_in_loop r []"

definition addCookie :: "range \<Rightarrow> request_impl \<Rightarrow> request_impl" where
  "addCookie r req = (case range_split_char (range_trim r) (CHR ''='') of (_, head, tail) \<Rightarrow>
     if \<not> range_empty head
     then req\<lparr>rq_cookies := hm_put (=) (rq_cookies req) (urldecode head) (urldecode tail)\<rparr>
     else req)"

definition addHeader :: "range \<Rightarrow> range \<Rightarrow> request_impl \<Rightarrow> request_impl" where
  "addHeader key val req = req\<lparr>rq_headers :=
     hm_put StringCIEqual (rq_headers req) (normalizeInputHeaderName key) (range_toString val)\<rparr>"

lemma range_size_trim: "range_size (range_trim r) \<le> range_size r"
proof (cases "range_begin r \<le> range_end r")
  case True
  then show ?thesis using trim_shrinks(1)[OF True] by (simp add: range_size_def)
next
  case False
  then have "trim_begin (range_mem r) (range_begin r) (range_end r) = range_begin r"
    "trim_end (range_mem r) (range_begin r) (range_end r) = range_end r"
    by (subst trim_begin.simps trim_end.simps; simp)+
  then show ?thesis by (simp add: range_trim_def Let_def range_size_def)
qed

function parseCookies_loop :: "range \<Rightarrow> request_impl \<Rightarrow> request_impl" where
  "parseCookies_loop tmp req =
     (if range_begin tmp < range_end tmp then
        (case range_split tmp (fromChars ''; '') of (_, head, tail) \<Rightarrow>
           parseCookies_loop (range_trim tail) (addCookie head req))
      else req)"
  by pat_completeness auto
termination
proof (relation "measure (\<lambda>(r, res). range_size r)", goal_cases)
  case 1
  show ?case by simp
next
  case (2 tmp req a b head tail)
  have "range_find tmp (fromChars ''; '') \<ge> range_begin tmp"
    by (simp add: range_find_def range_find_char_def)
  then have "range_size tail < range_size tmp"
    using 2
    by (auto simp: range_split_def doSplit_def Let_def range_size_def fromChars_def mk_Range_def split: if_splits)
  then show ?case
    using range_size_trim[of tail] by simp
qed

definition parseCookies :: "range \<Rightarrow> request_impl \<Rightarrow> request_impl" where
  "parseCookies r req = parseCookies_loop (range_trim r) req"

declare normalize_in_loop.simps [simp del] parseCookies_loop.simps [simp del]

definition parse_env_entry :: "string \<Rightarrow> request_impl \<Rightarrow> request_impl" where
  "parse_env_entry e req = (case range_split_char (fromChars e) (CHR ''='') of (_, key, val) \<Rightarrow>
     if range_eq (fromChars ''HTTP_COOKIE'') key then
       addHeader (range_trimn key (int (range_size (fromChars ''HTTP_''))) 0) (range_trim val) (parseCookies val req)
     else if range_eq (fromChars ''CONTENT_TYPE'') key then
       addHeader key (range_trim val) req
     else if range_startsWith key (fromChars ''HTTP_'') then
       addHeader (range_trimn key (int (range_size (fromChars ''HTTP_''))) 0) (range_trim val) req
     else req\<lparr>rq_vars := hm_put (=) (rq_vars req) (range_toString key) (range_toString val)\<rparr>)"

text \<open>
  \<^verbatim>\<open>Parser::parse\<close>: what it does to the request, and the line that it hands to the logger for every entry, before it looks
  at it (\<^verbatim>\<open>logger->debug("env[%d] = %s", i, env[i])\<close>).
\<close>

definition parse_env :: "string list \<Rightarrow> request_impl \<Rightarrow> request_impl" where
  "parse_env env req = fold parse_env_entry env req"

definition parse_log :: "string list \<Rightarrow> string list" where
  "parse_log env = map (\<lambda>(i, e). ''env['' @ show_nat i @ ''] = '' @ e) (List.enumerate 0 env)"

definition getBoundary :: "range \<Rightarrow> string result" where
  "getBoundary r = (case range_split_char r (CHR '';'') of (_, head, tail) \<Rightarrow>
     let tail = range_trim tail in
     if strncasecmp 8 ''boundary'' (range_c_str tail) = 0 then
       (case range_split_char tail (CHR ''='') of (_, key, val) \<Rightarrow>
         let boundary = range_trim val;
             quote = fromChars [CHR 0x22]
         in if \<not> range_empty boundary \<and> range_startsWith boundary quote then
              (if range_size boundary < 2 \<or> \<not> range_endsWith boundary quote
               then Inl (RuntimeError ''incomplete boundary quotation'')
               else Inr (''--'' @ chars (range_trimn boundary 1 1)))
            else Inr (''--'' @ chars boundary))
     else Inr [])"

section \<open>Multipart messages\<close>

definition LF :: string where
  "LF = [CHR 0x0A]"

text \<open>The three buffers that \<^verbatim>\<open>parseLine\<close> sets: name, file name and type.\<close>

type_synonym part_fields = "data_buffer \<times> data_buffer \<times> data_buffer"

definition is_key :: "heap \<Rightarrow> data_buffer \<Rightarrow> string \<Rightarrow> bool result" where
  "is_key h key s = (if length s = db_size key then db_startsWith h key s else Inr False)"

definition is_key_ci :: "heap \<Rightarrow> data_buffer \<Rightarrow> string \<Rightarrow> bool result" where
  "is_key_ci h key s = (if length s = db_size key then db_startsWithCI h key s else Inr False)"

definition set_field :: "heap \<Rightarrow> data_buffer \<Rightarrow> data_buffer \<Rightarrow> part_fields \<Rightarrow> part_fields result" where
  "set_field h key val = (\<lambda>(nam, filename, type).
     bindE (is_key h key ''name'') (\<lambda>k1.
     if k1 then Inr (db_trimn val 1 1, filename, type)
     else bindE (is_key h key ''filename'') (\<lambda>k2.
     if k2 then Inr (nam, db_trimn val 1 1, type)
     else bindE (is_key_ci h key ''CONTENT_TYPE'') (\<lambda>k3.
     if k3 then bindE (db_trim h val) (\<lambda>t. Inr (nam, filename, t))
     else Inr (nam, filename, type)))))"

text \<open>
  The loops below shorten a buffer at every turn and have one turn more than the buffer has bytes;
  \<open>parseLine_total\<close> and \<open>parsePart_total\<close> of the theory \<^verbatim>\<open>Multipart\<close> show that this is enough.
\<close>

fun parseLine_loop :: "nat \<Rightarrow> heap \<Rightarrow> data_buffer \<Rightarrow> part_fields \<Rightarrow> part_fields result" where
  "parseLine_loop 0 h line fs = Inl Diverges"
| "parseLine_loop (Suc n) h line fs =
     (if db_empty line then Inr fs
      else bindE (db_split_char h line (CHR '';'')) (\<lambda>(_, head, tail).
        bindE (db_split_char h head (CHR ''='')) (\<lambda>(_, key, val).
        bindE (set_field h key val fs) (\<lambda>fs.
        bindE (db_trim h tail) (\<lambda>line. parseLine_loop n h line fs)))))"

definition parseLine :: "heap \<Rightarrow> data_buffer \<Rightarrow> part_fields \<Rightarrow> part_fields result" where
  "parseLine h line fs = parseLine_loop (Suc (db_size line)) h line fs"

definition split_line :: "heap \<Rightarrow> data_buffer \<Rightarrow> (data_buffer \<times> data_buffer) result" where
  "split_line h tail = bindE (db_split h tail CRLF) (\<lambda>(found, subline, subtail).
     if found then Inr (subline, subtail)
     else bindE (db_split_char h tail (CHR 0x0A)) (\<lambda>(_, subline, subtail). Inr (subline, subtail)))"

text \<open>A header line with its continuation lines; the result is the line and what is left.\<close>

fun unfold_line ::
  "nat \<Rightarrow> heap \<Rightarrow> data_buffer \<Rightarrow> data_buffer \<Rightarrow> data_buffer \<Rightarrow> bool \<Rightarrow> (data_buffer \<times> data_buffer) result" where
  "unfold_line 0 h part line tail lineFound = Inl Diverges"
| "unfold_line (Suc n) h part line tail lineFound =
     (if db_empty tail then Inr (line, tail)
      else bindE (split_line h tail) (\<lambda>(subline, subtail).
        bindE (db_startsWith h subline '' '') (\<lambda>sp.
        bindE (if sp then Inr True else db_startsWith h subline [CHR 0x09]) (\<lambda>cont.
        if cont then
          bindE (db_sub h part (db_begin line) (db_end subline)) (\<lambda>line.
            unfold_line n h part line subtail True)
        else if lineFound then Inr (line, tail)
        else unfold_line n h part subline subtail True))))"

fun part_headers :: "nat \<Rightarrow> heap \<Rightarrow> data_buffer \<Rightarrow> data_buffer \<Rightarrow> part_fields \<Rightarrow> part_fields result" where
  "part_headers 0 h part headers fs = Inl Diverges"
| "part_headers (Suc n) h part headers fs =
     (if db_empty headers then Inr fs
      else bindE (unfold_line (Suc (db_size headers)) h part db_nil headers False) (\<lambda>(line, tail).
        bindE (parseLine h line fs) (\<lambda>fs. part_headers n h part tail fs)))"

definition split_part :: "heap \<Rightarrow> data_buffer \<Rightarrow> (data_buffer \<times> data_buffer) result" where
  "split_part h part = bindE (db_split h part (CRLF @ CRLF)) (\<lambda>(found, headers, cont).
     if found then Inr (headers, cont)
     else bindE (db_split h part (LF @ LF)) (\<lambda>(_, headers, cont). Inr (headers, cont)))"

definition parsePart :: "heap \<Rightarrow> data_buffer \<Rightarrow> (request_impl, unit) st" where
  "parsePart h part =
     bindS (liftS (split_part h part)) (\<lambda>(headers, cont).
     bindS (liftS (part_headers (Suc (db_size headers)) h part headers (db_nil, db_nil, db_nil)))
       (\<lambda>(nam, filename, type).
     if db_empty nam then returnS ()
     else bindS (liftS (db_toString h nam)) (\<lambda>name_str.
       if \<not> db_empty filename then
         bindS (liftS (File_of_buffers h filename type cont)) (\<lambda>f.
           modifyS (\<lambda>r. r\<lparr>rq_files := sm_insert (rq_files r) name_str f\<rparr>))
       else bindS (liftS (db_toString h cont)) (\<lambda>arg.
           modifyS (\<lambda>r. r\<lparr>rq_args := rq_args r @ [(name_str, arg)]\<rparr>)))))"

definition malformed :: error where
  "malformed = RuntimeError ''malformed multipart message''"

text \<open>
  What is between two boundaries, without the line ends around it; \<open>None\<close> is the \<^verbatim>\<open>continue\<close> of
  the loop.
\<close>

definition cut_line_end :: "heap \<Rightarrow> data_buffer \<Rightarrow> data_buffer result" where
  "cut_line_end h head = bindE (db_endsWith h head CRLF) (\<lambda>rn.
     if rn then Inr (db_trimn head 0 2)
     else bindE (db_endsWith h head LF) (\<lambda>n. if n then Inr (db_trimn head 0 1) else Inl malformed))"

definition cut_line_begin :: "heap \<Rightarrow> data_buffer \<Rightarrow> data_buffer option result" where
  "cut_line_begin h head =
     bindE (if db_size head = 2 then db_startsWith h head ''--'' else Inr False) (\<lambda>minus.
     if minus then Inr None
     else bindE (db_startsWith h head CRLF) (\<lambda>rn.
       if rn then Inr (Some (db_trimn head 2 0))
       else bindE (db_startsWith h head LF) (\<lambda>n.
         if n then Inr (Some (db_trimn head 1 0)) else Inl malformed)))"

definition trim_part :: "heap \<Rightarrow> data_buffer \<Rightarrow> data_buffer option result" where
  "trim_part h head = bindE (cut_line_end h head) (cut_line_begin h)"

text \<open>The loop; a run that does not end is \<open>None\<close>.\<close>

partial_function (option) parseMultipart ::
  "heap \<Rightarrow> string \<Rightarrow> data_buffer \<Rightarrow> request_impl \<Rightarrow> (unit result \<times> request_impl) option" where
  "parseMultipart h boundary data req =
     (if db_empty data then Some (Inr (), req)
      else (case db_split h data boundary of
        Inl e \<Rightarrow> Some (Inl e, req)
      | Inr (found, head, tail) \<Rightarrow>
          (case (if found \<and> \<not> db_empty head then trim_part h head else Inr (Some head)) of
            Inl e \<Rightarrow> Some (Inl e, req)
          | Inr None \<Rightarrow> parseMultipart h boundary data req
          | Inr (Some head) \<Rightarrow>
              (case (if \<not> db_empty head then parsePart h head req else (Inr (), req)) of
                (Inl e, req') \<Rightarrow> Some (Inl e, req')
              | (Inr _, req') \<Rightarrow> parseMultipart h boundary tail req'))))"

section \<open>The environment\<close>

definition dashes :: "char \<Rightarrow> char" where
  "dashes c = (if c = CHR ''_'' then CHR ''-'' else c)"

lemma dashes_takeWhile:
  "map dashes s = takeWhile (\<lambda>c. c \<noteq> CHR ''_'') s @
     (if CHR ''_'' \<in> set s then ''-'' else []) @ map dashes (drop 1 (dropWhile (\<lambda>c. c \<noteq> CHR ''_'') s))"
  by (induction s) (auto simp: dashes_def)

lemma normalize_in_loop_chars:
  "range_ok r \<Longrightarrow> normalize_in_loop r res = res @ map dashes (chars r)"
proof (induction r res rule: normalize_in_loop.induct)
  case (1 tmp res)
  show ?case
  proof (cases "range_begin tmp < range_end tmp")
    case False
    then have "chars tmp = []" using 1(2) by (simp add: chars_def between_empty)
    then show ?thesis using False by (simp add: normalize_in_loop.simps[of tmp res])
  next
    case True
    obtain f a b where s: "range_split_char tmp (CHR ''_'') = (f, a, b)" using prod_cases3 by blast
    note c = range_split_char_chars[OF 1(2) s] and ok = range_split_char_ok[OF 1(2) s]
    have "normalize_in_loop b (if f then (res @ chars a) @ ''-'' else res @ chars a) =
        (if f then (res @ chars a) @ ''-'' else res @ chars a) @ map dashes (chars b)"
      using 1(1)[OF True s[symmetric] refl refl refl ok(2)] .
    then show ?thesis
      using True s c dashes_takeWhile[of "chars tmp"]
      by (cases f) (simp_all add: normalize_in_loop.simps[of tmp res] str_split_char_def)
  qed
qed

lemma normalizeInputHeaderName_chars: "range_ok r \<Longrightarrow> normalizeInputHeaderName r = map dashes (chars r)"
  by (simp add: normalizeInputHeaderName_def normalize_in_loop_chars)

text \<open>The name, the value and the effect of an entry \<open>NAME=value\<close> of the environment.\<close>

lemma env_entry_parts:
  assumes "CHR ''='' \<notin> set n" "NUL \<notin> set n" "NUL \<notin> set v"
  obtains f key val where "range_split_char (fromChars (n @ ''='' @ v)) (CHR ''='') = (f, key, val)"
    "range_ok key" "range_ok val" "chars key = n" "chars val = v"
proof -
  obtain f key val where s: "range_split_char (fromChars (n @ ''='' @ v)) (CHR ''='') = (f, key, val)"
    using prod_cases3 by blast
  have "takeWhile (\<lambda>c. c \<noteq> NUL) (n @ CHR ''='' # v) = n @ CHR ''='' # v"
    using assms(2,3) by (subst takeWhile_eq_all_conv) auto
  moreover have "\<forall>x\<in>set n. x \<noteq> CHR ''=''" using assms(1) by auto
  ultimately have "chars key = n" "chars val = v"
    using range_split_char_chars[OF range_ok_fromChars s] by (simp_all add: str_split_char_def)
  with s range_split_char_ok[OF range_ok_fromChars s] show ?thesis by (intro that)
qed

lemma rq_wf_addHeader: "rq_wf r \<Longrightarrow> rq_wf (addHeader k v r)"
  by (simp add: rq_wf_def addHeader_def header_map.distinct_put)

lemma rq_wf_addCookie: "rq_wf r \<Longrightarrow> rq_wf (addCookie c r)"
  by (auto simp: rq_wf_def addCookie_def var_map.distinct_put split: prod.splits)

lemma rq_wf_parseCookies_loop: "rq_wf r \<Longrightarrow> rq_wf (parseCookies_loop c r)"
proof (induction c r rule: parseCookies_loop.induct)
  case (1 tmp req)
  then show ?case
    by (subst parseCookies_loop.simps) (auto simp: rq_wf_addCookie split: prod.splits)
qed

lemma rq_wf_parse_env_entry: "rq_wf r \<Longrightarrow> rq_wf (parse_env_entry e r)"
  by (auto simp: parse_env_entry_def parseCookies_def rq_wf_addHeader rq_wf_parseCookies_loop
      split: prod.splits) (auto simp: rq_wf_def var_map.distinct_put)

lemma rq_wf_parse_env: "rq_wf r \<Longrightarrow> rq_wf (parse_env env r)"
  unfolding parse_env_def by (induction env arbitrary: r) (simp_all add: rq_wf_parse_env_entry)

lemma header_entry:
  assumes "CHR ''='' \<notin> set n" "NUL \<notin> set n" "NUL \<notin> set v" "n \<noteq> ''COOKIE''"
  shows "parse_env_entry (''HTTP_'' @ n @ ''='' @ v) r =
    r\<lparr>rq_headers := hm_put StringCIEqual (rq_headers r) (map dashes n) (str_trim v)\<rparr>"
proof -
  obtain f key val where s: "range_split_char (fromChars ((''HTTP_'' @ n) @ ''='' @ v)) (CHR ''='') = (f, key, val)"
    "range_ok key" "range_ok val" "chars key = ''HTTP_'' @ n" "chars val = v"
    by (rule env_entry_parts[of "''HTTP_'' @ n" v]) (use assms in auto)
  have len: "range_size key = 5 + length n"
    using s(4) length_chars[OF s(2)] by simp
  have "\<not> range_eq (fromChars ''HTTP_COOKIE'') key" "\<not> range_eq (fromChars ''CONTENT_TYPE'') key"
    "range_startsWith key (fromChars ''HTTP_'')"
    using s(2,4) assms(4) by simp_all
  moreover have "range_ok (range_trimn key 5 0)" "chars (range_trimn key 5 0) = n"
    using s(2,4) len by simp_all
  moreover have "int (range_size (fromChars ''HTTP_'')) = 5"
    by (simp add: fromChars_def range_size_def)
  ultimately show ?thesis
    using s(1,3,5)
    by (simp add: parse_env_entry_def addHeader_def normalizeInputHeaderName_chars range_toString_def)
qed

lemma variable_entry:
  assumes "CHR ''='' \<notin> set n" "NUL \<notin> set n" "NUL \<notin> set v" "\<not> prefix ''HTTP_'' n" "n \<noteq> ''CONTENT_TYPE''"
  shows "parse_env_entry (n @ ''='' @ v) r = r\<lparr>rq_vars := hm_put (=) (rq_vars r) n v\<rparr>"
proof -
  obtain f key val where s: "range_split_char (fromChars (n @ ''='' @ v)) (CHR ''='') = (f, key, val)"
    "range_ok key" "range_ok val" "chars key = n" "chars val = v"
    by (rule env_entry_parts[OF assms(1-3)])
  have "n \<noteq> ''HTTP_COOKIE''" using assms(4) by auto
  then show ?thesis
    using s assms(4,5) by (simp add: parse_env_entry_def range_toString_def eq_commute[of _ n])
qed

section \<open>Cookies\<close>

text \<open>The value of a header \<^verbatim>\<open>Cookie\<close>: the cookies, encoded, with a semicolon and a blank between.\<close>

fun format_cookies :: "(string \<times> string) list \<Rightarrow> string" where
  "format_cookies [] = []"
| "format_cookies [kv] = format_value kv"
| "format_cookies (kv # kvs) = format_value kv @ ''; '' @ format_cookies kvs"

definition put_cookie :: "string \<times> string \<Rightarrow> request_impl \<Rightarrow> request_impl" where
  "put_cookie kv r = r\<lparr>rq_cookies := hm_put (=) (rq_cookies r) (fst kv) (snd kv)\<rparr>"

lemma format_value_visible: "c \<in> set (format_value kv) \<Longrightarrow> \<not> isspace c \<and> c \<noteq> CHR '';''"
  using url_enc_visible url_enc_safe[of c "fst kv"] url_enc_safe[of c "snd kv"]
  by (auto simp: format_value_enc isspace_def)

lemma format_value_ne [simp]: "format_value kv \<noteq> []"
  by (simp add: format_value_enc)

lemma format_cookies_ends:
  "kvs \<noteq> [] \<Longrightarrow> format_cookies kvs \<noteq> [] \<and> \<not> isspace (hd (format_cookies kvs)) \<and> \<not> isspace (last (format_cookies kvs))"
proof (induction kvs rule: format_cookies.induct)
  case (2 kv)
  then show ?case using format_value_visible[of _ kv] by simp
next
  case (3 kv kv' kvs)
  then show ?case using format_value_visible[of _ kv] by (simp add: hd_append)
qed simp

lemma str_trim_format_cookies [simp]: "str_trim (format_cookies kvs) = format_cookies kvs"
  by (cases "kvs = []") (simp_all add: str_trim_id format_cookies_ends)

lemma addCookie_format:
  assumes "range_ok r" "chars r = format_value kv" "fst kv \<noteq> []"
  shows "addCookie r req = put_cookie kv req"
proof -
  have trim: "chars (range_trim r) = url_enc (fst kv) @ CHR ''='' # url_enc (snd kv)"
    using assms(1,2) str_trim_format_cookies[of "[kv]"] by (simp add: format_value_enc)
  obtain f head tail where s: "range_split_char (range_trim r) (CHR ''='') = (f, head, tail)"
    using prod_cases3 by blast
  have ok: "range_ok (range_trim r)" using assms(1) by simp
  have "CHR ''='' \<notin> set (url_enc (fst kv))" using url_enc_safe[of "CHR ''=''"] by auto
  then have c: "chars head = url_enc (fst kv)" "chars tail = url_enc (snd kv)"
    using range_split_char_chars[OF ok s] by (simp_all add: trim str_split_char_found)
  have "range_ok head" using range_split_char_ok[OF ok s] by simp
  then show ?thesis
    using s c assms(3) url_dec_enc[of "fst kv" "[]"] url_dec_enc[of "snd kv" "[]"]
    by (simp add: addCookie_def put_cookie_def)
qed

lemma parseCookies_loop_format:
  assumes "range_ok r" "chars r = format_cookies kvs" "\<forall>kv\<in>set kvs. fst kv \<noteq> []"
  shows "parseCookies_loop r req = fold put_cookie kvs req"
  using assms
proof (induction kvs arbitrary: r req)
  case Nil
  then have "\<not> range_begin r < range_end r"
    using length_chars[of r] by (simp add: range_size_def range_ok_def)
  then show ?case by (simp add: parseCookies_loop.simps)
next
  case (Cons kv kvs)
  have ne: "range_begin r < range_end r"
    using Cons.prems format_cookies_ends[of "kv # kvs"]
    by (metis length_chars length_greater_0_conv list.distinct(1) range_size_def zero_less_diff)
  obtain f head tail where s: "range_split r (fromChars ''; '') = (f, head, tail)"
    using prod_cases3 by blast
  have sep: "CHR '';'' \<notin> set (format_value kv)" using format_value_visible[of _ kv] by blast
  have "str_split (chars r) ''; '' = (kvs \<noteq> [], format_value kv, format_cookies kvs)"
  proof (cases kvs)
    case Nil
    then show ?thesis using Cons.prems(2) sep by (simp add: str_split_absent)
  next
    case (Cons kv' kvs')
    then have "chars r = format_value kv @ ''; '' @ format_cookies kvs" using Cons.prems(2) by simp
    then show ?thesis
      using Cons str_split_found[of "''; ''" "format_value kv"] std_search_first[of "''; ''" "format_value kv"] sep
      by simp
  qed
  then have c: "chars head = format_value kv" "chars tail = format_cookies kvs"
    using range_split_chars[OF Cons.prems(1) range_ok_fromChars s] by simp_all
  have ok: "range_ok head" "range_ok tail" using range_split_ok[OF Cons.prems(1) range_ok_fromChars s] by simp_all
  have "parseCookies_loop (range_trim tail) (addCookie head req) = fold put_cookie kvs (addCookie head req)"
    using ok(2) c(2) Cons.prems(3) by (intro Cons.IH) simp_all
  then show ?case
    using ne s addCookie_format[OF ok(1) c(1)] Cons.prems(3) by (subst parseCookies_loop.simps) simp
qed

lemma parseCookies_format:
  assumes "range_ok r" "chars r = format_cookies kvs" "\<forall>kv\<in>set kvs. fst kv \<noteq> []"
  shows "parseCookies r req = fold put_cookie kvs req"
  unfolding parseCookies_def using assms by (intro parseCookies_loop_format) simp_all

section \<open>Properties\<close>

text \<open>
  A FastCGI parameter \<^verbatim>\<open>HTTP_A_B=value\<close> becomes the header \<^verbatim>\<open>A-B\<close> with the trimmed value, which
  \<^verbatim>\<open>getHeader\<close> returns for every spelling of the name; all other headers, and the variables and
  cookies, are as before.
\<close>

theorem header_parameter:
  assumes "CHR ''='' \<notin> set n" "NUL \<notin> set n" "NUL \<notin> set v" "n \<noteq> ''COOKIE''"
    and "r' = parse_env_entry (''HTTP_'' @ n @ ''='' @ v) r"
  shows "getHeader r' k = (if StringCIEqual (map dashes n) k then str_trim v else getHeader r k) \<and>
    rq_vars r' = rq_vars r \<and> rq_cookies r' = rq_cookies r"
  unfolding assms(5) header_entry[OF assms(1-4)] by (simp add: getHeader_def Parser_get_def header_map.find_put)

theorem header_parameter_witness:
  "getHeader (parse_env_entry (''HTTP_'' @ ''USER_AGENT'' @ ''='' @ '' x '') (RequestImpl_new None)) ''user-agent'' =
     str_trim '' x ''"
proof -
  have "StringCIEqual (map dashes ''USER_AGENT'') ''user-agent''" by code_simp
  then show ?thesis
    using header_parameter[of "''USER_AGENT''" "'' x ''" _ "RequestImpl_new None" "''user-agent''"] by simp
qed

text \<open>
  C39. A cookie header with url-encoded cookies is parsed into these cookies: each one can be asked for by
  its name, and the last of several cookies with the same name wins.
\<close>

theorem cookies_roundtrip:
  assumes "\<forall>kv\<in>set kvs. fst kv \<noteq> []"
  shows "getCookie (parseCookies (fromString (format_cookies kvs)) r) k =
    (case map_of (rev kvs) k of Some v \<Rightarrow> v | None \<Rightarrow> getCookie r k)"
proof -
  have "hm_find (=) (rq_cookies (fold put_cookie kvs r)) k =
      (case map_of (rev kvs) k of Some v \<Rightarrow> Some v | None \<Rightarrow> hm_find (=) (rq_cookies r) k)" for r
    by (induction kvs arbitrary: r)
       (auto simp: put_cookie_def var_map.find_put map_add_def split: option.splits)
  then show ?thesis
    using parseCookies_format[of "fromString (format_cookies kvs)" kvs r] assms
    by (auto simp: getCookie_def Parser_get_def split: option.splits)
qed

theorem cookies_roundtrip_witness:
  "getCookie (parseCookies (fromString (format_cookies [(''a'', ''1; 2''), (''b'', ''3'')])) (RequestImpl_new None)) ''a'' = ''1; 2''"
  using cookies_roundtrip[of "[(''a'', ''1; 2''), (''b'', ''3'')]" "RequestImpl_new None" "''a''"] by simp

text \<open>
  Whatever the FastCGI parameters are, the request they are parsed into is well formed: every
  variable, cookie and header has one entry, header names compared without regard to case.
\<close>

theorem parse_env_wf: "rq_wf r \<longrightarrow> rq_wf (parse_env env r)"
  using rq_wf_parse_env by blast

theorem parse_env_wf_witness:
  "rq_wf (parse_env [''HTTP_HOST=a'', ''HTTP_Host=b'', ''X=1''] (RequestImpl_new None))"
  using parse_env_wf[of "RequestImpl_new None"] by simp

end
