(* ===== verification/Multipart.thy ===== *)
theory Multipart
  imports Request_Parser
begin

text \<open>
  What \<^verbatim>\<open>Parser::parseMultipart\<close> does. A message made of form fields is parsed into exactly those
  fields (\<open>parseMultipart_message\<close>). The loop ends on every message in which no closing delimiter is
  followed by a boundary (\<open>parseMultipart_ends\<close>), and it runs for ever on a message in which one is
  (\<open>parseMultipart_loops\<close>): the \<^verbatim>\<open>continue\<close> of the loop does not move on. A part in memory is parsed whatever
  its headers are (\<open>parsePart_total\<close>), so that the only error is the exception for a malformed message.
\<close>

section \<open>Steps of the loop\<close>

lemma CRLF_facts [simp]: "CRLF \<noteq> []" "length CRLF = 2" "hd CRLF = CHR 0x0D"
  and LF_facts [simp]: "LF \<noteq> []" "length LF = 1" "hd LF = CHR 0x0A"
  by (simp_all add: CRLF_def LF_def)

text \<open>The line ends around a part are cut.\<close>

definition str_cut_begin :: "string \<Rightarrow> string option option" where
  "str_cut_begin b = (if b = ''--'' then Some None
     else if prefix CRLF b then Some (Some (drop 2 b))
     else if prefix LF b then Some (Some (drop 1 b)) else None)"

definition str_trim_part :: "string \<Rightarrow> string option option" where
  "str_trim_part s =
     (let body = (if suffix CRLF s then Some (take (length s - 2) s)
                  else if suffix LF s then Some (take (length s - 1) s) else None)
      in case body of None \<Rightarrow> None
       | Some b \<Rightarrow> str_cut_begin b)"

lemma db_trimn_parts:
  assumes "db_ok h d"
  shows "n \<le> length (content h d) \<Longrightarrow> db_ok h (db_trimn d 0 n) \<and> content h (db_trimn d 0 n) = take (length (content h d) - n) (content h d)"
    and "n \<le> length (content h d) \<Longrightarrow> db_ok h (db_trimn d n 0) \<and> content h (db_trimn d n 0) = drop n (content h d)"
proof -
  have len: "length (content h d) = db_end d - db_begin d" "db_begin d \<le> db_end d" "db_end d < two64"
    using db_ok_bounds[OF assms] by (simp_all add: content_def)
  show "n \<le> length (content h d) \<Longrightarrow> db_ok h (db_trimn d 0 n) \<and> content h (db_trimn d 0 n) = take (length (content h d) - n) (content h d)"
    using db_trimn_content[OF assms, of n 0] len by simp
  show "n \<le> length (content h d) \<Longrightarrow> db_ok h (db_trimn d n 0) \<and> content h (db_trimn d n 0) = drop n (content h d)"
    using db_trimn_content[OF assms, of 0 n] len by simp
qed

lemma db_trimn_data [simp]: "db_data (db_trimn d b e) = db_data d"
  by (simp add: db_trimn_def Let_def)

lemma cut_line_end_content:
  assumes "db_ok h d"
  shows "(\<exists>d'. cut_line_end h d = Inr d' \<and> db_ok h d' \<and> db_data d' = db_data d \<and>
      (if suffix CRLF (content h d) then content h d' = take (length (content h d) - 2) (content h d)
       else suffix LF (content h d) \<and> content h d' = take (length (content h d) - 1) (content h d))) \<or>
    (cut_line_end h d = Inl malformed \<and> \<not> suffix CRLF (content h d) \<and> \<not> suffix LF (content h d))"
  using assms suffix_length_le[of CRLF "content h d"] suffix_length_le[of LF "content h d"]
    db_trimn_parts(1)[OF assms(1), of 2] db_trimn_parts(1)[OF assms(1), of 1]
  by (auto simp: cut_line_end_def)

lemma two_dashes: "length s = 2 \<and> prefix ''--'' s \<longleftrightarrow> s = ''--''"
  by (auto simp: prefix_def)

lemma cut_line_begin_content:
  assumes "db_ok h d"
  shows "case str_cut_begin (content h d) of
      None \<Rightarrow> cut_line_begin h d = Inl malformed
    | Some None \<Rightarrow> cut_line_begin h d = Inr None
    | Some (Some s) \<Rightarrow> (\<exists>d'. cut_line_begin h d = Inr (Some d') \<and> db_ok h d' \<and> content h d' = s \<and> db_data d' = db_data d)"
proof -
  have b: "(if db_size d = 2 then db_startsWith h d ''--'' else Inr False) = Inr (content h d = ''--'')"
    using assms(1) two_dashes[of "content h d"] by auto
  show ?thesis
    unfolding cut_line_begin_def b
    using assms(1) prefix_length_le[of CRLF "content h d"] prefix_length_le[of LF "content h d"]
      db_trimn_parts(2)[OF assms(1), of 2] db_trimn_parts(2)[OF assms(1), of 1]
    by (auto simp: str_cut_begin_def)
qed

lemma trim_part_content:
  assumes "db_ok h d"
  shows "case str_trim_part (content h d) of
      None \<Rightarrow> trim_part h d = Inl malformed
    | Some None \<Rightarrow> trim_part h d = Inr None
    | Some (Some s) \<Rightarrow> (\<exists>d'. trim_part h d = Inr (Some d') \<and> db_ok h d' \<and> content h d' = s \<and> db_data d' = db_data d)"
  using cut_line_end_content[OF assms]
proof (elim disjE exE conjE, goal_cases)
  case (1 d')
  then have "trim_part h d = cut_line_begin h d'" "str_trim_part (content h d) = str_cut_begin (content h d')"
    by (simp_all add: trim_part_def str_trim_part_def split: if_splits)
  then show ?case
    using cut_line_begin_content[OF 1(2)] 1(3) by (simp split: option.splits)
next
  case 2
  then show ?case by (simp add: trim_part_def str_trim_part_def)
qed

section \<open>The loop that does not end\<close>

lemma parseMultipart_continue_None:
  assumes "\<not> db_empty data" "db_split h data boundary = Inr (True, head, tail)" "\<not> db_empty head"
    "trim_part h head = Inr None"
  shows "parseMultipart h boundary data req = None"
proof (rule ccontr)
  assume "parseMultipart h boundary data req \<noteq> None"
  then obtain y where "parseMultipart h boundary data req = Some y" by blast
  then have "\<forall>head tail. \<not> (\<not> db_empty data \<and> db_split h data boundary = Inr (True, head, tail) \<and>
      \<not> db_empty head \<and> trim_part h head = Inr None)"
    by (rule parseMultipart.raw_induct[rotated]) (auto split: if_splits, blast)
  then show False using assms by blast
qed

lemma prefix_Cons_iff: "prefix (a # p) (b # s) \<longleftrightarrow> a = b \<and> prefix p s"
  by auto

lemma search_closing:
  assumes "b \<noteq> []" "hd b \<noteq> CHR 0x0D"
  shows "std_search (''--'' @ CRLF @ (''--'' @ b) @ rest) (''--'' @ b) = 4"
  using assms by (cases b) (simp_all add: CRLF_def)

lemma parseMultipart_loops:
  assumes "db_ok h data" "b \<noteq> []" "hd b \<noteq> CHR 0x0D"
    and "content h data = (''--'' @ b) @ ''--'' @ CRLF @ (''--'' @ b) @ rest"
  shows "parseMultipart h (''--'' @ b) data req = None"
proof -
  let ?B = "''--'' @ b" and ?t = "''--'' @ CRLF @ (''--'' @ b) @ rest"
  have "?B \<noteq> []" by simp
  obtain f hed tal where s1: "db_split h data ?B = Inr (f, hed, tal)" "db_ok h hed" "db_ok h tal"
    "(f, content h hed, content h tal) = str_split (content h data) ?B"
    using db_split_content[OF assms(1) \<open>?B \<noteq> []\<close>] by blast
  have "str_split ([] @ ?B @ ?t) ?B = (True, [], ?t)"
    by (rule str_split_found) simp_all
  then have c1: "f" "content h hed = []" "content h tal = ?t"
    using s1(4) assms(4) by simp_all
  obtain f' hed' tal' where s2: "db_split h tal ?B = Inr (f', hed', tal')" "db_ok h hed'" "db_ok h tal'"
    "(f', content h hed', content h tal') = str_split (content h tal) ?B"
    using db_split_content[OF s1(3) \<open>?B \<noteq> []\<close>] by blast
  have "str_split ((''--'' @ CRLF) @ ?B @ rest) ?B = (True, ''--'' @ CRLF, rest)"
    using search_closing[OF assms(2,3)] by (intro str_split_found) simp_all
  then have c2: "f'" "content h hed' = ''--'' @ CRLF"
    using s2(4) c1(3) by simp_all
  have "str_trim_part (''--'' @ CRLF) = Some None"
    by (simp add: str_trim_part_def str_cut_begin_def suffix_def CRLF_def)
  then have "trim_part h hed' = Inr None"
    using trim_part_content[OF s2(2)] c2(2) by simp
  then have "parseMultipart h ?B tal r = None" for r
    using s1(3) s2(1,2) c1(3) c2 by (intro parseMultipart_continue_None[of _ _ _ hed' tal']) simp_all
  moreover have "\<not> db_empty data" "db_empty hed"
    using assms(1,4) s1(2) c1(2) by simp_all
  ultimately show ?thesis
    using s1(1) by (subst parseMultipart.simps) simp
qed

section \<open>The loop that ends\<close>

lemma trim_part_not_dashes:
  assumes "str_trim_part s = Some None"
  shows "s = ''--'' @ CRLF \<or> s = ''--'' @ LF"
  using assms
  by (auto simp: str_trim_part_def str_cut_begin_def suffix_def split: if_splits)

lemma str_split_decomp:
  assumes "p \<noteq> []" "(f, a, b) = str_split s p"
  shows "if f then s = a @ p @ b else b = []"
proof (cases "std_search s p < length s")
  case True
  then obtain z where z: "drop (std_search s p) s = p @ z"
    using std_search_prefix by (auto simp: prefix_def)
  have "drop (std_search s p + length p) s = drop (length p) (drop (std_search s p) s)"
    by (simp add: add.commute)
  then have b: "drop (std_search s p + length p) s = z" unfolding z by simp
  have s: "take (std_search s p) s @ p @ z = s"
    using append_take_drop_id[of "std_search s p" s] unfolding z .
  have "f" "a = take (std_search s p) s" "b = z"
    using True assms(2) unfolding str_split_def b by simp_all
  then show ?thesis by (simp only: s if_True)
next
  case False
  then show ?thesis
    using assms(2) std_search_le[of s p] by (simp add: str_split_def)
qed

text \<open>A closing delimiter, with its line end, right before a boundary.\<close>

definition reopened :: "string \<Rightarrow> string \<Rightarrow> bool" where
  "reopened boundary s \<longleftrightarrow> sublist (''--'' @ CRLF @ boundary) s \<or> sublist (''--'' @ LF @ boundary) s"

lemma reopened_tail: "reopened b t \<Longrightarrow> reopened b (s @ t)"
  unfolding reopened_def sublist_def by (metis append.assoc)

lemma parseMultipart_ends:
  assumes "db_ok h data" "boundary \<noteq> []" "\<not> reopened boundary (content h data)"
  shows "\<exists>y. parseMultipart h boundary data req = Some y"
  using assms(1,3)
proof (induction "length (content h data)" arbitrary: data req rule: less_induct)
  case less
  show ?case
  proof (cases "content h data = []")
    case True
    then show ?thesis using less.prems(1) by (subst parseMultipart.simps) simp
  next
    case False
    obtain f hd' tl' where s: "db_split h data boundary = Inr (f, hd', tl')" "db_ok h hd'" "db_ok h tl'"
      "(f, content h hd', content h tl') = str_split (content h data) boundary"
      using db_split_content[OF less.prems(1) assms(2)] by blast
    have d: "if f then content h data = content h hd' @ boundary @ content h tl' else content h tl' = []"
      by (rule str_split_decomp[OF assms(2) s(4)])
    have tail: "\<exists>y. parseMultipart h boundary tl' r = Some y" for r
    proof (cases f)
      case True
      then have c: "content h data = (content h hd' @ boundary) @ content h tl'" using d by simp
      show ?thesis
      proof (rule less.hyps[OF _ s(3)])
        show "length (content h tl') < length (content h data)" using c assms(2) by simp
        show "\<not> reopened boundary (content h tl')"
          using less.prems(2) reopened_tail[of boundary "content h tl'" "content h hd' @ boundary"] c by auto
      qed
    next
      case False
      then show ?thesis using d s(3) by (subst parseMultipart.simps) simp
    qed
    let ?x = "if f \<and> \<not> db_empty hd' then trim_part h hd' else Inr (Some hd')"
    have "?x \<noteq> Inr None"
    proof
      assume x: "?x = Inr None"
      then have tp: "f" "trim_part h hd' = Inr None" by (auto split: if_splits)
      then have "str_trim_part (content h hd') = Some None"
        using trim_part_content[OF s(2)] by (auto split: option.splits)
      then have "content h hd' = ''--'' @ CRLF \<or> content h hd' = ''--'' @ LF"
        by (rule trim_part_not_dashes)
      then have "sublist (''--'' @ CRLF @ boundary) (content h data) \<or> sublist (''--'' @ LF @ boundary) (content h data)"
        using d tp(1) by (auto simp: sublist_def) (metis append_Nil)+
      then show False using less.prems(2) by (simp add: reopened_def)
    qed
    then show ?thesis
      using tail False less.prems(1) s(1)
      by (subst parseMultipart.simps) (auto split: sum.split option.split prod.split)
  qed
qed

section \<open>Form fields\<close>

definition field_header :: "string \<Rightarrow> string" where
  "field_header n = ''Content-Disposition: form-data; name='' @ [CHR 0x22] @ n @ [CHR 0x22]"

definition name_ok :: "string \<Rightarrow> bool" where
  "name_ok n \<longleftrightarrow> n \<noteq> [] \<and> CHR '';'' \<notin> set n \<and> CHR 0x0D \<notin> set n \<and> CHR 0x0A \<notin> set n"

text \<open>A buffer in memory that shows a text.\<close>

definition shows_text :: "heap \<Rightarrow> data_buffer \<Rightarrow> string \<Rightarrow> bool" where
  "shows_text h d s \<longleftrightarrow> db_ok h d \<and> db_in_memory h d \<and> content h d = s"

lemma shows_text_simps:
  assumes "shows_text h d s"
  shows "db_empty d \<longleftrightarrow> s = []" "db_size d = length s" "db_startsWith h d p = Inr (prefix p s)"
    "db_toString h d = Inr s"
  using assms by (auto simp: shows_text_def)

lemma in_memory_data: "db_in_memory h d \<Longrightarrow> db_data x = db_data d \<Longrightarrow> db_in_memory h x"
  by (simp only: db_in_memory_def)

lemma text_split:
  assumes "shows_text h d s" "p \<noteq> []" "str_split s p = (f, u, v)"
  obtains a b where "db_split h d p = Inr (f, a, b)" "shows_text h a u" "shows_text h b v"
    "db_data a = db_data d" "db_data b = db_data d"
proof -
  have d: "db_ok h d" "db_in_memory h d" "content h d = s" using assms(1) by (simp_all add: shows_text_def)
  obtain f' a b where s: "db_split h d p = Inr (f', a, b)" "db_ok h a" "db_ok h b"
    "(f', content h a, content h b) = str_split (content h d) p" "db_data a = db_data d" "db_data b = db_data d"
    using db_split_content[OF d(1) assms(2)] by blast
  have "f' = f" "content h a = u" "content h b = v"
    using s(4) assms(3) d(3) by simp_all
  then show ?thesis
    using s in_memory_data[OF d(2) s(5)] in_memory_data[OF d(2) s(6)] by (intro that[of a b]) (simp_all add: shows_text_def)
qed

lemma text_split_char:
  assumes "shows_text h d s" "str_split_char s ch = (f, u, v)"
  obtains a b where "db_split_char h d ch = Inr (f, a, b)" "shows_text h a u" "shows_text h b v"
    "db_data a = db_data d" "db_data b = db_data d"
  using text_split[OF assms(1), of "[ch]" f u v] assms(2) by (auto simp: db_split_char_eq str_split_single)

lemma text_trim:
  assumes "shows_text h d s"
  obtains t where "db_trim h d = Inr t" "shows_text h t (str_trim s)"
proof -
  have d: "db_ok h d" "db_in_memory h d" "content h d = s" using assms(1) by (simp_all add: shows_text_def)
  obtain t where t: "db_trim h d = Inr t" "db_ok h t" "content h t = str_trim (content h d)" "db_data t = db_data d"
    using db_trim_content[OF d(1,2)] by blast
  then show ?thesis
    using in_memory_data[OF d(2) t(4)] d(3) by (intro that[of t]) (simp_all add: shows_text_def)
qed

lemma text_trimn1:
  assumes "shows_text h d ([q] @ n @ [q'])"
  shows "shows_text h (db_trimn d 1 1) n"
proof -
  have d: "db_ok h d" "db_in_memory h d" "content h d = [q] @ n @ [q']" using assms by (simp_all add: shows_text_def)
  have "length (content h d) = db_end d - db_begin d" "db_end d < two64"
    using db_ok_bounds[OF d(1)] by (simp_all add: content_def)
  then have "1 \<le> db_end d" "db_begin d + 1 < two64"
    using d(3) by simp_all
  note t = db_trimn_content[OF d(1) this]
  have "content h (db_trimn d 1 1) = n" using t(2) d(3) by simp
  then show ?thesis
    using t(1) in_memory_data[OF d(2) t(3)] by (simp add: shows_text_def)
qed

lemma set_field_other:
  assumes "shows_text h key k" "length k \<notin> {4, 8, 12}"
  shows "set_field h key val fs = Inr fs"
  using assms by (cases fs) (auto simp: set_field_def is_key_def is_key_ci_def shows_text_simps)

lemma set_field_name:
  assumes "shows_text h key ''name''"
  shows "set_field h key val (nam, filename, type) = Inr (db_trimn val 1 1, filename, type)"
  using assms by (simp add: set_field_def is_key_def shows_text_simps)

lemma parseLine_step:
  assumes "shows_text h line s" "s \<noteq> []" "str_split_char s (CHR '';'') = (f, u, v)" "str_split_char u (CHR ''='') = (g, k, w)"
  obtains key val l where "shows_text h key k" "shows_text h val w" "shows_text h l (str_trim v)"
    "parseLine_loop (Suc n) h line fs = bindE (set_field h key val fs) (\<lambda>fs. parseLine_loop n h l fs)"
proof -
  obtain a b where ab: "db_split_char h line (CHR '';'') = Inr (f, a, b)" "shows_text h a u" "shows_text h b v"
    using text_split_char[OF assms(1,3)] .
  obtain key val where kv: "db_split_char h a (CHR ''='') = Inr (g, key, val)" "shows_text h key k" "shows_text h val w"
    using text_split_char[OF ab(2) assms(4)] .
  obtain l where l: "db_trim h b = Inr l" "shows_text h l (str_trim v)"
    using text_trim[OF ab(3)] .
  have "parseLine_loop (Suc n) h line fs = bindE (set_field h key val fs) (\<lambda>fs. parseLine_loop n h l fs)"
    using shows_text_simps(1)[OF assms(1)] assms(2) by (simp add: ab(1) kv(1) l(1))
  with kv l show ?thesis by (intro that)
qed

lemma parseLine_field:
  assumes "shows_text h line (field_header n)" "name_ok n"
  obtains nam where "parseLine h line (db_nil, db_nil, db_nil) = Inr (nam, db_nil, db_nil)" "shows_text h nam n"
proof -
  let ?q = "[CHR 0x22]" and ?nil = "(db_nil, db_nil, db_nil)"
  let ?u = "''Content-Disposition: form-data''" and ?v = "'' name='' @ ?q @ n @ ?q"
  have fh: "field_header n = ?u @ CHR '';'' # ?v" by (simp add: field_header_def)
  have "str_split_char (field_header n) (CHR '';'') = (True, ?u, ?v)"
    unfolding fh by (rule str_split_char_found) simp
  moreover have "str_split_char ?u (CHR ''='') = (False, ?u, [])"
    by (rule str_split_char_absent) simp
  moreover have "field_header n \<noteq> []" by (simp add: fh)
  ultimately obtain key val l where 1: "shows_text h key ?u" "shows_text h l (str_trim ?v)"
    "parseLine_loop (Suc (db_size line)) h line ?nil = bindE (set_field h key val ?nil) (\<lambda>fs. parseLine_loop (db_size line) h l fs)"
    using parseLine_step[OF assms(1)] by metis
  have set1: "set_field h key val ?nil = Inr ?nil"
    by (rule set_field_other[OF 1(1)]) simp
  have "str_trim ?v = ''name='' @ ?q @ n @ ?q"
    using str_trim_id[of "''name='' @ ?q @ n @ ?q"] by (simp add: str_trim_def isspace_def)
  then have l: "shows_text h l (''name='' @ ?q @ n @ ?q)" using 1(2) by simp
  have "CHR '';'' \<notin> set (''name='' @ ?q @ n @ ?q)" using assms(2) by (simp add: name_ok_def)
  then have sp: "str_split_char (''name='' @ ?q @ n @ ?q) (CHR '';'') = (False, ''name='' @ ?q @ n @ ?q, [])"
    by (rule str_split_char_absent)
  have "str_split_char (''name'' @ CHR ''='' # (?q @ n @ ?q)) (CHR ''='') = (True, ''name'', ?q @ n @ ?q)"
    by (rule str_split_char_found) simp
  then have kv: "str_split_char (''name='' @ ?q @ n @ ?q) (CHR ''='') = (True, ''name'', ?q @ n @ ?q)" by simp
  have "db_size line = length (field_header n)" using shows_text_simps(2)[OF assms(1)] .
  then obtain m where m: "db_size line = Suc (Suc m)" by (simp add: fh)
  obtain key2 val2 l2 where 2: "shows_text h key2 ''name''" "shows_text h val2 (?q @ n @ ?q)" "shows_text h l2 (str_trim [])"
    "parseLine_loop (Suc (Suc m)) h l ?nil = bindE (set_field h key2 val2 ?nil) (\<lambda>fs. parseLine_loop (Suc m) h l2 fs)"
    using parseLine_step[OF l _ sp kv] by (metis append_Cons list.distinct(1))
  have "parseLine h line ?nil = Inr (db_trimn val2 1 1, db_nil, db_nil)"
    using 1(3) set1 m 2(4) set_field_name[OF 2(1)] shows_text_simps(1)[OF 2(3)] by (simp add: parseLine_def)
  with text_trimn1[OF 2(2)] show ?thesis by (intro that)
qed

text \<open>A header block that is a single line.\<close>

lemma split_line_text:
  assumes "shows_text h d s"
    and "(case str_split s CRLF of (True, u, v) \<Rightarrow> (u, v) | (False, _, _) \<Rightarrow> snd (str_split_char s (CHR 0x0A))) = (x, y)"
  obtains a b where "split_line h d = Inr (a, b)" "shows_text h a x" "shows_text h b y"
proof -
  obtain f u v where s: "str_split s CRLF = (f, u, v)" using prod_cases3 by blast
  obtain a b where ab: "db_split h d CRLF = Inr (f, a, b)" "shows_text h a u" "shows_text h b v"
    using text_split[OF assms(1) CRLF_facts(1) s] .
  obtain g u' v' where s': "str_split_char s (CHR 0x0A) = (g, u', v')" using prod_cases3 by blast
  obtain a' b' where ab': "db_split_char h d (CHR 0x0A) = Inr (g, a', b')" "shows_text h a' u'" "shows_text h b' v'"
    using text_split_char[OF assms(1) s'] .
  show ?thesis
  proof (cases f)
    case True
    then show ?thesis using ab s assms(2) by (intro that[of a b]) (simp_all add: split_line_def)
  next
    case False
    then show ?thesis using ab(1) ab' s s' assms(2) by (intro that[of a' b']) (simp_all add: split_line_def)
  qed
qed

lemma part_headers_single:
  assumes "shows_text h d s" "s \<noteq> []" "shows_text h a u" "shows_text h b []" "split_line h d = Inr (a, b)"
    and "\<not> prefix '' '' u" "\<not> prefix [CHR 0x09] u" "parseLine h a fs = Inr fs'"
  shows "part_headers (Suc (db_size d)) h part d fs = Inr fs'"
proof -
  obtain m where m: "db_size d = Suc m"
    using assms(2) shows_text_simps(2)[OF assms(1)] by (cases s) simp_all
  have "unfold_line (Suc (db_size d)) h part db_nil d False = Inr (a, b)"
    using assms(2,5-7) shows_text_simps(1)[OF assms(1)] shows_text_simps(1)[OF assms(4)] shows_text_simps(3)[OF assms(3)] m
    by simp
  moreover have "\<not> db_empty d" "part_headers (db_size d) h part b fs' = Inr fs'"
    using assms(2) shows_text_simps(1)[OF assms(1)] shows_text_simps(1)[OF assms(4)] m by simp_all
  ultimately show ?thesis
    using assms(8) by (simp del: unfold_line.simps)
qed

lemma split_part_text:
  assumes "shows_text h d s"
    and "(case str_split s (CRLF @ CRLF) of (True, u, v) \<Rightarrow> (u, v) | (False, _, _) \<Rightarrow> snd (str_split s (LF @ LF))) = (x, y)"
  obtains a b where "split_part h d = Inr (a, b)" "shows_text h a x" "shows_text h b y"
proof -
  have ne: "CRLF @ CRLF \<noteq> []" "LF @ LF \<noteq> []" by simp_all
  obtain f u v where s: "str_split s (CRLF @ CRLF) = (f, u, v)" using prod_cases3 by blast
  obtain a b where ab: "db_split h d (CRLF @ CRLF) = Inr (f, a, b)" "shows_text h a u" "shows_text h b v"
    using text_split[OF assms(1) ne(1) s] .
  obtain g u' v' where s': "str_split s (LF @ LF) = (g, u', v')" using prod_cases3 by blast
  obtain a' b' where ab': "db_split h d (LF @ LF) = Inr (g, a', b')" "shows_text h a' u'" "shows_text h b' v'"
    using text_split[OF assms(1) ne(2) s'] .
  show ?thesis
  proof (cases f)
    case True
    then show ?thesis using ab s assms(2) by (intro that[of a b]) (simp_all add: split_part_def)
  next
    case False
    then show ?thesis using ab(1) ab' s s' assms(2) by (intro that[of a' b']) (simp_all add: split_part_def)
  qed
qed

lemma field_header_chars:
  "name_ok n \<Longrightarrow> CHR 0x0D \<notin> set (field_header n) \<and> CHR 0x0A \<notin> set (field_header n)"
  by (simp add: name_ok_def field_header_def)

lemma parsePart_headers:
  assumes "split_part h part = Inr (hs, c)"
    and "part_headers (Suc (db_size hs)) h part hs (db_nil, db_nil, db_nil) = Inr (nam, db_nil, typ)"
  shows "db_empty nam \<Longrightarrow> parsePart h part r = (Inr (), r)"
    and "\<lbrakk>shows_text h nam n; n \<noteq> []; shows_text h c v\<rbrakk> \<Longrightarrow>
      parsePart h part r = (Inr (), r\<lparr>rq_args := rq_args r @ [(n, v)]\<rparr>)"
proof -
  have nil: "db_empty db_nil" by (simp add: db_empty_def db_isNil_def db_nil_def)
  show "db_empty nam \<Longrightarrow> parsePart h part r = (Inr (), r)"
    unfolding parsePart_def bindS_def liftS_def assms(1) prod.case sum.case assms(2) by (simp add: returnS_def)
  show "parsePart h part r = (Inr (), r\<lparr>rq_args := rq_args r @ [(n, v)]\<rparr>)"
    if "shows_text h nam n" "n \<noteq> []" "shows_text h c v"
    unfolding parsePart_def bindS_def liftS_def assms(1) prod.case sum.case assms(2)
    using that nil by (simp add: modifyS_def shows_text_simps)
qed

lemma parsePart_field:
  assumes "shows_text h part (field_header n @ (CRLF @ CRLF) @ v)" "name_ok n"
  shows "parsePart h part r = (Inr (), r\<lparr>rq_args := rq_args r @ [(n, v)]\<rparr>)"
proof -
  note fh = field_header_chars[OF assms(2)]
  have "str_split (field_header n @ (CRLF @ CRLF) @ v) (CRLF @ CRLF) = (True, field_header n, v)"
    using fh by (intro str_split_found std_search_first) simp_all
  then obtain hs c where sp: "split_part h part = Inr (hs, c)" "shows_text h hs (field_header n)" "shows_text h c v"
    using split_part_text[OF assms(1), of "field_header n" v] by auto
  have "str_split (field_header n) CRLF = (False, field_header n, [])"
    "str_split_char (field_header n) (CHR 0x0A) = (False, field_header n, [])"
    using fh by (simp_all add: str_split_absent str_split_char_absent)
  then obtain a b where sl: "split_line h hs = Inr (a, b)" "shows_text h a (field_header n)" "shows_text h b []"
    using split_line_text[OF sp(2), of "field_header n" "[]"] by auto
  obtain nam where nam: "parseLine h a (db_nil, db_nil, db_nil) = Inr (nam, db_nil, db_nil)" "shows_text h nam n"
    using parseLine_field[OF sl(2) assms(2)] .
  have "part_headers (Suc (db_size hs)) h part hs (db_nil, db_nil, db_nil) = Inr (nam, db_nil, db_nil)"
    by (rule part_headers_single[OF sp(2) _ sl(2,3,1) _ _ nam(1)]) (simp_all add: field_header_def)
  moreover have "n \<noteq> []" using assms(2) by (simp add: name_ok_def)
  ultimately show ?thesis
    using parsePart_headers(2)[OF sp(1)] nam(2) sp(3) by blast
qed

lemma parsePart_closing:
  assumes "shows_text h part (''--'' @ CRLF)"
  shows "parsePart h part r = (Inr (), r)"
proof -
  have "str_split (''--'' @ CRLF) (CRLF @ CRLF) = (False, ''--'' @ CRLF, [])"
    "str_split (''--'' @ CRLF) (LF @ LF) = (False, ''--'' @ CRLF, [])"
    "str_split (''--'' @ CRLF) CRLF = (True, ''--'', [])"
    by (simp_all add: str_split_def CRLF_def LF_def)
  note st = this
  obtain hs c where sp: "split_part h part = Inr (hs, c)" "shows_text h hs (''--'' @ CRLF)" "shows_text h c []"
    by (rule split_part_text[OF assms, of "''--'' @ CRLF" "[]"]) (simp only: st prod.case bool.case snd_conv)
  obtain a b where sl: "split_line h hs = Inr (a, b)" "shows_text h a ''--''" "shows_text h b []"
    by (rule split_line_text[OF sp(2), of "''--''" "[]"]) (simp only: st prod.case bool.case)
  have "str_split_char ''--'' (CHR '';'') = (False, ''--'', [])" "str_split_char ''--'' (CHR ''='') = (False, ''--'', [])"
    by (simp_all add: str_split_char_absent)
  then obtain key val l where 1: "shows_text h key ''--''" "shows_text h l (str_trim [])"
    "parseLine_loop (Suc (db_size a)) h a (db_nil, db_nil, db_nil) =
       bindE (set_field h key val (db_nil, db_nil, db_nil)) (\<lambda>fs. parseLine_loop (db_size a) h l fs)"
    using parseLine_step[OF sl(2)] by (metis list.distinct(1))
  have "parseLine h a (db_nil, db_nil, db_nil) = Inr (db_nil, db_nil, db_nil)"
    using 1(3) set_field_other[OF 1(1)] shows_text_simps(1)[OF 1(2)] shows_text_simps(2)[OF sl(2)]
    by (simp add: parseLine_def eval_nat_numeral)
  then have "part_headers (Suc (db_size hs)) h part hs (db_nil, db_nil, db_nil) = Inr (db_nil, db_nil, db_nil)"
    by (intro part_headers_single[OF sp(2) _ sl(2,3,1)]) simp_all
  then show ?thesis
    using parsePart_headers(1)[OF sp(1)] by (simp add: db_empty_def db_isNil_def db_nil_def)
qed

section \<open>A message of form fields\<close>

fun message_tail :: "string \<Rightarrow> (string \<times> string) list \<Rightarrow> string" where
  "message_tail B [] = ''--'' @ CRLF"
| "message_tail B ((n, v) # fs) =
     (CRLF @ (field_header n @ (CRLF @ CRLF) @ v) @ CRLF) @ B @ message_tail B fs"

definition multipart_message :: "string \<Rightarrow> (string \<times> string) list \<Rightarrow> string" where
  "multipart_message B fs = B @ message_tail B fs"

text \<open>The boundary does not occur in a field before its end.\<close>

definition field_ok :: "string \<Rightarrow> string \<times> string \<Rightarrow> bool" where
  "field_ok B f = (case f of (n, v) \<Rightarrow> name_ok n \<and>
     (let seg = CRLF @ (field_header n @ (CRLF @ CRLF) @ v) @ CRLF in std_search (seg @ B) B = length seg))"

lemma std_search_extend:
  assumes "p \<noteq> []" "std_search (s @ p) p = length s"
  shows "std_search (s @ p @ t) p = length s"
  using std_search_take_found[of "length (s @ p)" "s @ p @ t" p] assms by simp

lemma closing_absent:
  assumes "b \<noteq> []" "hd b \<noteq> CHR 0x0D"
  shows "str_split (''--'' @ CRLF) (''--'' @ b) = (False, ''--'' @ CRLF, [])"
  using assms by (cases b) (simp_all add: CRLF_def str_split_def)

lemma shows_text_ok: "shows_text h d s \<Longrightarrow> db_ok h d" "shows_text h d s \<Longrightarrow> content h d = s"
  by (simp_all add: shows_text_def)

lemma trim_part_field:
  assumes "shows_text h d (CRLF @ s @ CRLF)" "s \<noteq> []"
  obtains d' where "trim_part h d = Inr (Some d')" "shows_text h d' s"
proof -
  have "str_trim_part (CRLF @ s @ CRLF) = Some (Some s)"
    using suffixI[of "CRLF @ s @ CRLF" "CRLF @ s" CRLF] assms(2)
    by (simp add: str_trim_part_def str_cut_begin_def CRLF_def)
  then obtain d' where "trim_part h d = Inr (Some d')" "db_ok h d'" "content h d' = s" "db_data d' = db_data d"
    using trim_part_content[of h d] assms(1) by (auto simp: shows_text_def)
  moreover from this have "shows_text h d' s"
    using assms(1) in_memory_data by (auto simp: shows_text_def)
  ultimately show ?thesis by (intro that)
qed

lemma parseMultipart_tail:
  assumes "b \<noteq> []" "hd b \<noteq> CHR 0x0D" "B = ''--'' @ b"
  shows "\<lbrakk>\<forall>f\<in>set fs. field_ok B f; shows_text h d (message_tail B fs)\<rbrakk> \<Longrightarrow>
    parseMultipart h B d r = Some (Inr (), r\<lparr>rq_args := rq_args r @ fs\<rparr>)"
proof (induction fs arbitrary: d r)
  case Nil
  have B: "B \<noteq> []" using assms(3) by simp
  have d: "shows_text h d (''--'' @ CRLF)" using Nil.prems(2) by simp
  obtain x y where sp: "db_split h d B = Inr (False, x, y)" "shows_text h x (''--'' @ CRLF)" "shows_text h y []"
    using text_split[OF d B closing_absent[OF assms(1,2), folded assms(3)]] .
  have "parseMultipart h B y r = Some (Inr (), r)"
    using shows_text_simps(1)[OF sp(3)] by (subst parseMultipart.simps) simp
  then show ?case
    using sp(1) shows_text_simps(1)[OF d] shows_text_simps(1)[OF sp(2)] parsePart_closing[OF sp(2)]
    by (subst parseMultipart.simps) simp
next
  case (Cons f fs)
  obtain n v where f: "f = (n, v)" by (cases f)
  let ?s = "field_header n @ (CRLF @ CRLF) @ v"
  let ?seg = "CRLF @ ?s @ CRLF"
  have B: "B \<noteq> []" using assms(3) by simp
  have ok: "name_ok n" "std_search (?seg @ B) B = length ?seg"
    using Cons.prems(1) f by (simp_all add: field_ok_def Let_def)
  have d: "shows_text h d (?seg @ B @ message_tail B fs)" using Cons.prems(2) f by simp
  obtain x y where sp: "db_split h d B = Inr (True, x, y)" "shows_text h x ?seg" "shows_text h y (message_tail B fs)"
    using text_split[OF d B str_split_found[OF B std_search_extend[OF B ok(2)]]] .
  have ne: "?s \<noteq> []" by (simp add: field_header_def)
  obtain x' where x': "trim_part h x = Inr (Some x')" "shows_text h x' ?s"
    using trim_part_field[OF sp(2) ne] .
  have emp: "\<not> db_empty d" "\<not> db_empty x" "\<not> db_empty x'"
    using shows_text_simps(1)[OF d] shows_text_simps(1)[OF sp(2)] shows_text_simps(1)[OF x'(2)] ne by simp_all
  have "parseMultipart h B y (r\<lparr>rq_args := rq_args r @ [(n, v)]\<rparr>) =
      Some (Inr (), r\<lparr>rq_args := rq_args r @ f # fs\<rparr>)"
    using Cons.IH[OF _ sp(3), of "r\<lparr>rq_args := rq_args r @ [(n, v)]\<rparr>"] Cons.prems(1) f by simp
  then show ?case
    using sp(1) emp x'(1) parsePart_field[OF x'(2) ok(1)] by (subst parseMultipart.simps) simp
qed

lemma parseMultipart_message:
  assumes "b \<noteq> []" "hd b \<noteq> CHR 0x0D" "B = ''--'' @ b" "\<forall>f\<in>set fs. field_ok B f"
    and "shows_text h d (multipart_message B fs)"
  shows "parseMultipart h B d r = Some (Inr (), r\<lparr>rq_args := rq_args r @ fs\<rparr>)"
proof -
  have B: "B \<noteq> []" using assms(3) by simp
  have d: "shows_text h d ([] @ B @ message_tail B fs)" using assms(5) by (simp add: multipart_message_def)
  have st: "str_split ([] @ B @ message_tail B fs) B = (True, [], message_tail B fs)"
    using std_search_first[OF B, of "[]"] by (intro str_split_found[OF B]) simp
  obtain x y where sp: "db_split h d B = Inr (True, x, y)" "shows_text h x []" "shows_text h y (message_tail B fs)"
    using text_split[OF d B st] .
  have "\<not> db_empty d" "db_empty x" using shows_text_simps(1)[OF d] shows_text_simps(1)[OF sp(2)] B by simp_all
  then show ?thesis
    using sp(1) parseMultipart_tail[OF assms(1-4) sp(3)] by (subst parseMultipart.simps) simp
qed

section \<open>Every part in memory is parsed\<close>

text \<open>A view of a storage in memory that lies inside of it, and three of them.\<close>

definition mem_ok :: "heap \<Rightarrow> data_buffer \<Rightarrow> bool" where
  "mem_ok h d \<longleftrightarrow> db_ok h d \<and> db_in_memory h d"

definition fields_ok :: "heap \<Rightarrow> part_fields \<Rightarrow> bool" where
  "fields_ok h = (\<lambda>(nam, filename, type). mem_ok h nam \<and> mem_ok h filename \<and> mem_ok h type)"

lemma mem_ok_nil [simp]: "mem_ok h db_nil"
  by (simp add: mem_ok_def db_in_memory_def) (simp add: db_nil_def)

lemma mem_split:
  assumes "mem_ok h d" "p \<noteq> []"
  obtains f a b where "db_split h d p = Inr (f, a, b)" "mem_ok h a" "mem_ok h b"
    "db_data a = db_data d" "db_data b = db_data d" "length (content h a) \<le> length (content h d)"
    "db_begin a = db_begin d" "content h b = [] \<or> f" "f \<Longrightarrow> db_end a \<le> db_begin b"
    "content h d \<noteq> [] \<Longrightarrow> length (content h b) < length (content h d)"
proof -
  have d: "db_ok h d" "db_in_memory h d" using assms(1) by (simp_all add: mem_ok_def)
  obtain f a b where s: "db_split h d p = Inr (f, a, b)" "db_ok h a" "db_ok h b"
    "(f, content h a, content h b) = str_split (content h d) p" "db_data a = db_data d" "db_data b = db_data d"
    "db_begin a = db_begin d" "f \<longrightarrow> db_begin b = db_end a + length p \<and> db_end b = db_end d"
    using db_split_content[OF d(1) assms(2)] by blast
  have "if f then content h d = content h a @ p @ content h b else content h b = []"
    by (rule str_split_decomp[OF assms(2) s(4)])
  moreover have "length (content h a) \<le> length (content h d)" using s(4) by (simp add: str_split_def)
  ultimately show ?thesis
    using s assms(2) in_memory_data[OF d(2) s(5)] in_memory_data[OF d(2) s(6)]
    by (intro that[of f a b]) (auto simp: mem_ok_def split: if_splits)
qed

lemma mem_trim:
  assumes "mem_ok h d"
  obtains t where "db_trim h d = Inr t" "mem_ok h t" "length (content h t) \<le> length (content h d)"
proof -
  obtain t where t: "db_trim h d = Inr t" "db_ok h t" "content h t = str_trim (content h d)" "db_data t = db_data d"
    using db_trim_content[of h d] assms by (auto simp: mem_ok_def)
  have "length (str_trim (content h d)) \<le> length (content h d)"
    unfolding str_trim_def by (metis length_dropWhile_le length_rev order_trans)
  then show ?thesis
    using t assms in_memory_data[OF _ t(4)] by (intro that[of t]) (simp_all add: mem_ok_def)
qed

lemma mem_trimn1: "mem_ok h d \<Longrightarrow> mem_ok h (db_trimn d 1 1)"
proof (cases "db_empty d")
  case True
  then show "mem_ok h d \<Longrightarrow> ?thesis" by (simp add: db_trimn_def)
next
  case False
  assume m: "mem_ok h d"
  then have ok: "db_ok h d" by (simp add: mem_ok_def)
  have "db_begin d < db_end d" "db_end d < two64"
    using db_ok_bounds[OF ok] False by (auto simp: db_empty_def)
  then show ?thesis
    using db_trimn_content(1)[OF ok, of 1 1] m in_memory_data[of h d "db_trimn d 1 1"] by (simp add: mem_ok_def)
qed

lemma is_key_ok: "db_ok h key \<Longrightarrow> \<exists>b. is_key h key s = Inr b" "db_ok h key \<Longrightarrow> \<exists>b. is_key_ci h key s = Inr b"
  by (auto simp: is_key_def is_key_ci_def)

lemma set_field_ok:
  assumes "mem_ok h key" "mem_ok h val" "fields_ok h fs"
  shows "\<exists>fs'. set_field h key val fs = Inr fs' \<and> fields_ok h fs'"
proof -
  obtain nam fil ty where fs: "fs = (nam, fil, ty)" by (cases fs)
  obtain t where t: "db_trim h val = Inr t" "mem_ok h t" using mem_trim[OF assms(2)] .
  have k: "db_ok h key" using assms(1) by (simp add: mem_ok_def)
  obtain k1 k2 k3 where "is_key h key ''name'' = Inr k1" "is_key h key ''filename'' = Inr k2"
    "is_key_ci h key ''CONTENT_TYPE'' = Inr k3"
    using is_key_ok[OF k] by metis
  then show ?thesis
    using assms(3) t mem_trimn1[OF assms(2)] by (cases k1; cases k2; cases k3) (simp_all add: fs fields_ok_def set_field_def)
qed

lemma parseLine_loop_ok:
  "mem_ok h line \<Longrightarrow> fields_ok h fs \<Longrightarrow> length (content h line) < n \<Longrightarrow>
   \<exists>fs'. parseLine_loop n h line fs = Inr fs' \<and> fields_ok h fs'"
proof (induction n arbitrary: line fs)
  case (Suc n)
  have e: "db_empty line \<longleftrightarrow> content h line = []" using Suc.prems(1) by (simp add: mem_ok_def)
  show ?case
  proof (cases "content h line = []")
    case True
    then show ?thesis using e Suc.prems(2) by simp
  next
    case False
    obtain f a b where ab: "db_split_char h line (CHR '';'') = Inr (f, a, b)" "mem_ok h a" "mem_ok h b"
      "length (content h b) < length (content h line)"
      using mem_split[OF Suc.prems(1), of "'';''"] False unfolding db_split_char_eq by (metis list.distinct(1))
    obtain g k v where kv: "db_split_char h a (CHR ''='') = Inr (g, k, v)" "mem_ok h k" "mem_ok h v"
      using mem_split[OF ab(2), of "''=''"] unfolding db_split_char_eq by (metis list.distinct(1))
    obtain fs1 where fs1: "set_field h k v fs = Inr fs1" "fields_ok h fs1"
      using set_field_ok[OF kv(2,3) Suc.prems(2)] by blast
    obtain t where t: "db_trim h b = Inr t" "mem_ok h t" "length (content h t) \<le> length (content h b)"
      using mem_trim[OF ab(3)] .
    show ?thesis
      using Suc.IH[OF t(2) fs1(2)] ab kv fs1 t Suc.prems(3) e False by simp
  qed
qed simp

lemma parseLine_total:
  assumes "mem_ok h line" "fields_ok h fs"
  obtains fs' where "parseLine h line fs = Inr fs'" "fields_ok h fs'"
proof -
  have "db_size line = length (content h line)" using assms(1) by (simp add: mem_ok_def)
  then show ?thesis using parseLine_loop_ok[OF assms, of "Suc (db_size line)"] that by (auto simp: parseLine_def)
qed

lemma split_line_ok:
  assumes "mem_ok h d" "content h d \<noteq> []"
  obtains a b where "split_line h d = Inr (a, b)" "mem_ok h a" "mem_ok h b" "db_data a = db_data d" "db_data b = db_data d"
    "db_begin a = db_begin d" "length (content h b) < length (content h d)" "content h b = [] \<or> db_end a \<le> db_begin b"
proof -
  obtain f a b where s: "db_split h d CRLF = Inr (f, a, b)" "mem_ok h a" "mem_ok h b"
    "db_data a = db_data d" "db_data b = db_data d" "db_begin a = db_begin d" "f \<Longrightarrow> db_end a \<le> db_begin b"
    "length (content h b) < length (content h d)"
    using mem_split[OF assms(1), of CRLF] assms(2) by (metis CRLF_facts(1))
  obtain f' a' b' where s': "db_split_char h d (CHR 0x0A) = Inr (f', a', b')" "mem_ok h a'" "mem_ok h b'"
    "db_data a' = db_data d" "db_data b' = db_data d" "db_begin a' = db_begin d" "content h b' = [] \<or> f'" 
    "f' \<Longrightarrow> db_end a' \<le> db_begin b'" "length (content h b') < length (content h d)"
    using mem_split[OF assms(1), of "[CHR 0x0A]"] assms(2) by (metis db_split_char_eq not_Cons_self2)
  show ?thesis
    using s s' by (cases f) (auto simp: split_line_def intro: that)
qed

text \<open>
  A line starts before what is left of the headers, so that a view from its begin to the end of a
  continuation line lies inside of the storage. The empty line that the loop starts with begins at 0.
\<close>

definition line_ok :: "heap \<Rightarrow> data_buffer \<Rightarrow> data_buffer \<Rightarrow> data_buffer \<Rightarrow> bool" where
  "line_ok h part line tail \<longleftrightarrow> mem_ok h line \<and> mem_ok h tail \<and> db_data tail = db_data part \<and>
     (content h tail = [] \<or> db_begin line \<le> db_begin tail)"

lemma sub_line_ok:
  assumes "mem_ok h sub" "db_data sub = db_data part" "b \<le> db_end sub" "content h sub \<noteq> []"
  obtains l where "db_sub h part b (db_end sub) = Inr l" "mem_ok h l" "db_begin l = b"
proof -
  obtain a where a: "db_data sub = Some a" "a < length h" "impl_ok (h ! a)" "db_end sub \<le> length (impl_bytes (h ! a))"
    using db_okE[of h sub] assms(1,4) by (auto simp: mem_ok_def)
  show ?thesis
  proof
    show "db_sub h part b (db_end sub) = Inr \<lparr>db_data = db_data part, db_begin = b, db_end = db_end sub\<rparr>"
      using a assms(2) by (simp add: db_sub_def db_impl_def impl_size_def)
    show "mem_ok h \<lparr>db_data = db_data part, db_begin = b, db_end = db_end sub\<rparr>"
      using a assms by (simp add: mem_ok_def db_ok_def db_in_memory_def)
  qed simp
qed

lemma unfold_line_ok:
  "line_ok h part line tail \<Longrightarrow> length (content h tail) < n \<Longrightarrow>
   \<exists>l t. unfold_line n h part line tail found = Inr (l, t) \<and> line_ok h part l t \<and>
     length (content h t) \<le> length (content h tail) \<and>
     (\<not> found \<and> content h tail \<noteq> [] \<longrightarrow> length (content h t) < length (content h tail))"
proof (induction n arbitrary: line tail found)
  case (Suc n)
  have m: "mem_ok h line" "mem_ok h tail" "db_data tail = db_data part"
    and e: "db_empty tail \<longleftrightarrow> content h tail = []"
    using Suc.prems(1) by (simp_all add: line_ok_def mem_ok_def)
  show ?case
  proof (cases "content h tail = []")
    case True
    then show ?thesis using e Suc.prems(1) by simp
  next
    case False
    obtain a b where s: "split_line h tail = Inr (a, b)" "mem_ok h a" "mem_ok h b" "db_data a = db_data tail"
      "db_data b = db_data tail" "db_begin a = db_begin tail" "length (content h b) < length (content h tail)"
      "content h b = [] \<or> db_end a \<le> db_begin b"
      using split_line_ok[OF m(2) False] .
    have a: "db_ok h a" using s(2) by (simp add: mem_ok_def)
    have be: "db_begin a \<le> db_end a" using db_ok_bounds[OF a] by simp
    let ?cont = "prefix '' '' (content h a) \<or> prefix [CHR 0x09] (content h a)"
    have step: "unfold_line (Suc n) h part line tail found =
      (if ?cont then bindE (db_sub h part (db_begin line) (db_end a)) (\<lambda>line. unfold_line n h part line b True)
       else if found then Inr (line, tail) else unfold_line n h part a b True)"
      using s(1) a e False by (auto simp: Let_def)
    have n: "length (content h b) < n" using s(7) Suc.prems(2) by simp
    consider "?cont" | "\<not> ?cont" "found" | "\<not> ?cont" "\<not> found" by blast
    then show ?thesis
    proof cases
      case 1
      then have "content h a \<noteq> []" by auto
      moreover have "db_begin line \<le> db_end a"
        using Suc.prems(1) False s(6) be by (simp add: line_ok_def)
      ultimately obtain l where l: "db_sub h part (db_begin line) (db_end a) = Inr l" "mem_ok h l" "db_begin l = db_begin line"
        using sub_line_ok[OF s(2)] s(4) m(3) by metis
      have "line_ok h part l b"
        using l s m(3) \<open>db_begin line \<le> db_end a\<close> by (auto simp: line_ok_def)
      from Suc.IH[OF this n, of True] show ?thesis
        using step 1 l(1) s(7) by fastforce
    next
      case 2
      then show ?thesis using step Suc.prems(1) by auto
    next
      case 3
      have "line_ok h part a b"
        using s m(3) be by (auto simp: line_ok_def)
      from Suc.IH[OF this n, of True] show ?thesis
        using step 3 s(7) by fastforce
    qed
  qed
qed simp

lemma part_headers_ok:
  "mem_ok h headers \<Longrightarrow> db_data headers = db_data part \<Longrightarrow> fields_ok h fs \<Longrightarrow> length (content h headers) < n \<Longrightarrow>
   \<exists>fs'. part_headers n h part headers fs = Inr fs' \<and> fields_ok h fs'"
proof (induction n arbitrary: headers fs)
  case (Suc n)
  have e: "db_empty headers \<longleftrightarrow> content h headers = []" "db_size headers = length (content h headers)"
    using Suc.prems(1) by (simp_all add: mem_ok_def)
  show ?case
  proof (cases "content h headers = []")
    case True
    then show ?thesis using e Suc.prems(3) by simp
  next
    case False
    have "line_ok h part db_nil headers"
      using Suc.prems(1,2) by (simp add: line_ok_def) (simp add: db_nil_def)
    then obtain l t where l: "unfold_line (Suc (db_size headers)) h part db_nil headers False = Inr (l, t)"
      "line_ok h part l t" "length (content h t) < length (content h headers)"
      using unfold_line_ok[of h part db_nil headers "Suc (db_size headers)" False] e False by auto
    obtain fs1 where fs1: "parseLine h l fs = Inr fs1" "fields_ok h fs1"
      using parseLine_total[OF _ Suc.prems(3), of l] l(2) unfolding line_ok_def by metis
    show ?thesis
      using Suc.IH[of t fs1] l fs1 Suc.prems(4) e False by (simp add: line_ok_def del: unfold_line.simps)
  qed
qed simp

lemma LF_ne: "LF \<noteq> []"
  by (simp add: LF_def)

lemma parsePart_total:
  assumes "mem_ok h part"
  shows "\<exists>r'. parsePart h part r = (Inr (), r')"
proof -
  obtain hd' co where s: "split_part h part = Inr (hd', co)" "mem_ok h hd'" "mem_ok h co" "db_data hd' = db_data part"
  proof -
    obtain f a b where "db_split h part (CRLF @ CRLF) = Inr (f, a, b)" "mem_ok h a" "mem_ok h b" "db_data a = db_data part"
      using mem_split[OF assms, of "CRLF @ CRLF"] by (metis CRLF_facts(1) append_is_Nil_conv)
    moreover obtain g c d where "db_split h part (LF @ LF) = Inr (g, c, d)" "mem_ok h c" "mem_ok h d" "db_data c = db_data part"
      using mem_split[OF assms, of "LF @ LF"] by (metis LF_ne append_is_Nil_conv)
    ultimately show ?thesis by (cases f) (auto simp: split_part_def intro: that)
  qed
  have "db_size hd' = length (content h hd')" using s(2) by (simp add: mem_ok_def)
  then obtain nam fil ty where f: "part_headers (Suc (db_size hd')) h part hd' (db_nil, db_nil, db_nil) = Inr (nam, fil, ty)"
    "fields_ok h (nam, fil, ty)"
    using part_headers_ok[OF s(2,4), of "(db_nil, db_nil, db_nil)" "Suc (db_size hd')"] by (auto simp: fields_ok_def)
  have "db_ok h nam" "db_ok h fil" "db_ok h ty" "db_ok h co"
    using f(2) s(3) by (simp_all add: fields_ok_def mem_ok_def)
  then show ?thesis
    using s(1) f(1) by (auto simp: parsePart_def monad_simps File_of_buffers_def simp del: part_headers.simps)
qed

lemma trim_part_memory:
  assumes "mem_ok h d" "trim_part h d = x"
  shows "(\<exists>d'. x = Inr (Some d') \<and> mem_ok h d') \<or> x \<in> {Inr None, Inl malformed}"
  using assms trim_part_content[of h d] in_memory_data[of h d]
  by (auto simp: mem_ok_def split: option.splits)

lemma parseMultipart_memory:
  assumes "parseMultipart h boundary data req = Some (res, req')" "mem_ok h data" "boundary \<noteq> []"
  shows "res \<in> {Inr (), Inl malformed}"
proof -
  have "mem_ok h data \<longrightarrow> boundary \<noteq> [] \<longrightarrow> fst (res, req') \<in> {Inr (), Inl malformed}"
    using assms(1)
  proof (induction rule: parseMultipart.raw_induct[rotated, consumes 1, case_names step])
    case (step parseM h boundary data req y)
    note ih = step(1) and def = step(2)
    show ?case
    proof (intro impI)
      assume m: "mem_ok h data" and b: "boundary \<noteq> []"
      obtain f hd' tl' where s: "db_split h data boundary = Inr (f, hd', tl')" "mem_ok h hd'" "mem_ok h tl'"
        using mem_split[OF m b] by metis
      let ?x = "if f \<and> \<not> db_empty hd' then trim_part h hd' else Inr (Some hd')"
      have x: "(\<exists>d'. ?x = Inr (Some d') \<and> mem_ok h d') \<or> ?x \<in> {Inr None, Inl malformed}"
        using trim_part_memory[OF s(2) refl] s(2) by auto
      then consider d' where "?x = Inr (Some d')" "mem_ok h d'" | "?x = Inr None" | "?x = Inl malformed" by blast
      then show "fst y \<in> {Inr (), Inl malformed}"
      proof cases
        case part: 1
        obtain r1 where "(if \<not> db_empty d' then parsePart h d' req else (Inr (), req)) = (Inr (), r1)"
          using parsePart_total[OF part(2), of req] by (cases "db_empty d'") auto
        then show ?thesis
          using def ih[of h boundary tl' r1 y] s part(1) b by (auto split: if_splits)
      next
        case 2
        then show ?thesis
          using def ih[of h boundary data req y] s m b by (auto split: if_splits)
      next
        case 3
        then show ?thesis using def s by (auto split: if_splits)
      qed
    qed
  qed
  then show ?thesis using assms(2,3) by simp
qed

section \<open>Properties\<close>

text \<open>
  C2. A multipart message made of form fields, as a browser sends it, in a buffer in memory, is parsed into
  exactly these fields, in their order: the arguments of the request grow by them, nothing else of it
  changes, and the parser returns. A field name has no semicolon or line end in it, and the boundary does
  not occur in a field. The restriction to memory (\<open>shows_text\<close>) is needed: in a mapped file \<^verbatim>\<open>trim\<close> looks
  at offsets in the place of characters (\<open>file_trim_ignores_text\<close> of \<open>Buffer_Impl\<close>), and the parser, which
  trims the headers of a part, then loses characters or leaves the buffer.
\<close>

theorem multipart_fields:
  assumes "b \<noteq> []" "hd b \<noteq> CHR 0x0D" "\<forall>f\<in>set fs. field_ok (''--'' @ b) f"
    and "shows_text h d (multipart_message (''--'' @ b) fs)"
  shows "parseMultipart h (''--'' @ b) d r = Some (Inr (), r\<lparr>rq_args := rq_args r @ fs\<rparr>)"
  using parseMultipart_message[OF assms(1,2) refl assms(3,4)] .

lemma shows_text_whole:
  "length s < two64 \<Longrightarrow> shows_text [StringBuffer s] \<lparr>db_data = Some 0, db_begin = 0, db_end = length s\<rparr> s"
  by (simp add: shows_text_def db_ok_def impl_ok_def sb_ok_def db_in_memory_def content_def heap_bytes_def between_def)

theorem multipart_fields_witness:
  "\<exists>h d. parseMultipart h ''--XyZ'' d (RequestImpl_new None) =
     Some (Inr (), (RequestImpl_new None)\<lparr>rq_args := [(''a'', ''1-2''), (''b'', ''two words'')]\<rparr>)"
proof -
  let ?fs = "[(''a'', ''1-2''), (''b'', ''two words'')]"
  let ?s = "multipart_message (''--'' @ ''XyZ'') ?fs"
  have fs: "\<forall>f\<in>set ?fs. field_ok (''--'' @ ''XyZ'') f" by code_simp
  have "length ?s < two64"
    by (simp add: multipart_message_def field_header_def two64_def)
  note t = shows_text_whole[OF this]
  have "rq_args (RequestImpl_new None) = []" by (simp add: RequestImpl_new_def rq_reset_def)
  then show ?thesis
    using multipart_fields[OF _ _ fs t, of "RequestImpl_new None"] by auto
qed

text \<open>
  C24. The multipart parser ends on every body, in memory or in a file, in which no closing delimiter is
  followed at once by a boundary. When the body is in memory it ends normally or with the exception for a
  malformed message: whatever the headers of a part are, no buffer is read outside of its range, and none
  of the inner loops runs out of turns.
\<close>

theorem multipart_ends:
  assumes "db_ok h data" "boundary \<noteq> []" "\<not> reopened boundary (content h data)"
  shows "\<exists>res req'. parseMultipart h boundary data req = Some (res, req') \<and>
    (db_in_memory h data \<longrightarrow> res \<in> {Inr (), Inl malformed})"
  using parseMultipart_ends[OF assms] parseMultipart_memory[of h boundary data req] assms(1,2)
  by (fastforce simp: mem_ok_def)

theorem multipart_ends_witness:
  "\<exists>res req'. parseMultipart [StringBuffer ''--B--''] ''--B'' \<lparr>db_data = Some 0, db_begin = 0, db_end = 5\<rparr> (RequestImpl_new None) =
     Some (res, req') \<and> res \<in> {Inr (), Inl malformed}"
proof -
  let ?h = "[StringBuffer ''--B--'']" and ?d = "\<lparr>db_data = Some 0, db_begin = 0, db_end = 5\<rparr>"
  have c: "content ?h ?d = ''--B--''" by (simp add: content_def heap_bytes_def between_def)
  have ok: "db_ok ?h ?d" by (simp add: db_ok_def impl_ok_def sb_ok_def two64_def)
  have mem: "db_in_memory ?h ?d" by (simp add: db_in_memory_def)
  have "\<not> reopened ''--B'' (content ?h ?d)"
    unfolding c reopened_def by (auto simp: CRLF_def LF_def dest!: sublist_length_le)
  then show ?thesis using multipart_ends[OF ok, of "''--B''" "RequestImpl_new None"] mem by auto
qed

text \<open>
  C40. The multipart parser runs for ever on a body that starts with a boundary, a closing delimiter, a line
  break and a boundary again: the loop meets the closing delimiter, and its \<^verbatim>\<open>continue\<close> starts the round again with
  the same data.
\<close>

theorem multipart_loops:
  assumes "db_ok h data" "b \<noteq> []" "hd b \<noteq> CHR 0x0D"
    and "content h data = (''--'' @ b) @ ''--'' @ CRLF @ (''--'' @ b) @ rest"
  shows "parseMultipart h (''--'' @ b) data req = None"
  using parseMultipart_loops[OF assms] .

theorem multipart_loops_witness:
  "\<exists>h d. content h d = ''--B--'' @ CRLF @ ''--B'' \<and> parseMultipart h ''--B'' d (RequestImpl_new None) = None"
proof -
  let ?s = "(''--'' @ ''B'') @ ''--'' @ CRLF @ (''--'' @ ''B'') @ []"
  have t: "shows_text [StringBuffer ?s] \<lparr>db_data = Some 0, db_begin = 0, db_end = length ?s\<rparr> ?s"
    by (rule shows_text_whole) (simp add: two64_def)
  then show ?thesis
    using multipart_loops[OF shows_text_ok(1)[OF t] _ _ shows_text_ok(2)[OF t], of "RequestImpl_new None"]
      shows_text_ok(2)[OF t] by auto
qed

end
