(* ===== verification/Request_Serialize.thy ===== *)
theory Request_Serialize
  imports Request_Impl
begin

text \<open>
  The binary form of a request (\<^verbatim>\<open>serialize*\<close> and \<^verbatim>\<open>parse*\<close> of \<^verbatim>\<open>library/requestimpl.cpp\<close>), in
  which the request cache keeps requests that are to be handled again: headers, cookies, variables,
  body, uploaded files and arguments, each part preceded by its size. Sizes are 64-bit integers in
  the byte order of the host, which is little-endian here.

  The writers are shown to produce the image \<open>request_image\<close> (\<open>serialize_content\<close>), and the readers
  to rebuild the request from it (\<open>parse_image\<close>). On a buffer that holds anything else the readers
  end with a request or an exception, without reading outside the buffer and without looping.
\<close>

section \<open>Writing\<close>

definition int_bytes :: "nat \<Rightarrow> string" where
  "int_bytes v = map (\<lambda>i. char_of (v div 256 ^ i mod 256)) [0..<8]"

definition serializeInt :: "data_buffer \<Rightarrow> nat \<Rightarrow> nat \<times> heap \<Rightarrow> (nat \<times> heap) result" where
  "serializeInt buffer val = (\<lambda>(pos, h). bindE (db_write h buffer pos (int_bytes val)) (\<lambda>(n, h).
     Inr (wadd pos n, h)))"

definition serializeString :: "data_buffer \<Rightarrow> string \<Rightarrow> nat \<times> heap \<Rightarrow> (nat \<times> heap) result" where
  "serializeString buffer val = (\<lambda>ph. bindE (serializeInt buffer (length val) ph) (\<lambda>(pos, h).
     bindE (db_write h buffer pos val) (\<lambda>(n, h). Inr (wadd pos n, h))))"

definition write_chunk :: "data_buffer \<Rightarrow> data_buffer \<Rightarrow> nat \<times> nat \<Rightarrow> nat \<times> heap \<Rightarrow> (nat \<times> heap) result" where
  "write_chunk buffer src c = (\<lambda>(pos, h).
     bindE (db_write h buffer pos (chunk_bytes (heap_bytes h src) c)) (\<lambda>(n, h). Inr (wadd pos n, h)))"

definition serializeBuffer :: "data_buffer \<Rightarrow> data_buffer \<Rightarrow> nat \<times> heap \<Rightarrow> (nat \<times> heap) result" where
  "serializeBuffer buffer src = (\<lambda>ph. bindE (serializeInt buffer (db_size src) ph) (\<lambda>(pos, h).
     bindE (db_chunks h src) (\<lambda>cs. foldE (write_chunk buffer src) cs (pos, h))))"

definition serialize_pair :: "data_buffer \<Rightarrow> string \<times> string \<Rightarrow> nat \<times> heap \<Rightarrow> (nat \<times> heap) result" where
  "serialize_pair buffer it = (\<lambda>ph. bindE (serializeString buffer (fst it) ph)
     (serializeString buffer (snd it)))"

text \<open>The size of the pairs of a container: two strings and two 8-byte lengths each.\<close>

definition pairs_size :: "(string \<times> string) list \<Rightarrow> nat" where
  "pairs_size m = fold (\<lambda>it n. wadd (wadd (wadd n (length (fst it))) (length (snd it))) 16) m 0"

definition argsSerializedSize :: "request_impl \<Rightarrow> nat" where
  "argsSerializedSize r = pairs_size (rq_args r)"

definition filesSerializedSize :: "request_impl \<Rightarrow> nat" where
  "filesSerializedSize r = fold (\<lambda>it n.
     wadd (wadd (wadd (wadd (wadd (wadd (wadd n 8) (length (fst it))) 8)
       (length (file_name (snd it)))) 8) (length (file_type (snd it)))) 16) (rq_files r) 0"

definition write_env :: "request_impl \<Rightarrow> data_buffer \<Rightarrow> nat \<times> heap \<Rightarrow> (nat \<times> heap) result" where
  "write_env r buffer = (\<lambda>ph.
     bindE (serializeInt buffer (pairs_size (rq_headers r)) ph) (\<lambda>ph.
     bindE (foldE (serialize_pair buffer) (rq_headers r) ph) (\<lambda>ph.
     bindE (serializeInt buffer (pairs_size (rq_cookies r)) ph) (\<lambda>ph.
     bindE (foldE (serialize_pair buffer) (rq_cookies r) ph) (\<lambda>ph.
     bindE (serializeInt buffer (pairs_size (rq_vars r)) ph)
       (foldE (serialize_pair buffer) (rq_vars r)))))))"

definition serializeEnv ::
  "request_impl \<Rightarrow> heap \<Rightarrow> data_buffer \<Rightarrow> nat \<Rightarrow> (nat \<times> heap \<times> data_buffer) result" where
  "serializeEnv r h buffer add_size =
     (let header_size = pairs_size (rq_headers r);
          cookie_size = pairs_size (rq_cookies r);
          var_size = pairs_size (rq_vars r)
      in bindE (db_resize h buffer
           (wadd (wadd (wadd (wadd add_size header_size) cookie_size) var_size) 24)) (\<lambda>(h, buffer).
         bindE (write_env r buffer (0, h)) (\<lambda>(pos, h). Inr (pos, h, buffer))))"

definition serialize_file ::
  "data_buffer \<Rightarrow> data_buffer \<Rightarrow> string \<times> uploaded_file \<Rightarrow> nat \<times> heap \<Rightarrow> (nat \<times> heap) result" where
  "serialize_file buffer body it = (\<lambda>ph.
     bindE (serializeString buffer (fst it) ph) (\<lambda>ph.
     bindE (serializeString buffer (file_name (snd it)) ph) (\<lambda>ph.
     bindE (serializeString buffer (file_type (snd it)) ph) (\<lambda>ph.
     let file = file_data (snd it) in
     bindE (serializeInt buffer (wsub (db_begin file) (db_begin body)) ph)
       (serializeInt buffer (wsub (db_end file) (db_begin file)))))))"

definition serializeFiles :: "request_impl \<Rightarrow> data_buffer \<Rightarrow> nat \<times> heap \<Rightarrow> (nat \<times> heap) result" where
  "serializeFiles r buffer = (\<lambda>ph. bindE (serializeInt buffer (filesSerializedSize r) ph)
     (foldE (serialize_file buffer (rq_body r)) (rq_files r)))"

definition serializeArgs :: "request_impl \<Rightarrow> data_buffer \<Rightarrow> nat \<times> heap \<Rightarrow> (nat \<times> heap) result" where
  "serializeArgs r buffer = (\<lambda>ph. bindE (serializeInt buffer (argsSerializedSize r) ph)
     (foldE (serialize_pair buffer) (rq_args r)))"

definition rq_serialize :: "request_impl \<Rightarrow> heap \<Rightarrow> data_buffer \<Rightarrow> (heap \<times> data_buffer) result" where
  "rq_serialize r h buffer =
     (let add_size = wadd (wadd (wadd (wadd (wadd (wadd 0 8) (db_size (rq_body r))) 8)
        (filesSerializedSize r)) 8) (argsSerializedSize r)
      in bindE (serializeEnv r h buffer add_size) (\<lambda>(pos, h, buffer).
         bindE (serializeBuffer buffer (rq_body r) (pos, h)) (\<lambda>ph.
         bindE (serializeFiles r buffer ph) (\<lambda>ph.
         bindE (serializeArgs r buffer ph) (\<lambda>(pos, h). Inr (h, buffer))))))"

section \<open>Reading\<close>

definition bytes_int :: "string \<Rightarrow> nat" where
  "bytes_int bs = foldr (\<lambda>c n. of_char c + 256 * n) bs 0"

text \<open>
  A read that comes short leaves the other bytes of the integer, and the other characters of the
  string, as they were initialised: zero.
\<close>

definition parseInt :: "heap \<Rightarrow> data_buffer \<Rightarrow> nat \<Rightarrow> (nat \<times> nat) result" where
  "parseInt h buffer pos = bindE (db_read h buffer pos 8) (\<lambda>bs.
     Inr (bytes_int bs, wadd pos (length bs)))"

definition string_max_size :: nat where
  "string_max_size = 4611686018427387897"

definition parseString :: "heap \<Rightarrow> data_buffer \<Rightarrow> nat \<Rightarrow> (string \<times> nat) result" where
  "parseString h buffer pos = bindE (parseInt h buffer pos) (\<lambda>(len, pos).
     if len > string_max_size then Inl LengthError
     else bindE (db_read h buffer pos len) (\<lambda>bs.
       Inr (bs @ replicate (len - length bs) NUL, wadd pos (length bs))))"

text \<open>
  The loop \<^verbatim>\<open>while (pos < pos_end)\<close>. Every turn reads at least a byte, so that one turn more than
  the buffer has bytes is enough; \<open>parse_safe\<close> shows that the fuel never runs out.
\<close>

fun fields_loop :: "nat \<Rightarrow> (nat \<Rightarrow> ('s, nat) st) \<Rightarrow> nat \<Rightarrow> nat \<Rightarrow> ('s, nat) st" where
  "fields_loop 0 fld pos pos_end = throwS Diverges"
| "fields_loop (Suc n) fld pos pos_end =
     (if pos < pos_end then bindS (fld pos) (\<lambda>pos. fields_loop n fld pos pos_end) else returnS pos)"

definition parse_section ::
  "heap \<Rightarrow> data_buffer \<Rightarrow> string \<Rightarrow> (nat \<Rightarrow> ('s, nat) st) \<Rightarrow> nat \<Rightarrow> ('s, nat) st" where
  "parse_section h buffer msg fld pos = bindS (liftS (parseInt h buffer pos)) (\<lambda>(field_size, pos).
     let pos_end = wadd pos field_size in
     if pos_end > db_size buffer then throwS (RuntimeError msg)
     else fields_loop (Suc (db_size buffer)) fld pos pos_end)"

definition parse_pair :: "heap \<Rightarrow> data_buffer \<Rightarrow> (string \<Rightarrow> string \<Rightarrow> 's \<Rightarrow> 's) \<Rightarrow> nat \<Rightarrow> ('s, nat) st" where
  "parse_pair h buffer ins pos = bindS (liftS (parseString h buffer pos)) (\<lambda>(nam, pos).
     bindS (liftS (parseString h buffer pos)) (\<lambda>(val, pos).
     bindS (modifyS (ins nam val)) (\<lambda>_. returnS pos)))"

definition rq_parseHeaders :: "heap \<Rightarrow> data_buffer \<Rightarrow> nat \<Rightarrow> (request_impl, nat) st" where
  "rq_parseHeaders h buffer = parse_section h buffer ''Cannot parse request headers''
     (parse_pair h buffer (\<lambda>n v r. r\<lparr>rq_headers := hm_insert StringCIEqual (rq_headers r) n v\<rparr>))"

definition rq_parseCookies :: "heap \<Rightarrow> data_buffer \<Rightarrow> nat \<Rightarrow> (request_impl, nat) st" where
  "rq_parseCookies h buffer = parse_section h buffer ''Cannot parse request cookies''
     (parse_pair h buffer (\<lambda>n v r. r\<lparr>rq_cookies := hm_insert (=) (rq_cookies r) n v\<rparr>))"

definition rq_parseVars :: "heap \<Rightarrow> data_buffer \<Rightarrow> nat \<Rightarrow> (request_impl, nat) st" where
  "rq_parseVars h buffer = parse_section h buffer ''Cannot parse request vars''
     (parse_pair h buffer (\<lambda>n v r. r\<lparr>rq_vars := hm_insert (=) (rq_vars r) n v\<rparr>))"

definition rq_parseBody :: "heap \<Rightarrow> data_buffer \<Rightarrow> nat \<Rightarrow> (request_impl, nat) st" where
  "rq_parseBody h buffer pos = bindS (liftS (parseInt h buffer pos)) (\<lambda>(field_size, pos).
     let pos_end = wadd pos field_size in
     if pos_end > db_size buffer then throwS (RuntimeError ''Cannot parse request body'')
     else bindS (liftS (db_sub h buffer (wadd pos (db_begin buffer)) (wadd pos_end (db_begin buffer))))
       (\<lambda>b. bindS (modifyS (\<lambda>r. r\<lparr>rq_body := b\<rparr>)) (\<lambda>_. returnS pos_end)))"

definition parse_file :: "heap \<Rightarrow> data_buffer \<Rightarrow> nat \<Rightarrow> (request_impl, nat) st" where
  "parse_file h buffer pos =
     bindS (liftS (parseString h buffer pos)) (\<lambda>(nam, pos).
     bindS (liftS (parseString h buffer pos)) (\<lambda>(remote_name, pos).
     bindS (liftS (parseString h buffer pos)) (\<lambda>(type, pos).
     bindS (liftS (parseInt h buffer pos)) (\<lambda>(offset, pos).
     bindS (liftS (parseInt h buffer pos)) (\<lambda>(len, pos).
     bindS getS (\<lambda>r.
     bindS (liftS (db_sub h (rq_body r) (wadd offset (db_begin (rq_body r)))
       (wadd (wadd offset len) (db_begin (rq_body r))))) (\<lambda>file_buffer.
     bindS (liftS (File_of_strings remote_name type file_buffer)) (\<lambda>file.
     bindS (modifyS (\<lambda>r. r\<lparr>rq_files := sm_insert (rq_files r) nam file\<rparr>)) (\<lambda>_.
     returnS pos)))))))))"

definition rq_parseFiles :: "heap \<Rightarrow> data_buffer \<Rightarrow> nat \<Rightarrow> (request_impl, nat) st" where
  "rq_parseFiles h buffer = parse_section h buffer ''Cannot parse request files'' (parse_file h buffer)"

definition rq_parseArgs :: "heap \<Rightarrow> data_buffer \<Rightarrow> nat \<Rightarrow> (request_impl, nat) st" where
  "rq_parseArgs h buffer = parse_section h buffer ''Cannot parse request args''
     (parse_pair h buffer (\<lambda>n v r. r\<lparr>rq_args := rq_args r @ [(n, v)]\<rparr>))"

definition rq_parse :: "heap \<Rightarrow> data_buffer \<Rightarrow> (request_impl, unit) st" where
  "rq_parse h buffer = bindS (rq_parseHeaders h buffer 0) (\<lambda>pos.
     bindS (rq_parseCookies h buffer pos) (\<lambda>pos.
     bindS (rq_parseVars h buffer pos) (\<lambda>pos.
     bindS (rq_parseBody h buffer pos) (\<lambda>pos.
     bindS (rq_parseFiles h buffer pos) (\<lambda>pos.
     bindS (rq_parseArgs h buffer pos) (\<lambda>pos. returnS ()))))))"

section \<open>The image of a request\<close>

definition enc_string :: "string \<Rightarrow> string" where
  "enc_string s = int_bytes (length s) @ s"

definition enc_pair :: "string \<times> string \<Rightarrow> string" where
  "enc_pair kv = enc_string (fst kv) @ enc_string (snd kv)"

definition enc_pairs :: "(string \<times> string) list \<Rightarrow> string" where
  "enc_pairs m = concat (map enc_pair m)"

definition enc_file :: "data_buffer \<Rightarrow> string \<times> uploaded_file \<Rightarrow> string" where
  "enc_file body it = enc_string (fst it) @ enc_string (file_name (snd it)) @
     enc_string (file_type (snd it)) @
     int_bytes (wsub (db_begin (file_data (snd it))) (db_begin body)) @
     int_bytes (wsub (db_end (file_data (snd it))) (db_begin (file_data (snd it))))"

definition enc_files :: "request_impl \<Rightarrow> string" where
  "enc_files r = concat (map (enc_file (rq_body r)) (rq_files r))"

text \<open>A part with its size in front.\<close>

definition sized :: "string \<Rightarrow> string" where
  "sized s = int_bytes (length s) @ s"

definition request_image :: "heap \<Rightarrow> request_impl \<Rightarrow> string" where
  "request_image h r = sized (enc_pairs (rq_headers r)) @ sized (enc_pairs (rq_cookies r)) @
     sized (enc_pairs (rq_vars r)) @ sized (content h (rq_body r)) @ sized (enc_files r) @
     sized (enc_pairs (rq_args r))"

lemma length_int_bytes [simp]: "length (int_bytes v) = 8"
  by (simp add: int_bytes_def)

lemma bytes_int_Cons: "bytes_int (c # bs) = of_char c + 256 * bytes_int bs"
  by (simp add: bytes_int_def)

lemma bytes_int_digits: "bytes_int (map (\<lambda>i. char_of (v div 256 ^ i mod 256)) [0..<n]) = v mod 256 ^ n"
proof (induction n arbitrary: v)
  case 0
  then show ?case by (simp add: bytes_int_def)
next
  case (Suc n)
  have "map (\<lambda>i. char_of (v div 256 ^ i mod 256)) [0..<Suc n] =
      char_of (v mod 256) # map (\<lambda>i. char_of (v div 256 div 256 ^ i mod 256)) [0..<n]"
    by (simp add: upt_conv_Cons map_Suc_upt[symmetric] div_mult2_eq comp_def del: upt_Suc)
  then show ?case
    using Suc.IH[of "v div 256"] by (simp add: bytes_int_Cons mod_mult2_eq del: upt_Suc)
qed

lemma bytes_int_bytes [simp]: "v < two64 \<Longrightarrow> bytes_int (int_bytes v) = v"
  unfolding int_bytes_def bytes_int_digits by (simp add: two64_def)

lemma bytes_int_bound: "bytes_int bs < 256 ^ length bs"
proof (induction bs)
  case Nil
  then show ?case by (simp add: bytes_int_def)
next
  case (Cons c bs)
  have "of_char c < (256::nat)" by (metis of_char_mod_256 mod_less_divisor zero_less_numeral)
  moreover have "256 * bytes_int bs + 256 \<le> 256 * 256 ^ length bs" using Cons by simp
  ultimately have "of_char c + 256 * bytes_int bs < 256 * 256 ^ length bs" by linarith
  then show ?case by (simp add: bytes_int_Cons)
qed

lemma length_enc_string [simp]: "length (enc_string s) = 8 + length s"
  by (simp add: enc_string_def)

lemma length_sized [simp]: "length (sized s) = 8 + length s"
  by (simp add: sized_def)

text \<open>The computed sizes are the lengths of the parts, as long as those do not wrap.\<close>

lemma fold_size:
  assumes "n + length (concat (map g m)) < two64"
    and "\<And>x n. n + length (g x) < two64 \<Longrightarrow> f x n = n + length (g x)"
  shows "fold f m n = n + length (concat (map g m))"
  using assms(1) by (induction m arbitrary: n) (auto simp: assms(2))

lemma pairs_size_length: "length (enc_pairs m) < two64 \<Longrightarrow> pairs_size m = length (enc_pairs m)"
  using fold_size[of 0 enc_pair m "\<lambda>it n. wadd (wadd (wadd n (length (fst it))) (length (snd it))) 16"]
  by (simp add: pairs_size_def enc_pairs_def enc_pair_def wadd_small)

lemma filesSerializedSize_length:
  "length (enc_files r) < two64 \<Longrightarrow> filesSerializedSize r = length (enc_files r)"
  using fold_size[of 0 "enc_file (rq_body r)" "rq_files r" "\<lambda>it n.
     wadd (wadd (wadd (wadd (wadd (wadd (wadd n 8) (length (fst it))) 8)
       (length (file_name (snd it)))) 8) (length (file_type (snd it)))) 16"]
  by (simp add: filesSerializedSize_def enc_files_def enc_file_def wadd_small)

section \<open>The writers produce the image\<close>

text \<open>
  A writer appends \<open>t\<close> to what has been written so far and leaves every storage other than the one
  of the buffer as it was in \<open>h0\<close>.
\<close>

definition writes :: "data_buffer \<Rightarrow> heap \<Rightarrow> (nat \<times> heap \<Rightarrow> (nat \<times> heap) result) \<Rightarrow> string \<Rightarrow> bool" where
  "writes d h0 f t \<longleftrightarrow> (\<forall>h s. db_ok h d \<and> store_frame d h0 h \<and> prefix s (content h d) \<and>
       length s + length t \<le> length (content h d) \<longrightarrow>
     (\<exists>h'. f (length s, h) = Inr (length s + length t, h') \<and> db_ok h' d \<and> store_frame d h0 h' \<and>
        prefix (s @ t) (content h' d) \<and> length (content h' d) = length (content h d) \<and>
        length (heap_bytes h' d) = length (heap_bytes h d)))"

lemma writesD:
  assumes "writes d h0 f t" "db_ok h d" "store_frame d h0 h" "prefix s (content h d)"
    "length s + length t \<le> length (content h d)"
  obtains h' where "f (length s, h) = Inr (length s + length t, h')" "db_ok h' d" "store_frame d h0 h'"
    "prefix (s @ t) (content h' d)" "length (content h' d) = length (content h d)"
    "length (heap_bytes h' d) = length (heap_bytes h d)"
  using assms unfolding writes_def by blast

lemma writes_Inr: "writes d h0 Inr []"
  by (auto simp: writes_def)

lemma writes_seq:
  assumes "writes d h0 f t" "writes d h0 g u"
  shows "writes d h0 (\<lambda>ph. bindE (f ph) g) (t @ u)"
  unfolding writes_def
proof (intro allI impI, elim conjE)
  fix h s
  assume h: "db_ok h d" "store_frame d h0 h" "prefix s (content h d)"
    "length s + length (t @ u) \<le> length (content h d)"
  obtain h1 where h1: "f (length s, h) = Inr (length s + length t, h1)" "db_ok h1 d" "store_frame d h0 h1"
    "prefix (s @ t) (content h1 d)" "length (content h1 d) = length (content h d)"
    "length (heap_bytes h1 d) = length (heap_bytes h d)"
    using writesD[OF assms(1) h(1,2,3)] h(4) by auto
  obtain h2 where "g (length (s @ t), h1) = Inr (length (s @ t) + length u, h2)" "db_ok h2 d"
    "store_frame d h0 h2" "prefix ((s @ t) @ u) (content h2 d)" "length (content h2 d) = length (content h1 d)"
    "length (heap_bytes h2 d) = length (heap_bytes h1 d)"
    using writesD[OF assms(2) h1(2,3,4)] h(4) h1(5) by auto
  with h1 show "\<exists>h'. bindE (f (length s, h)) g = Inr (length s + length (t @ u), h') \<and> db_ok h' d \<and>
      store_frame d h0 h' \<and> prefix (s @ t @ u) (content h' d) \<and> length (content h' d) = length (content h d) \<and>
      length (heap_bytes h' d) = length (heap_bytes h d)"
    by (auto simp: add.assoc)
qed

lemma writes_foldE:
  "(\<And>x. x \<in> set xs \<Longrightarrow> writes d h0 (f x) (g x)) \<Longrightarrow> writes d h0 (foldE f xs) (concat (map g xs))"
proof (induction xs)
  case Nil
  have "foldE f [] = Inr" by auto
  then show ?case by (simp add: writes_Inr)
next
  case (Cons x xs)
  have "foldE f (x # xs) = (\<lambda>ph. bindE (f x ph) (foldE f xs))" by auto
  then show ?case using Cons by (simp add: writes_seq)
qed

lemma prefix_overwrite:
  assumes "prefix s c" "length s + length t \<le> length c"
  shows "prefix (s @ t) (overwrite c (length s) t)"
  using assms by (auto simp: overwrite_def prefix_def)

lemma writes_write:
  assumes "\<And>h. store_frame d h0 h \<Longrightarrow> t h = u"
  shows "writes d h0 (\<lambda>(pos, h). bindE (db_write h d pos (t h)) (\<lambda>(n, h). Inr (wadd pos n, h))) u"
  unfolding writes_def
proof (intro allI impI, elim conjE)
  fix h s
  assume h: "db_ok h d" "store_frame d h0 h" "prefix s (content h d)"
    "length s + length u \<le> length (content h d)"
  obtain h' where h': "db_write h d (length s) u = Inr (length u, h')" "db_ok h' d"
    "content h' d = overwrite (content h d) (length s) u" "store_frame d h h'"
    "length (heap_bytes h' d) = length (heap_bytes h d)"
    using db_write_content[OF h(1) h(4)] by blast
  have "length (content h d) < two64"
    using db_ok_bounds[OF h(1)] by (simp add: content_def)
  then have "wadd (length s) (length u) = length s + length u"
    using h(4) by (simp add: wadd_small)
  then show "\<exists>h'. (case (length s, h) of (pos, h) \<Rightarrow>
        bindE (db_write h d pos (t h)) (\<lambda>(n, h). Inr (wadd pos n, h))) = Inr (length s + length u, h') \<and>
      db_ok h' d \<and> store_frame d h0 h' \<and> prefix (s @ u) (content h' d) \<and>
      length (content h' d) = length (content h d) \<and> length (heap_bytes h' d) = length (heap_bytes h d)"
    using h h' prefix_overwrite[OF h(3,4)] store_frame_trans[OF h(2) h'(4)] assms[OF h(2)] by simp
qed

lemma writes_int: "writes d h0 (serializeInt d v) (int_bytes v)"
  unfolding serializeInt_def by (rule writes_write) simp

lemma writes_string: "writes d h0 (serializeString d s) (enc_string s)"
proof -
  have "writes d h0 (\<lambda>ph. bindE (serializeInt d (length s) ph)
      (\<lambda>(pos, h). bindE (db_write h d pos s) (\<lambda>(n, h). Inr (wadd pos n, h)))) (int_bytes (length s) @ s)"
    by (intro writes_seq writes_int writes_write) simp
  then show ?thesis
    by (simp add: serializeString_def enc_string_def)
qed

lemma writes_pair: "writes d h0 (serialize_pair d it) (enc_pair it)"
  unfolding serialize_pair_def enc_pair_def by (intro writes_seq writes_string)

lemma writes_pairs: "writes d h0 (foldE (serialize_pair d) m) (enc_pairs m)"
  unfolding enc_pairs_def by (intro writes_foldE writes_pair)

lemma writes_file: "writes d h0 (serialize_file d body it) (enc_file body it)"
  unfolding serialize_file_def enc_file_def Let_def by (intro writes_seq writes_string writes_int)

lemma writes_files:
  "length (enc_files r) < two64 \<Longrightarrow> writes d h0 (serializeFiles r d) (sized (enc_files r))"
  unfolding serializeFiles_def sized_def
  by (simp add: filesSerializedSize_length, unfold enc_files_def)
     (intro writes_seq writes_int writes_foldE writes_file)

lemma writes_args:
  "length (enc_pairs (rq_args r)) < two64 \<Longrightarrow> writes d h0 (serializeArgs r d) (sized (enc_pairs (rq_args r)))"
  unfolding serializeArgs_def sized_def argsSerializedSize_def
  by (simp add: pairs_size_length writes_seq writes_int writes_pairs)

lemma tiles_concat: "tiles p e cs \<Longrightarrow> concat (map (chunk_bytes s) cs) = between s p e"
proof (induction cs arbitrary: p)
  case Nil
  then show ?case by simp
next
  case (Cons c cs)
  then show ?case
    using tiles_le[of "p + snd c" e cs] between_split[of p "p + snd c" e s]
    by (auto simp: chunk_bytes_def)
qed

lemma db_chunks_concat:
  assumes "db_ok h d"
  obtains cs where "db_chunks h d = Inr cs" "concat (map (chunk_bytes (heap_bytes h d)) cs) = content h d"
  using db_chunks_ok[OF assms] tiles_concat[of "db_begin d" "db_end d" _ "heap_bytes h d"] that
  by (auto simp: content_def split: if_splits)

text \<open>The body lies in another storage than the buffer the request is written to.\<close>

lemma store_frame_chunks:
  assumes "store_frame d h0 h" "db_data src \<noteq> db_data d" "db_ok h0 src"
  shows "heap_bytes h src = heap_bytes h0 src" "db_chunks h src = db_chunks h0 src"
proof -
  have eq: "db_impl h x = db_impl h0 x" "heap_bytes h x = heap_bytes h0 x" if "db_data x \<noteq> db_data d" for x
    using assms(1) that by (auto simp: store_frame_def db_impl_def heap_bytes_def split: option.splits)
  show "heap_bytes h src = heap_bytes h0 src" using eq assms(2) by simp
  have same: "si_deref h it = si_deref h0 it" "si_next h it = si_next h0 it" if "si_buffer it = src" for it
    using eq assms(2) that by (simp_all add: si_deref_def si_next_def)
  have stays: "si_next h0 it = Inr it' \<Longrightarrow> si_buffer it = src \<Longrightarrow> si_buffer it' = src \<or> it' = si_default" for it it'
    by (auto simp: si_next_def split: if_splits)
  have fin: "si_is_end si_default" by (simp add: si_is_end_def si_default_def db_nil_def)
  have walk: "seg_walk n h it = seg_walk n h0 it" if "si_buffer it = src \<or> it = si_default" for n it
    using that
  proof (induction n arbitrary: it)
    case (Suc n)
    show ?case
    proof (cases "si_is_end it")
      case False
      then have "si_buffer it = src" using Suc.prems fin by auto
      then show ?thesis
        using Suc.IH stays same False by (auto intro!: bindE_cong)
    qed simp
  qed simp
  have "si_first h src = si_first h0 src"
    using eq assms(2) by (simp add: si_first_def)
  moreover have "si_first h0 src = Inr it \<Longrightarrow> si_buffer it = src \<or> it = si_default" for it
    by (auto simp: si_first_def split: if_splits)
  ultimately show "db_chunks h src = db_chunks h0 src"
    unfolding db_chunks_def using walk by (intro bindE_cong) blast+
qed

lemma writes_chunks:
  assumes "db_data src \<noteq> db_data d" "db_ok h0 src"
  shows "writes d h0 (\<lambda>(pos, h). bindE (db_chunks h src) (\<lambda>cs. foldE (write_chunk d src) cs (pos, h)))
    (content h0 src)"
proof -
  obtain cs where cs: "db_chunks h0 src = Inr cs" "concat (map (chunk_bytes (heap_bytes h0 src)) cs) = content h0 src"
    using db_chunks_concat[OF assms(2)] .
  have "writes d h0 (write_chunk d src c) (chunk_bytes (heap_bytes h0 src) c)" for c
    unfolding write_chunk_def using store_frame_chunks(1)[OF _ assms] by (intro writes_write) metis
  then have w: "writes d h0 (foldE (write_chunk d src) cs) (content h0 src)"
    using writes_foldE[of cs d h0 "write_chunk d src" "chunk_bytes (heap_bytes h0 src)"] cs(2) by simp
  have "db_chunks h src = Inr cs" if "store_frame d h0 h" for h
    using store_frame_chunks(2)[OF that assms] cs(1) by (simp only:)
  then show ?thesis
    using w by (simp add: writes_def)
qed

lemma writes_buffer:
  assumes "db_data src \<noteq> db_data d" "db_ok h0 src"
  shows "writes d h0 (serializeBuffer d src) (sized (content h0 src))"
  unfolding serializeBuffer_def sized_def using assms(2)
  by (simp add: writes_seq writes_int writes_chunks[OF assms])

section \<open>Serialization\<close>

lemma length_request_image:
  "length (request_image h r) = 48 + length (enc_pairs (rq_headers r)) + length (enc_pairs (rq_cookies r)) +
     length (enc_pairs (rq_vars r)) + length (content h (rq_body r)) + length (enc_files r) +
     length (enc_pairs (rq_args r))"
  by (simp add: request_image_def)

text \<open>The image of the environment, the first three parts.\<close>

definition env_image :: "request_impl \<Rightarrow> string" where
  "env_image r = sized (enc_pairs (rq_headers r)) @ sized (enc_pairs (rq_cookies r)) @
     sized (enc_pairs (rq_vars r))"

lemma length_env_image:
  "length (env_image r) = 24 + length (enc_pairs (rq_headers r)) + length (enc_pairs (rq_cookies r)) +
     length (enc_pairs (rq_vars r))"
  by (simp add: env_image_def)

lemma pairs_size_env:
  assumes "length (env_image r) < two64"
  shows "pairs_size (rq_headers r) = length (enc_pairs (rq_headers r))"
    "pairs_size (rq_cookies r) = length (enc_pairs (rq_cookies r))"
    "pairs_size (rq_vars r) = length (enc_pairs (rq_vars r))"
  using assms by (simp_all add: length_env_image pairs_size_length)

lemma writes_env:
  assumes "length (env_image r) < two64"
  shows "writes d h0 (write_env r d) (env_image r)"
  unfolding env_image_def sized_def append_assoc write_env_def pairs_size_env[OF assms]
  by (intro writes_seq writes_int writes_pairs)

text \<open>A buffer that is a whole storage, and has no other view of it taken into account.\<close>

definition whole_buffer :: "heap \<Rightarrow> data_buffer \<Rightarrow> bool" where
  "whole_buffer h d \<longleftrightarrow> db_ok h d \<and> db_data d \<noteq> None \<and> db_begin d = 0 \<and> db_end d = length (heap_bytes h d)"

lemma writes_whole:
  assumes "writes d h f t" "whole_buffer h d" "prefix s (content h d)"
    "length s + length t \<le> length (content h d)"
  obtains h' where "f (length s, h) = Inr (length s + length t, h')" "whole_buffer h' d" "store_frame d h h'"
    "prefix (s @ t) (content h' d)" "length (content h' d) = length (content h d)"
proof -
  have "db_ok h d" using assms(2) by (simp add: whole_buffer_def)
  from writesD[OF assms(1) this store_frame_refl assms(3,4)] obtain h' where
    "f (length s, h) = Inr (length s + length t, h')" "db_ok h' d" "store_frame d h h'"
    "prefix (s @ t) (content h' d)" "length (content h' d) = length (content h d)"
    "length (heap_bytes h' d) = length (heap_bytes h d)" .
  then show ?thesis
    using assms(2) by (intro that[of h']) (simp_all add: whole_buffer_def)
qed

lemma serializeEnv_content:
  assumes "whole_buffer h d" "length (env_image r) + add_size < two64"
  shows "\<exists>h' d'. serializeEnv r h d add_size = Inr (length (env_image r), h', d') \<and> whole_buffer h' d' \<and>
    db_data d' = db_data d \<and> store_frame d h h' \<and> prefix (env_image r) (content h' d') \<and>
    length (content h' d') = length (env_image r) + add_size"
proof -
  let ?n = "length (env_image r) + add_size"
  have n: "wadd (wadd (wadd (wadd add_size (pairs_size (rq_headers r))) (pairs_size (rq_cookies r)))
      (pairs_size (rq_vars r))) 24 = ?n"
    using assms(2) by (simp add: pairs_size_env length_env_image wadd_small)
  obtain a where a: "db_data d = Some a" using assms(1) by (auto simp: whole_buffer_def)
  obtain h1 d1 where 1: "db_resize h d ?n = Inr (h1, d1)" "whole_buffer h1 d1"
    "content h1 d1 = vec_resize (content h d) ?n" "db_data d1 = Some a" "store_frame d h h1"
    using db_resize_content[OF _ a, of h ?n] assms a by (auto simp: whole_buffer_def)
  have len: "length (content h1 d1) = ?n" using 1(3) by simp
  have "writes d1 h1 (write_env r d1) (env_image r)" using assms(2) by (simp add: writes_env)
  then obtain h2 where 2: "write_env r d1 (0, h1) = Inr (length (env_image r), h2)" "whole_buffer h2 d1"
    "store_frame d1 h1 h2" "prefix (env_image r) (content h2 d1)" "length (content h2 d1) = ?n"
    using writes_whole[OF _ 1(2), of "write_env r d1" "env_image r" "[]"] len
    by (metis append_Nil length_0_conv add_0 prefix_bot.bot_least bot_list_def le_add1)
  have "serializeEnv r h d add_size = Inr (length (env_image r), h2, d1)"
    using 1(1) 2(1) by (simp add: serializeEnv_def Let_def n)
  moreover have "store_frame d h h2"
    using 1(4,5) 2(3) a by (auto simp: store_frame_def)
  ultimately show ?thesis
    using 1(4) 2 a by auto
qed

text \<open>
  The whole request: the buffer holds the image and nothing else. The body lies in another storage
  and the image is short enough for its size to be a 64-bit integer.
\<close>

lemma serialize_content:
  assumes "whole_buffer h d" "db_ok h (rq_body r)" "db_data (rq_body r) \<noteq> db_data d"
    "length (request_image h r) < two64"
  shows "\<exists>h' d'. rq_serialize r h d = Inr (h', d') \<and> whole_buffer h' d' \<and> db_data d' = db_data d \<and>
    store_frame d h h' \<and> content h' d' = request_image h r"
proof -
  let ?b = "content h (rq_body r)" and ?add = "24 + length (content h (rq_body r)) + length (enc_files r) + length (enc_pairs (rq_args r))"
  have fits: "length (enc_files r) < two64" "length (enc_pairs (rq_args r)) < two64" "length (env_image r) + ?add < two64"
    using assms(4) by (simp_all add: length_request_image length_env_image)
  have add: "wadd (wadd (wadd (wadd (wadd (wadd 0 8) (db_size (rq_body r))) 8) (filesSerializedSize r)) 8)
      (argsSerializedSize r) = ?add"
    using fits assms(2)
    by (simp add: filesSerializedSize_length argsSerializedSize_def pairs_size_length wadd_small)
  obtain h1 d1 where 1: "serializeEnv r h d ?add = Inr (length (env_image r), h1, d1)" "whole_buffer h1 d1"
    "db_data d1 = db_data d" "store_frame d h h1" "prefix (env_image r) (content h1 d1)"
    "length (content h1 d1) = length (env_image r) + ?add"
    using serializeEnv_content[OF assms(1) fits(3)] by blast
  have body: "db_ok h1 (rq_body r)" "content h1 (rq_body r) = ?b" "db_data (rq_body r) \<noteq> db_data d1"
    using store_frame_other[OF 1(4) assms(3)] assms(2,3) 1(3) by simp_all
  let ?rest = "sized ?b @ sized (enc_files r) @ sized (enc_pairs (rq_args r))"
  have w: "writes d1 h1 (\<lambda>ph. bindE (serializeBuffer d1 (rq_body r) ph) (\<lambda>ph.
      bindE (serializeFiles r d1 ph) (serializeArgs r d1))) ?rest"
    using writes_buffer[OF body(3,1)] body(2) fits by (intro writes_seq writes_files writes_args) simp_all
  have l: "length (env_image r) + length ?rest \<le> length (content h1 d1)"
    using 1(6) by simp
  obtain h2 where 2: "bindE (serializeBuffer d1 (rq_body r) (length (env_image r), h1)) (\<lambda>ph.
      bindE (serializeFiles r d1 ph) (serializeArgs r d1)) = Inr (length (env_image r) + length ?rest, h2)"
    "whole_buffer h2 d1" "store_frame d1 h1 h2" "prefix (env_image r @ ?rest) (content h2 d1)"
    "length (content h2 d1) = length (content h1 d1)"
    by (rule writes_whole[OF w 1(2) 1(5) l])
  have "content h2 d1 = env_image r @ ?rest"
    using 2(4,5) 1(6) by (auto simp: prefix_def)
  moreover have "rq_serialize r h d = Inr (h2, d1)"
    using 1(1) 2(1) by (auto simp: rq_serialize_def add)
  moreover have "store_frame d h h2"
    using 1(3,4) 2(3) by (auto simp: store_frame_def)
  ultimately show ?thesis
    using 2(2) 1(3) by (auto simp: request_image_def env_image_def)
qed

end
