(* ===== verification/Request_Roundtrip.thy ===== *)
theory Request_Roundtrip
  imports Request_Serialize
begin

text \<open>
  The readers of the binary form of a request: on the image of a request they rebuild it
  (\<open>parse_image\<close>), and on a buffer with any other bytes they come to an end without leaving the
  buffer (\<open>parse_safe\<close>).
\<close>

section \<open>Reading back what was written\<close>

text \<open>The text at a position of the buffer.\<close>

definition reads :: "heap \<Rightarrow> data_buffer \<Rightarrow> nat \<Rightarrow> string \<Rightarrow> bool" where
  "reads h d pos t \<longleftrightarrow> prefix t (drop pos (content h d))"

lemma reads_append: "reads h d pos (t @ u) \<longleftrightarrow> reads h d pos t \<and> reads h d (pos + length t) u"
proof -
  have "prefix (t @ u) s \<longleftrightarrow> prefix t s \<and> prefix u (drop (length t) s)" for s
    by (auto simp: prefix_def)
  then show ?thesis
    by (simp add: reads_def add.commute)
qed

lemma reads_take: "reads h d pos t \<Longrightarrow> take (length t) (drop pos (content h d)) = t"
  by (auto simp: reads_def prefix_def)

lemma reads_bound:
  assumes "db_ok h d" "reads h d pos t" "t \<noteq> []"
  shows "pos + length t \<le> length (content h d)" "pos + length t < two64"
proof -
  have "length t \<le> length (content h d) - pos"
    using assms(2) prefix_length_le[of t "drop pos (content h d)"] by (simp add: reads_def)
  moreover have "0 < length t" using assms(3) by simp
  ultimately show "pos + length t \<le> length (content h d)" by linarith
  moreover have "length (content h d) < two64"
    using db_ok_bounds[OF assms(1)] by (simp add: content_def)
  ultimately show "pos + length t < two64" by linarith
qed

lemma int_bytes_ne [simp]: "int_bytes v \<noteq> []"
  using length_int_bytes[of v] by fastforce

lemma parseInt_reads:
  assumes "db_ok h d" "reads h d pos (int_bytes v)" "v < two64"
  shows "parseInt h d pos = Inr (v, pos + 8)"
  using assms db_read_content[OF assms(1), of pos 8] reads_take[OF assms(2)] reads_bound[OF assms(1,2)]
  by (simp add: parseInt_def wadd_small)

lemma parseString_reads:
  assumes "db_ok h d" "reads h d pos (enc_string s)" "length s \<le> string_max_size"
  shows "parseString h d pos = Inr (s, pos + length (enc_string s))"
proof -
  have r: "reads h d pos (int_bytes (length s))" "reads h d (pos + 8) s"
    using assms(2) by (simp_all add: enc_string_def reads_append)
  have "length s < two64"
    using assms(3) by (simp add: string_max_size_def two64_def)
  then have "parseInt h d pos = Inr (length s, pos + 8)"
    using parseInt_reads[OF assms(1) r(1)] by simp
  moreover have "db_read h d (pos + 8) (length s) = Inr s"
    using db_read_content[OF assms(1)] reads_take[OF r(2)] by simp
  moreover have "enc_string s \<noteq> []" by (simp add: enc_string_def)
  ultimately show ?thesis
    using reads_bound[OF assms(1,2)] assms(3) by (simp add: parseString_def wadd_small add.assoc)
qed

lemma fields_loop_reads:
  assumes "\<And>x pos s. x \<in> set xs \<Longrightarrow> reads h d pos (g x) \<Longrightarrow> I s \<Longrightarrow>
      fld pos s = (Inr (pos + length (g x)), upd x s) \<and> I (upd x s)"
    and "\<And>x. x \<in> set xs \<Longrightarrow> g x \<noteq> []"
    and "reads h d pos (concat (map g xs))" "I s" "length xs < n"
  shows "fields_loop n fld pos (pos + length (concat (map g xs))) s =
    (Inr (pos + length (concat (map g xs))), fold upd xs s)"
  using assms
proof (induction xs arbitrary: pos s n)
  case Nil
  then show ?case by (cases n) (simp_all add: returnS_def)
next
  case (Cons x xs)
  obtain m where n: "n = Suc m" "length xs < m" using Cons.prems(5) by (cases n) auto
  have r: "reads h d pos (g x)" "reads h d (pos + length (g x)) (concat (map g xs))"
    using Cons.prems(3) by (simp_all add: reads_append)
  have step: "fld pos s = (Inr (pos + length (g x)), upd x s)" "I (upd x s)"
    using Cons.prems(1)[of x pos s] Cons.prems(4) r(1) by simp_all
  have "fields_loop m fld (pos + length (g x)) (pos + length (g x) + length (concat (map g xs))) (upd x s) =
      (Inr (pos + length (g x) + length (concat (map g xs))), fold upd xs (upd x s))"
    using Cons.prems(1,2) step(2) r(2) n(2) by (intro Cons.IH) simp_all
  moreover have "0 < length (g x)" using Cons.prems(2)[of x] by simp
  ultimately show ?case
    using step(1) n(1) by (simp add: bindS_def add.assoc)
qed

lemma length_concat_ge: "(\<And>x. x \<in> set xs \<Longrightarrow> g x \<noteq> []) \<Longrightarrow> length xs \<le> length (concat (map g xs))"
proof (induction xs)
  case (Cons x xs)
  moreover have "0 < length (g x)" using Cons.prems[of x] by simp
  ultimately show ?case by (simp del: length_greater_0_conv)
qed simp

lemma parse_section_reads:
  assumes "db_ok h d" "reads h d pos (sized (concat (map g xs)))"
    and "\<And>x pos s. x \<in> set xs \<Longrightarrow> reads h d pos (g x) \<Longrightarrow> I s \<Longrightarrow>
      fld pos s = (Inr (pos + length (g x)), upd x s) \<and> I (upd x s)"
    and "\<And>x. x \<in> set xs \<Longrightarrow> g x \<noteq> []" "I s"
  shows "parse_section h d msg fld pos s =
    (Inr (pos + length (sized (concat (map g xs)))), fold upd xs s)"
proof -
  let ?t = "concat (map g xs)"
  have r: "reads h d pos (int_bytes (length ?t))" "reads h d (pos + 8) ?t"
    using assms(2) by (simp_all add: sized_def reads_append)
  have "sized ?t \<noteq> []" by (simp add: sized_def)
  then have bound: "pos + 8 + length ?t \<le> length (content h d)" "pos + 8 + length ?t < two64"
    using reads_bound[OF assms(1,2)] by (simp_all add: add.assoc)
  have "parseInt h d pos = Inr (length ?t, pos + 8)"
    using parseInt_reads[OF assms(1) r(1)] bound(2) by simp
  moreover have "wadd (pos + 8) (length ?t) = pos + 8 + length ?t" "\<not> pos + 8 + length ?t > db_size d"
    using bound assms(1) by (simp_all add: wadd_small)
  moreover have "length xs < Suc (db_size d)"
    using length_concat_ge[of xs g] assms(4) bound(1) assms(1) by simp
  then have "fields_loop (Suc (db_size d)) fld (pos + 8) (pos + 8 + length ?t) s =
      (Inr (pos + 8 + length ?t), fold upd xs s)"
    using assms(3-5) r(2) by (intro fields_loop_reads[where I = I]) simp_all
  ultimately show ?thesis
    by (simp add: parse_section_def bindS_def liftS_def Let_def add.assoc del: fields_loop.simps)
qed

section \<open>The parts of the request\<close>

lemma parse_pair_reads:
  assumes "db_ok h d" "reads h d pos (enc_pair x)" "length (fst x) \<le> string_max_size"
    "length (snd x) \<le> string_max_size"
  shows "parse_pair h d ins pos s = (Inr (pos + length (enc_pair x)), ins (fst x) (snd x) s)"
proof -
  have "reads h d pos (enc_string (fst x))" "reads h d (pos + length (enc_string (fst x))) (enc_string (snd x))"
    using assms(2) by (simp_all add: enc_pair_def reads_append)
  then show ?thesis
    using parseString_reads[OF assms(1)] assms(3,4)
    by (simp add: parse_pair_def bindS_def liftS_def modifyS_def returnS_def enc_pair_def add.assoc)
qed

definition small_strings :: "(string \<times> string) list \<Rightarrow> bool" where
  "small_strings m \<longleftrightarrow> (\<forall>x\<in>set m. length (fst x) \<le> string_max_size \<and> length (snd x) \<le> string_max_size)"

lemma small_stringsI:
  assumes "length (enc_pairs m) \<le> string_max_size"
  shows "small_strings m"
proof -
  have "length (enc_pair x) \<le> length (enc_pairs m)" if "x \<in> set m" for x
    using that by (auto simp: enc_pairs_def length_concat intro: member_le_sum_list)
  then show ?thesis
    using assms by (fastforce simp: small_strings_def enc_pair_def)
qed

lemma parse_pairs_reads:
  assumes "db_ok h d" "reads h d pos (sized (enc_pairs m))" "small_strings m"
  shows "parse_section h d msg (parse_pair h d ins) pos s =
    (Inr (pos + length (sized (enc_pairs m))), fold (\<lambda>x. ins (fst x) (snd x)) m s)"
  unfolding enc_pairs_def
proof (rule parse_section_reads[where I = "\<lambda>_. True"])
  show "reads h d pos (sized (concat (map enc_pair m)))" using assms(2) by (simp add: enc_pairs_def)
  show "enc_pair x \<noteq> []" for x by (simp add: enc_pair_def enc_string_def)
qed (use assms in \<open>auto simp: small_strings_def parse_pair_reads\<close>)

lemma fold_field:
  assumes "\<And>x r. f x r = upd (g x (get r)) r" "\<And>v w r. upd v (upd w r) = upd v r" "\<And>v r. get (upd v r) = v"
    and "\<And>r. upd (get r) r = r"
  shows "fold f m r = upd (fold g m (get r)) r"
  using assms by (induction m arbitrary: r) simp_all

lemma parseHeaders_reads:
  assumes "db_ok h d" "reads h d pos (sized (enc_pairs m))" "small_strings m"
    "hm_distinct StringCIEqual m" "rq_headers r = []"
  shows "rq_parseHeaders h d pos r = (Inr (pos + length (sized (enc_pairs m))), r\<lparr>rq_headers := m\<rparr>)"
proof -
  have "fold (\<lambda>x r. r\<lparr>rq_headers := hm_insert StringCIEqual (rq_headers r) (fst x) (snd x)\<rparr>) m r =
      r\<lparr>rq_headers := fold (\<lambda>x acc. hm_insert StringCIEqual acc (fst x) (snd x)) m (rq_headers r)\<rparr>"
    by (rule fold_field) simp_all
  then show ?thesis
    using header_map.insert_all_distinct[of "[]" m] assms(4,5)
    by (simp add: rq_parseHeaders_def case_prod_unfold parse_pairs_reads[OF assms(1-3)])
qed

lemma parseCookies_reads:
  assumes "db_ok h d" "reads h d pos (sized (enc_pairs m))" "small_strings m"
    "hm_distinct (=) m" "rq_cookies r = []"
  shows "rq_parseCookies h d pos r = (Inr (pos + length (sized (enc_pairs m))), r\<lparr>rq_cookies := m\<rparr>)"
proof -
  have "fold (\<lambda>x r. r\<lparr>rq_cookies := hm_insert (=) (rq_cookies r) (fst x) (snd x)\<rparr>) m r =
      r\<lparr>rq_cookies := fold (\<lambda>x acc. hm_insert (=) acc (fst x) (snd x)) m (rq_cookies r)\<rparr>"
    by (rule fold_field) simp_all
  then show ?thesis
    using var_map.insert_all_distinct[of "[]" m] assms(4,5)
    by (simp add: rq_parseCookies_def case_prod_unfold parse_pairs_reads[OF assms(1-3)])
qed

lemma parseVars_reads:
  assumes "db_ok h d" "reads h d pos (sized (enc_pairs m))" "small_strings m"
    "hm_distinct (=) m" "rq_vars r = []"
  shows "rq_parseVars h d pos r = (Inr (pos + length (sized (enc_pairs m))), r\<lparr>rq_vars := m\<rparr>)"
proof -
  have "fold (\<lambda>x r. r\<lparr>rq_vars := hm_insert (=) (rq_vars r) (fst x) (snd x)\<rparr>) m r =
      r\<lparr>rq_vars := fold (\<lambda>x acc. hm_insert (=) acc (fst x) (snd x)) m (rq_vars r)\<rparr>"
    by (rule fold_field) simp_all
  then show ?thesis
    using var_map.insert_all_distinct[of "[]" m] assms(4,5)
    by (simp add: rq_parseVars_def case_prod_unfold parse_pairs_reads[OF assms(1-3)])
qed

lemma parseArgs_reads:
  assumes "db_ok h d" "reads h d pos (sized (enc_pairs m))" "small_strings m"
  shows "rq_parseArgs h d pos r = (Inr (pos + length (sized (enc_pairs m))), r\<lparr>rq_args := rq_args r @ m\<rparr>)"
proof -
  have "fold (\<lambda>x r. r\<lparr>rq_args := rq_args r @ [(fst x, snd x)]\<rparr>) m r =
      r\<lparr>rq_args := fold (\<lambda>x acc. acc @ [(fst x, snd x)]) m (rq_args r)\<rparr>"
    by (rule fold_field) simp_all
  moreover have "fold (\<lambda>x acc. acc @ [(fst x, snd x)]) m acc = acc @ m" for acc
    by (induction m arbitrary: acc) simp_all
  ultimately show ?thesis
    by (simp add: rq_parseArgs_def parse_pairs_reads[OF assms])
qed

text \<open>A view of \<open>n\<close> bytes at position \<open>pos\<close> of a whole buffer.\<close>

definition view :: "data_buffer \<Rightarrow> nat \<Rightarrow> nat \<Rightarrow> data_buffer" where
  "view d pos n = \<lparr>db_data = db_data d, db_begin = pos, db_end = pos + n\<rparr>"

lemma db_sub_view:
  assumes "whole_buffer h d" "pos + n \<le> length (content h d)" "db_data x = db_data d"
  shows "db_sub h x pos (pos + n) = Inr (view d pos n)"
proof -
  obtain a where "db_data d = Some a" "a < length h"
    using assms(1) by (auto simp: whole_buffer_def db_ok_def split: option.splits)
  then show ?thesis
    using assms by (auto simp: db_sub_def db_impl_def view_def whole_buffer_def content_def heap_bytes_def
        impl_size_def)
qed

lemma view_content:
  assumes "whole_buffer h d" "pos + n \<le> length (content h d)"
  shows "db_ok h (view d pos n)" "content h (view d pos n) = take n (drop pos (content h d))"
  using assms
  by (auto simp: view_def whole_buffer_def db_ok_def content_def heap_bytes_def between_def split: option.splits)

lemma whole_buffer_ok [simp]: "whole_buffer h d \<Longrightarrow> db_ok h d"
  and whole_buffer_begin [simp]: "whole_buffer h d \<Longrightarrow> db_begin d = 0"
  by (simp_all add: whole_buffer_def)

lemma parseBody_reads:
  assumes "whole_buffer h d" "reads h d pos (sized b)"
  shows "rq_parseBody h d pos r = (Inr (pos + length (sized b)), r\<lparr>rq_body := view d (pos + 8) (length b)\<rparr>)"
proof -
  have ok: "db_ok h d" using assms(1) by simp
  have r: "reads h d pos (int_bytes (length b))"
    using assms(2) by (simp add: sized_def reads_append)
  have "sized b \<noteq> []" by (simp add: sized_def)
  then have bound: "pos + 8 + length b \<le> length (content h d)" "pos + 8 + length b < two64"
    using reads_bound[OF ok assms(2)] by (simp_all add: add.assoc)
  have "parseInt h d pos = Inr (length b, pos + 8)"
    using parseInt_reads[OF ok r] bound(2) by simp
  moreover have "\<not> pos + 8 + length b > db_size d"
    using bound(1) ok by simp
  moreover have "wadd (pos + 8) (length b) = pos + 8 + length b" "wadd (pos + 8) 0 = pos + 8"
    "wadd (pos + 8 + length b) 0 = pos + 8 + length b"
    using bound by (simp_all add: wadd_small)
  ultimately show ?thesis
    using bound db_sub_view[OF assms(1) bound(1) refl] assms(1)
    by (simp add: rq_parseBody_def bindS_def liftS_def modifyS_def returnS_def Let_def add.assoc)
qed

text \<open>An uploaded file is a part of the body; its copy is the same part of the copied body.\<close>

definition file_ok :: "data_buffer \<Rightarrow> uploaded_file \<Rightarrow> bool" where
  "file_ok body f \<longleftrightarrow> file_name f \<noteq> [] \<and> db_data (file_data f) = db_data body \<and>
     db_begin body \<le> db_begin (file_data f) \<and> db_begin (file_data f) \<le> db_end (file_data f) \<and>
     db_end (file_data f) \<le> db_end body"

definition relocate :: "data_buffer \<Rightarrow> nat \<Rightarrow> data_buffer \<Rightarrow> uploaded_file \<Rightarrow> uploaded_file" where
  "relocate d bpos body f = f\<lparr>file_data := view d (bpos + (db_begin (file_data f) - db_begin body))
     (db_end (file_data f) - db_begin (file_data f))\<rparr>"

lemma parse_file_reads:
  assumes w: "whole_buffer h d" and r: "reads h d pos (enc_file body x)"
    and small: "length (enc_file body x) \<le> string_max_size"
    and f: "file_ok body (snd x)" "db_end body < two64"
    and b: "rq_body s = view d bpos (db_end body - db_begin body)"
      "bpos + (db_end body - db_begin body) \<le> length (content h d)"
  shows "parse_file h d pos s = (Inr (pos + length (enc_file body x)),
    s\<lparr>rq_files := sm_insert (rq_files s) (fst x) (relocate d bpos body (snd x))\<rparr>)"
proof -
  let ?fd = "file_data (snd x)"
  let ?off = "db_begin ?fd - db_begin body" and ?len = "db_end ?fd - db_begin ?fd"
  let ?p1 = "pos + length (enc_string (fst x))"
  let ?p2 = "?p1 + length (enc_string (file_name (snd x)))"
  let ?p3 = "?p2 + length (enc_string (file_type (snd x)))"
  have ok: "db_ok h d" using w by simp
  have len: "length (content h d) < two64"
    using db_ok_bounds[OF ok] by (simp add: content_def)
  have enc: "enc_file body x = enc_string (fst x) @ enc_string (file_name (snd x)) @
      enc_string (file_type (snd x)) @ int_bytes ?off @ int_bytes ?len"
    using f by (simp add: enc_file_def file_ok_def wsub_small)
  have rs: "reads h d pos (enc_string (fst x))" "reads h d ?p1 (enc_string (file_name (snd x)))"
    "reads h d ?p2 (enc_string (file_type (snd x)))" "reads h d ?p3 (int_bytes ?off)"
    "reads h d (?p3 + 8) (int_bytes ?len)"
    using r unfolding enc reads_append by (simp_all add: add.assoc)
  have sizes: "length (fst x) \<le> string_max_size" "length (file_name (snd x)) \<le> string_max_size"
    "length (file_type (snd x)) \<le> string_max_size"
    using small unfolding enc by simp_all
  have "?off < two64" "?len < two64" using f by (auto simp: file_ok_def)
  then have ints: "parseInt h d ?p3 = Inr (?off, ?p3 + 8)" "parseInt h d (?p3 + 8) = Inr (?len, ?p3 + 16)"
    using parseInt_reads[OF ok] rs(4,5) by (simp_all add: add.assoc)
  have part: "?off + ?len \<le> db_end body - db_begin body" using f(1) by (auto simp: file_ok_def)
  have adds: "wadd ?off bpos = bpos + ?off" "wadd ?off ?len = ?off + ?len"
    "wadd (?off + ?len) bpos = bpos + ?off + ?len"
    using part b(2) len by (simp_all add: wadd_small)
  have "db_sub h (rq_body s) (bpos + ?off) (bpos + ?off + ?len) = Inr (view d (bpos + ?off) ?len)"
    using part b by (intro db_sub_view[OF w]) (simp_all add: view_def)
  then have sub: "db_sub h (rq_body s) (wadd ?off (db_begin (rq_body s)))
      (wadd (wadd ?off ?len) (db_begin (rq_body s))) = Inr (view d (bpos + ?off) ?len)"
    using adds b(1) by (simp add: view_def)
  have "File_of_strings (file_name (snd x)) (file_type (snd x)) (view d (bpos + ?off) ?len) =
      Inr (relocate d bpos body (snd x))"
    using f(1) by (simp add: File_of_strings_def relocate_def file_ok_def)
  moreover have "?p3 + 16 = pos + length (enc_file body x)"
    unfolding enc by (simp add: add.assoc)
  ultimately show ?thesis
    using sub ints
    by (simp add: parse_file_def bindS_def liftS_def getS_def modifyS_def returnS_def
        parseString_reads[OF ok rs(1) sizes(1)] parseString_reads[OF ok rs(2) sizes(2)]
        parseString_reads[OF ok rs(3) sizes(3)] del: length_enc_string)
qed

definition relocate_all ::
  "data_buffer \<Rightarrow> nat \<Rightarrow> data_buffer \<Rightarrow> (string, uploaded_file) entries \<Rightarrow> (string, uploaded_file) entries" where
  "relocate_all d bpos body fs = map (\<lambda>x. (fst x, relocate d bpos body (snd x))) fs"

lemma fold_relocate:
  assumes "sm_sorted fs"
  shows "fold (\<lambda>x acc. sm_insert acc (fst x) (relocate d bpos body (snd x))) fs [] = relocate_all d bpos body fs"
proof -
  have "sm_sorted (relocate_all d bpos body fs)"
    using assms by (simp add: sm_sorted_def relocate_all_def comp_def)
  then show ?thesis
    using sm_insert_all[of "[]" "relocate_all d bpos body fs"]
    by (simp add: relocate_all_def fold_map comp_def case_prod_unfold)
qed

lemma parseFiles_reads:
  assumes w: "whole_buffer h d" and r: "reads h d pos (sized (enc_files rq))"
    and small: "length (enc_files rq) \<le> string_max_size"
    and f: "\<forall>x\<in>set (rq_files rq). file_ok (rq_body rq) (snd x)" "sm_sorted (rq_files rq)" "db_end (rq_body rq) < two64"
    and b: "rq_body s = view d bpos (db_end (rq_body rq) - db_begin (rq_body rq))" "rq_files s = []"
      "bpos + (db_end (rq_body rq) - db_begin (rq_body rq)) \<le> length (content h d)"
  shows "rq_parseFiles h d pos s = (Inr (pos + length (sized (enc_files rq))),
    s\<lparr>rq_files := relocate_all d bpos (rq_body rq) (rq_files rq)\<rparr>)"
proof -
  let ?ins = "\<lambda>x s. s\<lparr>rq_files := sm_insert (rq_files s) (fst x) (relocate d bpos (rq_body rq) (snd x))\<rparr>"
  have small_file: "length (enc_file (rq_body rq) x) \<le> string_max_size" if "x \<in> set (rq_files rq)" for x
  proof -
    have "length (enc_file (rq_body rq) x) \<le> length (enc_files rq)"
      using that by (auto simp: enc_files_def length_concat intro: member_le_sum_list)
    then show ?thesis using small by simp
  qed
  have "rq_parseFiles h d pos s = (Inr (pos + length (sized (enc_files rq))), fold ?ins (rq_files rq) s)"
    unfolding rq_parseFiles_def enc_files_def
  proof (rule parse_section_reads[where I = "\<lambda>s. rq_body s = view d bpos (db_end (rq_body rq) - db_begin (rq_body rq))"])
    fix x pos and s :: request_impl
    assume "x \<in> set (rq_files rq)" "reads h d pos (enc_file (rq_body rq) x)"
      "rq_body s = view d bpos (db_end (rq_body rq) - db_begin (rq_body rq))"
    then show "parse_file h d pos s = (Inr (pos + length (enc_file (rq_body rq) x)), ?ins x s) \<and>
        rq_body (?ins x s) = view d bpos (db_end (rq_body rq) - db_begin (rq_body rq))"
      using parse_file_reads[OF w _ small_file] f b(3) by simp
  qed (use w r b(1) in \<open>auto simp: enc_files_def enc_file_def enc_string_def\<close>)
  moreover have "fold ?ins (rq_files rq) s = s\<lparr>rq_files :=
      fold (\<lambda>x acc. sm_insert acc (fst x) (relocate d bpos (rq_body rq) (snd x))) (rq_files rq) (rq_files s)\<rparr>"
    by (rule fold_field) simp_all
  ultimately show ?thesis
    using fold_relocate[OF f(2)] b(2) by simp
qed

section \<open>The whole request\<close>

text \<open>The request that the readers build in a new object from the image of \<open>rq\<close> in \<open>d\<close>.\<close>

definition rebuilt :: "request_cache option \<Rightarrow> data_buffer \<Rightarrow> request_impl \<Rightarrow> request_impl" where
  "rebuilt cache d rq = (let bpos = length (env_image rq) + 8 in
     (RequestImpl_new cache)\<lparr>rq_headers := rq_headers rq, rq_cookies := rq_cookies rq,
       rq_vars := rq_vars rq, rq_body := view d bpos (db_end (rq_body rq) - db_begin (rq_body rq)),
       rq_files := relocate_all d bpos (rq_body rq) (rq_files rq), rq_args := rq_args rq\<rparr>)"

lemma RequestImpl_new_fields [simp]:
  "rq_headers (RequestImpl_new c) = []" "rq_cookies (RequestImpl_new c) = []" "rq_vars (RequestImpl_new c) = []"
  "rq_files (RequestImpl_new c) = []" "rq_args (RequestImpl_new c) = []" "rq_body (RequestImpl_new c) = db_nil"
  by (simp_all add: RequestImpl_new_def rq_reset_def)

lemma parse_image:
  assumes w: "whole_buffer h d" and c: "content h d = request_image h0 rq"
    and small: "length (request_image h0 rq) \<le> string_max_size"
    and rq: "rq_wf rq" "db_ok h0 (rq_body rq)" "\<forall>x\<in>set (rq_files rq). file_ok (rq_body rq) (snd x)"
  shows "rq_parse h d (RequestImpl_new cache) = (Inr (), rebuilt cache d rq)"
proof -
  let ?b = "content h0 (rq_body rq)"
  have len: "length ?b = db_end (rq_body rq) - db_begin (rq_body rq)" "db_end (rq_body rq) < two64"
    using db_ok_bounds[OF rq(2)] by (simp_all add: content_def)
  have ok: "db_ok h d" using w by simp
  have parts: "small_strings (rq_headers rq)" "small_strings (rq_cookies rq)" "small_strings (rq_vars rq)"
    "small_strings (rq_args rq)" "length (enc_files rq) \<le> string_max_size"
    using small by (auto intro!: small_stringsI simp: length_request_image)
  let ?p1 = "0 + length (sized (enc_pairs (rq_headers rq)))"
  let ?p2 = "?p1 + length (sized (enc_pairs (rq_cookies rq)))"
  let ?p3 = "?p2 + length (sized (enc_pairs (rq_vars rq)))"
  let ?p4 = "?p3 + length (sized ?b)"
  let ?p5 = "?p4 + length (sized (enc_files rq))"
  have "reads h d 0 (request_image h0 rq)" by (simp add: reads_def c)
  then have rd: "reads h d 0 (sized (enc_pairs (rq_headers rq)))" "reads h d ?p1 (sized (enc_pairs (rq_cookies rq)))"
    "reads h d ?p2 (sized (enc_pairs (rq_vars rq)))" "reads h d ?p3 (sized ?b)"
    "reads h d ?p4 (sized (enc_files rq))" "reads h d ?p5 (sized (enc_pairs (rq_args rq)))"
    unfolding request_image_def reads_append by simp_all
  have p3: "?p3 = length (env_image rq)" by (simp add: length_env_image)
  have fit: "?p3 + 8 + (db_end (rq_body rq) - db_begin (rq_body rq)) \<le> length (content h d)"
    using len(1) by (simp add: c length_request_image)
  have wf: "hm_distinct StringCIEqual (rq_headers rq)" "hm_distinct (=) (rq_cookies rq)"
    "hm_distinct (=) (rq_vars rq)" "sm_sorted (rq_files rq)"
    using rq(1) by (simp_all add: rq_wf_def)
  let ?r0 = "RequestImpl_new cache :: request_impl"
  let ?r3 = "?r0\<lparr>rq_headers := rq_headers rq, rq_cookies := rq_cookies rq, rq_vars := rq_vars rq\<rparr>"
  let ?r4 = "?r3\<lparr>rq_body := view d (?p3 + 8) (length ?b)\<rparr>"
  let ?r5 = "?r4\<lparr>rq_files := relocate_all d (?p3 + 8) (rq_body rq) (rq_files rq)\<rparr>"
  have 1: "rq_parseHeaders h d 0 ?r0 = (Inr ?p1, ?r0\<lparr>rq_headers := rq_headers rq\<rparr>)"
    by (rule parseHeaders_reads[OF ok rd(1) parts(1) wf(1)]) simp
  have 2: "rq_parseCookies h d ?p1 (?r0\<lparr>rq_headers := rq_headers rq\<rparr>) =
      (Inr ?p2, ?r0\<lparr>rq_headers := rq_headers rq, rq_cookies := rq_cookies rq\<rparr>)"
    using parseCookies_reads[OF ok rd(2) parts(2) wf(2), of "?r0\<lparr>rq_headers := rq_headers rq\<rparr>"] by simp
  have 3: "rq_parseVars h d ?p2 (?r0\<lparr>rq_headers := rq_headers rq, rq_cookies := rq_cookies rq\<rparr>) = (Inr ?p3, ?r3)"
    using parseVars_reads[OF ok rd(3) parts(3) wf(3), of "?r0\<lparr>rq_headers := rq_headers rq, rq_cookies := rq_cookies rq\<rparr>"]
    by simp
  have 4: "rq_parseBody h d ?p3 ?r3 = (Inr ?p4, ?r4)"
    by (rule parseBody_reads[OF w rd(4)])
  have 5: "rq_parseFiles h d ?p4 ?r4 = (Inr ?p5, ?r5)"
    by (rule parseFiles_reads[OF w rd(5) parts(5) rq(3) wf(4) len(2) _ _ fit]) (simp_all add: len(1))
  have 6: "rq_parseArgs h d ?p5 ?r5 =
      (Inr (?p5 + length (sized (enc_pairs (rq_args rq)))), ?r5\<lparr>rq_args := rq_args rq\<rparr>)"
    using parseArgs_reads[OF ok rd(6) parts(4), of ?r5] by simp
  have "rq_parse h d ?r0 = (Inr (), ?r5\<lparr>rq_args := rq_args rq\<rparr>)"
    unfolding rq_parse_def
    by (simp only: bindS_def 1 2 3 4 5 6 returnS_def prod.case sum.case)
  then show ?thesis
    unfolding rebuilt_def Let_def p3[symmetric] by (simp add: len(1))
qed

text \<open>The contents of the copies: the body, and every uploaded file.\<close>

lemma image_body:
  assumes w: "whole_buffer h d" and c: "content h d = request_image h0 rq" and ok: "db_ok h0 (rq_body rq)"
    and p: "off + n \<le> db_end (rq_body rq) - db_begin (rq_body rq)"
  shows "content h (view d (length (env_image rq) + 8 + off) n) = take n (drop off (content h0 (rq_body rq)))"
    "db_ok h (view d (length (env_image rq) + 8 + off) n)"
proof -
  let ?b = "content h0 (rq_body rq)" and ?p = "length (env_image rq) + 8"
  have len: "length ?b = db_end (rq_body rq) - db_begin (rq_body rq)"
    using db_ok_bounds[OF ok] by (simp add: content_def)
  have img: "content h d = (env_image rq @ int_bytes (length ?b)) @ ?b @
      sized (enc_files rq) @ sized (enc_pairs (rq_args rq))"
    by (simp add: c request_image_def env_image_def sized_def)
  have "drop ?p (content h d) = ?b @ sized (enc_files rq) @ sized (enc_pairs (rq_args rq))"
    unfolding img by simp
  then have d: "drop (?p + off) (content h d) =
      drop off (?b @ sized (enc_files rq) @ sized (enc_pairs (rq_args rq)))"
    by (metis drop_drop add.commute)
  have "?p + off + n \<le> length (content h d)"
    using p len unfolding img by simp
  from view_content[OF w this] show "content h (view d (?p + off) n) = take n (drop off ?b)"
    "db_ok h (view d (?p + off) n)"
    unfolding d using p len by simp_all
qed

section \<open>Buffers with arbitrary content\<close>

text \<open>
  Partial correctness with exceptions: from a state with \<open>P\<close> the code ends with a value and \<open>Q\<close>, or
  with an exception that is neither an access outside a memory block nor a loop without end.
\<close>

definition safe_error :: "error \<Rightarrow> bool" where
  "safe_error e \<longleftrightarrow> e \<noteq> UndefinedBehaviour \<and> e \<noteq> Diverges \<and> e \<noteq> Terminate"

definition safeS :: "('s \<Rightarrow> bool) \<Rightarrow> ('s, 'a) st \<Rightarrow> ('a \<Rightarrow> 's \<Rightarrow> bool) \<Rightarrow> bool" where
  "safeS P m Q \<longleftrightarrow> (\<forall>s. P s \<longrightarrow> (case m s of (Inl e, s') \<Rightarrow> safe_error e | (Inr x, s') \<Rightarrow> Q x s'))"

lemma safe_bind: "safeS P m R \<Longrightarrow> (\<And>x. safeS (R x) (f x) Q) \<Longrightarrow> safeS P (bindS m f) Q"
  by (fastforce simp: safeS_def bindS_def split: prod.splits sum.splits)

lemma safe_return: "(\<And>s. P s \<Longrightarrow> Q x s) \<Longrightarrow> safeS P (returnS x) Q"
  by (simp add: safeS_def returnS_def)

lemma safe_throw: "safe_error e \<Longrightarrow> safeS P (throwS e) Q"
  by (simp add: safeS_def throwS_def)

lemma safe_modify: "(\<And>s. P s \<Longrightarrow> Q () (f s)) \<Longrightarrow> safeS P (modifyS f) Q"
  by (simp add: safeS_def modifyS_def)

lemma safe_get: "safeS P getS (\<lambda>x s. x = s \<and> P s)"
  by (simp add: safeS_def getS_def)

lemma safe_lift:
  "(\<And>s e. P s \<Longrightarrow> m = Inl e \<Longrightarrow> safe_error e) \<Longrightarrow> (\<And>s x. P s \<Longrightarrow> m = Inr x \<Longrightarrow> Q x s) \<Longrightarrow> safeS P (liftS m) Q"
  by (cases m) (auto simp: safeS_def liftS_def)

lemma safe_if: "(c \<Longrightarrow> safeS P m Q) \<Longrightarrow> (\<not> c \<Longrightarrow> safeS P m' Q) \<Longrightarrow> safeS P (if c then m else m') Q"
  by simp

lemma safe_split: "(\<And>a b. x = (a, b) \<Longrightarrow> safeS P (f a b) Q) \<Longrightarrow> safeS P (case x of (a, b) \<Rightarrow> f a b) Q"
  by (cases x) simp

lemma safe_pre: "safeS P' m Q \<Longrightarrow> (\<And>s. P s \<Longrightarrow> P' s) \<Longrightarrow> safeS P m Q"
  by (simp add: safeS_def)

lemma safe_fact: "(F \<Longrightarrow> safeS P m Q) \<Longrightarrow> safeS (\<lambda>s. F \<and> P s) m Q"
  by (simp add: safeS_def)

lemma parseInt_any:
  assumes "db_ok h d" "pos \<le> db_size d"
  shows "\<exists>v q. parseInt h d pos = Inr (v, q) \<and> pos \<le> q \<and> q \<le> db_size d \<and> (pos < db_size d \<longrightarrow> pos < q)"
proof -
  let ?bs = "take 8 (drop pos (content h d))"
  have "db_size d = length (content h d)" "length (content h d) < two64"
    using assms(1) db_ok_bounds[OF assms(1)] by (simp, simp add: content_def)
  then have "parseInt h d pos = Inr (bytes_int ?bs, pos + length ?bs)" "pos + length ?bs \<le> db_size d"
    using assms db_read_content[OF assms(1), of pos 8] by (auto simp: parseInt_def wadd_small)
  moreover have "pos < db_size d \<Longrightarrow> pos < pos + length ?bs"
    using \<open>db_size d = length (content h d)\<close> by simp
  ultimately show ?thesis by auto
qed

lemma parseString_any:
  assumes "db_ok h d" "pos \<le> db_size d"
  shows "parseString h d pos = Inl LengthError \<or>
    (\<exists>s q. parseString h d pos = Inr (s, q) \<and> pos \<le> q \<and> q \<le> db_size d \<and> (pos < db_size d \<longrightarrow> pos < q))"
proof -
  obtain v q where vq: "parseInt h d pos = Inr (v, q)" "pos \<le> q" "q \<le> db_size d" "pos < db_size d \<longrightarrow> pos < q"
    using parseInt_any[OF assms] by blast
  let ?bs = "take v (drop q (content h d))"
  have "db_size d = length (content h d)" "length (content h d) < two64"
    using assms(1) db_ok_bounds[OF assms(1)] by (simp, simp add: content_def)
  then have "wadd q (length ?bs) = q + length ?bs" "q + length ?bs \<le> db_size d"
    using vq(3) by (auto simp: wadd_small)
  then show ?thesis
    using vq db_read_content[OF assms(1), of q v] by (auto simp: parseString_def)
qed

text \<open>The rules for the readers; \<open>I\<close> is a property of the request that they keep.\<close>

abbreviation ahead :: "data_buffer \<Rightarrow> nat \<Rightarrow> nat \<Rightarrow> bool" where
  "ahead d pos q \<equiv> pos \<le> q \<and> q \<le> db_size d \<and> (pos < db_size d \<longrightarrow> pos < q)"

lemma safe_parseInt:
  assumes "db_ok h d" "pos \<le> db_size d"
  shows "safeS I (liftS (parseInt h d pos)) (\<lambda>(v, q) s. ahead d pos q \<and> I s)"
  using parseInt_any[OF assms] by (auto intro!: safe_lift)

lemma safe_parseString:
  assumes "db_ok h d" "pos \<le> db_size d"
  shows "safeS I (liftS (parseString h d pos)) (\<lambda>(v, q) s. ahead d pos q \<and> I s)"
  using parseString_any[OF assms] by (auto intro!: safe_lift simp: safe_error_def)

lemma safe_fields_loop:
  assumes "\<And>pos. pos < db_size d \<Longrightarrow> safeS I (fld pos) (\<lambda>q s. ahead d pos q \<and> I s)"
    and "pos \<le> db_size d" "pos_end \<le> db_size d" "db_size d - pos < n"
  shows "safeS I (fields_loop n fld pos pos_end) (\<lambda>q s. q \<le> db_size d \<and> I s)"
  using assms(2-4)
proof (induction n arbitrary: pos)
  case 0
  then show ?case by simp
next
  case (Suc n)
  show ?case
  proof (cases "pos < pos_end")
    case True
    then have pos: "pos < db_size d" using Suc.prems by simp
    have "safeS (\<lambda>s. ahead d pos q \<and> I s) (fields_loop n fld q pos_end) (\<lambda>q s. q \<le> db_size d \<and> I s)" for q
      using Suc.prems pos by (intro safe_fact Suc.IH) auto
    then show ?thesis
      using True assms(1)[OF pos] by (auto intro: safe_bind)
  next
    case False
    then show ?thesis using Suc.prems by (auto intro: safe_return)
  qed
qed

lemma safe_section:
  assumes "db_ok h d" "\<And>pos. pos < db_size d \<Longrightarrow> safeS I (fld pos) (\<lambda>q s. ahead d pos q \<and> I s)" "pos \<le> db_size d"
  shows "safeS I (parse_section h d msg fld pos) (\<lambda>q s. q \<le> db_size d \<and> I s)"
  unfolding parse_section_def
proof (rule safe_bind[OF safe_parseInt[OF assms(1,3)]])
  fix vq :: "nat \<times> nat"
  obtain v q where vq: "vq = (v, q)" by (cases vq)
  have "safeS (\<lambda>s. ahead d pos q \<and> I s) (if wadd q v > db_size d then throwS (RuntimeError msg)
      else fields_loop (Suc (db_size d)) fld q (wadd q v)) (\<lambda>q s. q \<le> db_size d \<and> I s)"
    by (intro safe_fact safe_if safe_throw safe_fields_loop assms(2)) (auto simp: safe_error_def)
  then show "safeS (case vq of (v, q) \<Rightarrow> \<lambda>s. ahead d pos q \<and> I s) (case vq of (field_size, pos) \<Rightarrow>
      let pos_end = wadd pos field_size in if db_size d < pos_end then throwS (RuntimeError msg)
      else fields_loop (Suc (db_size d)) fld pos pos_end) (\<lambda>q s. q \<le> db_size d \<and> I s)"
    by (simp add: vq Let_def del: fields_loop.simps)
qed

text \<open>The rule for a reader followed by code that uses the value and the new position.\<close>

lemma safe_reader:
  assumes "safeS P m (\<lambda>(v, q) s. A q \<and> P s)" "\<And>v q. A q \<Longrightarrow> safeS P (f v q) Q"
  shows "safeS P (bindS m (\<lambda>(v, q). f v q)) Q"
proof (rule safe_bind[OF assms(1)])
  fix x
  show "safeS (case x of (v, q) \<Rightarrow> \<lambda>s. A q \<and> P s) (case x of (v, q) \<Rightarrow> f v q) Q"
    using assms(2) by (cases x) (auto intro: safe_fact)
qed

lemma safe_pair:
  assumes "db_ok h d" "pos < db_size d" "\<And>n v s. I s \<Longrightarrow> I (ins n v s)"
  shows "safeS I (parse_pair h d ins pos) (\<lambda>q s. ahead d pos q \<and> I s)"
  unfolding parse_pair_def
proof (rule safe_reader[OF safe_parseString[OF assms(1)]], goal_cases)
  case (2 n q)
  show ?case
  proof (rule safe_reader[OF safe_parseString[OF assms(1)]], goal_cases)
    case (2 v q')
    show ?case
      by (rule safe_bind[where R = "\<lambda>_. I"]) (use assms(3) 2 \<open>ahead d pos q\<close> in \<open>auto intro!: safe_modify safe_return\<close>)
  qed (use 2 in simp)
qed (use assms in simp)

definition body_set :: "data_buffer \<Rightarrow> request_impl \<Rightarrow> bool" where
  "body_set d r \<longleftrightarrow> db_data (rq_body r) = db_data d"

lemma db_sub_any:
  assumes "db_ok h d" "db_data d \<noteq> None" "db_data x = db_data d"
  shows "db_sub h x b e = Inl incorrect_index \<or>
    db_sub h x b e = Inr \<lparr>db_data = db_data d, db_begin = b, db_end = e\<rparr>"
  using assms by (auto simp: db_sub_def db_impl_def db_ok_def)

lemma safe_body:
  assumes "db_ok h d" "db_data d \<noteq> None" "pos \<le> db_size d"
  shows "safeS (\<lambda>_. True) (rq_parseBody h d pos) (\<lambda>q s. q \<le> db_size d \<and> body_set d s)"
  unfolding rq_parseBody_def Let_def
proof (rule safe_reader[OF safe_parseInt[OF assms(1,3)]])
  fix v q
  let ?x = "db_sub h d (wadd q (db_begin d)) (wadd (wadd q v) (db_begin d))"
  have sub: "safeS (\<lambda>_. True) (liftS ?x) (\<lambda>b s. db_data b = db_data d)"
    using db_sub_any[OF assms(1,2) refl, of "wadd q (db_begin d)" "wadd (wadd q v) (db_begin d)"]
    by (auto intro!: safe_lift simp: safe_error_def incorrect_index_def)
  have upd: "safeS (\<lambda>s. db_data b = db_data d) (bindS (modifyS (\<lambda>r. r\<lparr>rq_body := b\<rparr>)) (\<lambda>_. returnS (wadd q v)))
      (\<lambda>q s. q \<le> db_size d \<and> body_set d s)" if "wadd q v \<le> db_size d" for b
    by (rule safe_bind[where R = "\<lambda>_. body_set d"])
       (use that in \<open>auto intro!: safe_modify safe_return simp: body_set_def\<close>)
  have "safeS (\<lambda>_. True) (bindS (liftS ?x) (\<lambda>b. bindS (modifyS (\<lambda>r. r\<lparr>rq_body := b\<rparr>)) (\<lambda>_. returnS (wadd q v))))
      (\<lambda>q s. q \<le> db_size d \<and> body_set d s)" if "wadd q v \<le> db_size d"
    by (rule safe_bind[OF sub upd[OF that]])
  then show "safeS (\<lambda>_. True) (if wadd q v > db_size d then throwS (RuntimeError ''Cannot parse request body'')
      else bindS (liftS ?x) (\<lambda>b. bindS (modifyS (\<lambda>r. r\<lparr>rq_body := b\<rparr>)) (\<lambda>_. returnS (wadd q v))))
      (\<lambda>q s. q \<le> db_size d \<and> body_set d s)"
    by (intro safe_if safe_throw) (simp_all add: safe_error_def)
qed

text \<open>The last steps of an uploaded file: the view of the body and the object.\<close>

lemma safe_file_end:
  assumes "db_ok h d" "db_data d \<noteq> None" "ahead d pos q"
  shows "safeS (body_set d) (bindS getS (\<lambda>r.
     bindS (liftS (db_sub h (rq_body r) (b r) (e r))) (\<lambda>file_buffer.
     bindS (liftS (File_of_strings remote_name type file_buffer)) (\<lambda>file.
     bindS (modifyS (\<lambda>r. r\<lparr>rq_files := sm_insert (rq_files r) nam file\<rparr>)) (\<lambda>_. returnS q)))))
    (\<lambda>q s. ahead d pos q \<and> body_set d s)"
  unfolding safeS_def
proof (intro allI impI)
  fix s :: request_impl
  assume s: "body_set d s"
  then show "case bindS getS (\<lambda>r.
     bindS (liftS (db_sub h (rq_body r) (b r) (e r))) (\<lambda>file_buffer.
     bindS (liftS (File_of_strings remote_name type file_buffer)) (\<lambda>file.
     bindS (modifyS (\<lambda>r. r\<lparr>rq_files := sm_insert (rq_files r) nam file\<rparr>)) (\<lambda>_. returnS q)))) s of
     (Inl e, s') \<Rightarrow> safe_error e | (Inr x, s') \<Rightarrow> ahead d pos x \<and> body_set d s'"
    using db_sub_any[OF assms(1,2), of "rq_body s" "b s" "e s"] assms(3)
    by (auto simp: monad_simps body_set_def File_of_strings_def safe_error_def incorrect_index_def
        split: prod.splits sum.splits if_splits)
qed

lemma safe_file:
  assumes "db_ok h d" "db_data d \<noteq> None" "pos < db_size d"
  shows "safeS (body_set d) (parse_file h d pos) (\<lambda>q s. ahead d pos q \<and> body_set d s)"
  unfolding parse_file_def
proof (rule safe_reader[OF safe_parseString[OF assms(1)]], goal_cases)
  case (2 v1 q1)
  note a1 = this
  show ?case
  proof (rule safe_reader[OF safe_parseString[OF assms(1)]], goal_cases)
    case (2 v2 q2)
    note a2 = this
    show ?case
    proof (rule safe_reader[OF safe_parseString[OF assms(1)]], goal_cases)
      case (2 v3 q3)
      note a3 = this
      show ?case
      proof (rule safe_reader[OF safe_parseInt[OF assms(1)]], goal_cases)
        case (2 v4 q4)
        note a4 = this
        show ?case
        proof (rule safe_reader[OF safe_parseInt[OF assms(1)]], goal_cases)
          case (2 v5 q5)
          then have "ahead d pos q5" using a1 a2 a3 a4 by linarith
          then show ?case by (rule safe_file_end[OF assms(1,2)])
        qed (use a4 in simp)
      qed (use a3 in simp)
    qed (use a2 in simp)
  qed (use a1 in simp)
qed (use assms in simp)

lemma parse_safe:
  assumes "db_ok h d" "db_data d \<noteq> None"
  shows "safeS (\<lambda>_. True) (rq_parse h d) (\<lambda>_ _. True)"
proof -
  have pairs: "safeS (\<lambda>_. True) (parse_section h d msg (parse_pair h d ins) pos) (\<lambda>q s. q \<le> db_size d \<and> True)"
    if "pos \<le> db_size d" for msg ins pos
    using that by (intro safe_section safe_pair assms(1)) auto
  have files: "safeS (body_set d) (rq_parseFiles h d pos) (\<lambda>q s. q \<le> db_size d \<and> body_set d s)"
    if "pos \<le> db_size d" for pos
    using that unfolding rq_parseFiles_def by (intro safe_section safe_file assms) auto
  show ?thesis
    unfolding rq_parse_def rq_parseHeaders_def rq_parseCookies_def rq_parseVars_def rq_parseArgs_def
    by (rule safe_bind[OF pairs], simp, rule safe_fact, rule safe_bind[OF pairs], assumption,
        rule safe_fact, rule safe_bind[OF pairs], assumption, rule safe_fact,
        rule safe_bind[OF safe_body[OF assms]], assumption, rule safe_fact,
        rule safe_bind[OF files], assumption, rule safe_fact, rule safe_pre[where P' = "\<lambda>_. True"],
        rule safe_bind[OF pairs], assumption, rule safe_return, simp_all)
qed

section \<open>Properties\<close>

lemma file_content:
  assumes "db_ok h body" "file_ok body f"
  shows "content h (file_data f) = take (db_end (file_data f) - db_begin (file_data f))
    (drop (db_begin (file_data f) - db_begin body) (content h body))"
proof -
  have b: "db_begin body \<le> db_begin (file_data f)" "db_begin (file_data f) \<le> db_end (file_data f)"
    "db_end (file_data f) \<le> db_end body" "heap_bytes h (file_data f) = heap_bytes h body"
    using assms(2) by (simp_all add: file_ok_def heap_bytes_def)
  let ?o = "db_begin (file_data f) - db_begin body" and ?n = "db_end (file_data f) - db_begin (file_data f)"
  have "take ?n (drop ?o (content h body)) = between (content h body) ?o (?o + ?n)"
    by (simp add: between_def)
  also have "\<dots> = between (heap_bytes h body) (db_begin body + ?o) (db_begin body + (?o + ?n))"
    unfolding content_def using b db_ok_bounds[OF assms(1)] by (intro between_between) simp_all
  finally show ?thesis
    using b by (simp add: content_def)
qed

lemma relocated_file:
  assumes w: "whole_buffer h' d" and c: "content h' d = request_image h rq" and ok: "db_ok h (rq_body rq)"
    and f: "file_ok (rq_body rq) f"
  shows "content h' (file_data (relocate d (length (env_image rq) + 8) (rq_body rq) f)) = content h (file_data f)"
proof -
  have "db_begin (file_data f) - db_begin (rq_body rq) + (db_end (file_data f) - db_begin (file_data f)) \<le>
      db_end (rq_body rq) - db_begin (rq_body rq)"
    using f by (auto simp: file_ok_def)
  note img = image_body(1)[OF w c ok this]
  have "file_data (relocate d (length (env_image rq) + 8) (rq_body rq) f) =
      view d (length (env_image rq) + 8 + (db_begin (file_data f) - db_begin (rq_body rq)))
        (db_end (file_data f) - db_begin (file_data f))"
    by (simp add: relocate_def)
  then show ?thesis
    using file_content[OF ok f] img by (simp only:)
qed

text \<open>
  C1. A request written to a cache buffer and read back into a new object is the same request: the same
  headers, cookies, variables and arguments, a body with the same bytes, and for every uploaded file the
  same name, type and bytes. The buffer is a storage of its own, uploaded files are named parts of the
  body, and the whole is no longer than a string may be.
\<close>

theorem serialize_parse_roundtrip:
  assumes "whole_buffer h d" "db_ok h (rq_body r)" "db_data (rq_body r) \<noteq> db_data d"
    and "rq_wf r" "\<forall>x\<in>set (rq_files r). file_ok (rq_body r) (snd x)"
    and "length (request_image h r) \<le> string_max_size"
  shows "\<exists>h' d' r'. rq_serialize r h d = Inr (h', d') \<and> rq_parse h' d' (RequestImpl_new cache) = (Inr (), r') \<and>
    rq_headers r' = rq_headers r \<and> rq_cookies r' = rq_cookies r \<and> rq_vars r' = rq_vars r \<and> rq_args r' = rq_args r \<and>
    content h' (rq_body r') = content h (rq_body r) \<and>
    map (\<lambda>x. (fst x, file_name (snd x), file_type (snd x), content h' (file_data (snd x)))) (rq_files r') =
    map (\<lambda>x. (fst x, file_name (snd x), file_type (snd x), content h (file_data (snd x)))) (rq_files r)"
proof -
  have "length (request_image h r) < two64"
    using assms(6) by (simp add: string_max_size_def two64_def)
  then obtain h' d' where s: "rq_serialize r h d = Inr (h', d')" "whole_buffer h' d'" "content h' d' = request_image h r"
    using serialize_content[OF assms(1-3)] by blast
  let ?r = "rebuilt cache d' r"
  have p: "rq_parse h' d' (RequestImpl_new cache) = (Inr (), ?r)"
    by (rule parse_image[OF s(2,3) assms(6,4,2,5)])
  have len: "length (content h (rq_body r)) = db_end (rq_body r) - db_begin (rq_body r)"
    using db_ok_bounds[OF assms(2)] by (simp add: content_def)
  have "content h' (rq_body ?r) = content h (rq_body r)"
    using image_body(1)[OF s(2,3) assms(2), of 0 "db_end (rq_body r) - db_begin (rq_body r)"] len
    by (simp add: rebuilt_def Let_def)
  moreover have "map (\<lambda>x. (fst x, file_name (snd x), file_type (snd x), content h' (file_data (snd x)))) (rq_files ?r) =
    map (\<lambda>x. (fst x, file_name (snd x), file_type (snd x), content h (file_data (snd x)))) (rq_files r)"
    using relocated_file[OF s(2,3) assms(2)] assms(5)
    by (simp add: rebuilt_def Let_def relocate_all_def relocate_def)
  ultimately show ?thesis
    using s(1) p by (intro exI[of _ h'] exI[of _ d'] exI[of _ ?r]) (simp add: rebuilt_def Let_def)
qed

definition upload_request :: request_impl where
  "upload_request = (RequestImpl_new None)\<lparr>rq_headers := [(''Host'', ''h'')],
     rq_body := \<lparr>db_data = Some 0, db_begin = 0, db_end = 6\<rparr>,
     rq_files := [(''f'', \<lparr>file_name = ''a.txt'', file_type = ''t'', file_data = \<lparr>db_data = Some 0, db_begin = 1, db_end = 5\<rparr>\<rparr>)]\<rparr>"

theorem serialize_parse_roundtrip_witness:
  "\<exists>h' d' r'. rq_serialize upload_request [StringBuffer ''<file>'', StringBuffer []]
      \<lparr>db_data = Some 1, db_begin = 0, db_end = 0\<rparr> = Inr (h', d') \<and>
    rq_parse h' d' (RequestImpl_new None) = (Inr (), r') \<and> rq_headers r' = [(''Host'', ''h'')] \<and>
    content h' (rq_body r') = ''<file>''"
proof -
  let ?h = "[StringBuffer ''<file>'', StringBuffer []]" and ?d = "\<lparr>db_data = Some 1, db_begin = 0, db_end = 0\<rparr>"
  have c: "content ?h (rq_body upload_request) = ''<file>''"
    by (simp add: content_def heap_bytes_def upload_request_def between_def)
  have "whole_buffer ?h ?d"
    by (simp add: whole_buffer_def db_ok_def impl_ok_def sb_ok_def heap_bytes_def)
  moreover have "db_ok ?h (rq_body upload_request)" "db_data (rq_body upload_request) \<noteq> db_data ?d"
    by (simp_all add: upload_request_def db_ok_def impl_ok_def sb_ok_def two64_def)
  moreover have "rq_wf upload_request"
    by (simp add: rq_wf_def upload_request_def RequestImpl_new_def rq_reset_def hm_distinct_def sm_sorted_def cset_sorted_def)
  moreover have "\<forall>x\<in>set (rq_files upload_request). file_ok (rq_body upload_request) (snd x)"
    by (simp add: upload_request_def file_ok_def)
  moreover have "length (request_image ?h upload_request) \<le> string_max_size"
    unfolding length_request_image c
    by (simp add: upload_request_def RequestImpl_new_def rq_reset_def enc_pairs_def enc_pair_def enc_files_def
        enc_file_def string_max_size_def)
  ultimately obtain h' d' r' where "rq_serialize upload_request ?h ?d = Inr (h', d')"
    "rq_parse h' d' (RequestImpl_new None) = (Inr (), r')" "rq_headers r' = rq_headers upload_request"
    "content h' (rq_body r') = content ?h (rq_body upload_request)"
    using serialize_parse_roundtrip[of ?h ?d upload_request None] by blast
  then show ?thesis
    unfolding c by (intro exI[of _ h'] exI[of _ d'] exI[of _ r']) (simp add: upload_request_def)
qed

text \<open>
  C15. Reading a request from a buffer whose bytes are arbitrary, those of a damaged cache file say, ends:
  with a request, or with an exception other than an access outside of the buffer; the loops over the
  fields come to an end.
\<close>

theorem parse_arbitrary_bytes:
  assumes "db_ok h d" "db_data d \<noteq> None"
  shows "case fst (rq_parse h d r) of Inr u \<Rightarrow> True
    | Inl e \<Rightarrow> e \<noteq> UndefinedBehaviour \<and> e \<noteq> Diverges \<and> e \<noteq> Terminate"
proof -
  have "case rq_parse h d r of (Inl e, s') \<Rightarrow> safe_error e | (Inr x, s') \<Rightarrow> True"
    using parse_safe[OF assms] by (simp add: safeS_def)
  then show ?thesis
    by (cases "rq_parse h d r") (simp add: safe_error_def split: sum.splits)
qed

theorem parse_arbitrary_bytes_witness:
  "fst (rq_parse [StringBuffer ''garbage''] \<lparr>db_data = Some 0, db_begin = 0, db_end = 7\<rparr> (RequestImpl_new None)) \<noteq>
     Inl Diverges"
  using parse_arbitrary_bytes[of "[StringBuffer ''garbage'']" "\<lparr>db_data = Some 0, db_begin = 0, db_end = 7\<rparr>"
    "RequestImpl_new None"]
  by (auto simp: db_ok_def impl_ok_def sb_ok_def two64_def)

end
