(* ===== verification/Request_Attach.thy ===== *)
theory Request_Attach
  imports Multipart Request_Roundtrip
begin

text \<open>
  How a request takes its input (\<^verbatim>\<open>RequestImpl::attach\<close> of \<^verbatim>\<open>library/requestimpl.cpp\<close>): the environment, the
  body, in memory or in a file of the request cache, and the arguments of the query and of the body. The
  code works on the request and on the heap of storages. A stream gives as many bytes as it has, at most the
  number asked for. A body that cannot be allocated, because its length is close to \<^verbatim>\<open>2^64\<close>, is outside of
  the model.
\<close>

section \<open>Reading the body\<close>

definition on_request :: "(request_impl, 'a) st \<Rightarrow> (request_impl \<times> heap, 'a) st" where
  "on_request m = (\<lambda>(r, h). case m r of (res, r') \<Rightarrow> (res, (r', h)))"

text \<open>One round of the loop over the segments: \<^verbatim>\<open>rsz += stream_->read(it->first, it->second)\<close>.\<close>

definition read_segment :: "data_buffer \<Rightarrow> nat \<times> nat \<Rightarrow> nat \<times> io_stream \<times> heap \<Rightarrow> (nat \<times> io_stream \<times> heap) result" where
  "read_segment body c = (\<lambda>(rsz, io, h).
     case io_read (snd c) io of (bytes, io') \<Rightarrow>
       bindE (db_write h body (fst c - db_begin body) bytes) (\<lambda>(n, h'). Inr (wadd rsz n, io', h')))"

definition read_body :: "nat \<Rightarrow> (request_impl \<times> heap, unit) st" where
  "read_body sz = (\<lambda>(r, h).
     case rq_stream r of
       None \<Rightarrow> (Inl UndefinedBehaviour, (r, h))
     | Some io \<Rightarrow>
         (case bindE (db_chunks h (rq_body r)) (\<lambda>cs. foldE (read_segment (rq_body r)) cs (0, io, h)) of
            Inl e \<Rightarrow> (Inl e, (r, h))
          | Inr (rsz, io', h') \<Rightarrow>
              if rsz \<noteq> sz then (Inl (RuntimeError ''failed to read request entity''), (r\<lparr>rq_stream := Some io'\<rparr>, h'))
              else (Inr (), (r\<lparr>rq_stream := Some io'\<rparr>, h'))))"

text \<open>Where the body goes: into a file of the cache, behind the environment and its own size, or into memory.\<close>

definition make_body :: "nat \<Rightarrow> (request_impl \<times> heap, data_buffer) st" where
  "make_body sz = (\<lambda>(r, h).
     case rq_cache r of
       Some cache \<Rightarrow>
         if sz \<ge> rc_minPostSize cache then
           (case rc_create cache h of (h, post) \<Rightarrow>
             (case bindE (serializeEnv r h post (wadd sz 8)) (\<lambda>(shift, h, post).
                 bindE (serializeInt post sz (shift, h)) (\<lambda>(shift, h).
                 bindE (db_sub h post (wadd (db_begin post) shift) (db_end post)) (\<lambda>body.
                   Inr (post, body, h)))) of
                Inl e \<Rightarrow> (Inl e, (r, h))
              | Inr (post, body, h) \<Rightarrow> (Inr post, (r\<lparr>rq_body := body\<rparr>, h))))
         else (case db_create h [] of (h, body) \<Rightarrow> (case db_resize h body sz of
             Inl e \<Rightarrow> (Inl e, (r\<lparr>rq_body := body\<rparr>, h))
           | Inr (h, body) \<Rightarrow> (Inr db_nil, (r\<lparr>rq_body := body\<rparr>, h))))
     | None \<Rightarrow> (case db_create h [] of (h, body) \<Rightarrow> (case db_resize h body sz of
             Inl e \<Rightarrow> (Inl e, (r\<lparr>rq_body := body\<rparr>, h))
           | Inr (h, body) \<Rightarrow> (Inr db_nil, (r\<lparr>rq_body := body\<rparr>, h)))))"

text \<open>The arguments in the body, by its type.\<close>

definition has_type :: "string \<Rightarrow> string \<Rightarrow> bool" where
  "has_type t type \<longleftrightarrow> strncasecmp (length t) t type = 0"

definition parse_body :: "(request_impl \<times> heap, unit) st" where
  "parse_body = (\<lambda>(r, h).
     let type = getContentType r in
     if has_type ''multipart/form-data'' type then
       (case getBoundary (fromString type) of
          Inl e \<Rightarrow> (Inl e, (r, h))
        | Inr boundary \<Rightarrow>
            if boundary \<noteq> [] then
              (case parseMultipart h boundary (rq_body r) r of
                 None \<Rightarrow> (Inl Diverges, (r, h))
               | Some (res, r') \<Rightarrow> (res, (r', h)))
            else (Inr (), (r, h)))
     else if \<not> has_type ''text/plain'' type \<and> \<not> has_type ''application/octet-stream'' type then
       (case parse_buffer h (rq_body r) (rq_args r) of (res, args) \<Rightarrow> (res, (r\<lparr>rq_args := args\<rparr>, h)))
     else (Inr (), (r, h)))"

text \<open>The files and the arguments go behind the body, when that is in a file.\<close>

definition complete_post :: "data_buffer \<Rightarrow> (request_impl \<times> heap, unit) st" where
  "complete_post post = (\<lambda>(r, h).
     if db_isNil post then (Inr (), (r, h))
     else (case bindE (db_resize h post (wadd (wadd (wadd (db_size post) 16) (filesSerializedSize r)) (argsSerializedSize r)))
         (\<lambda>(h, post'). bindE (serializeFiles r post' (db_size post, h)) (serializeArgs r post')) of
        Inl e \<Rightarrow> (Inl e, (r, h))
      | Inr (pos, h') \<Rightarrow> (Inr (), (r, h'))))"

definition uint64_of_streamsize :: "int \<Rightarrow> nat" where
  "uint64_of_streamsize n = nat (n mod 2 ^ 64)"

definition add_query :: "string \<Rightarrow> request_impl \<Rightarrow> request_impl" where
  "add_query query r = r\<lparr>rq_args := parse_string query (rq_args r)\<rparr>"

definition attach_post :: "boost \<Rightarrow> (request_impl \<times> heap, unit) st" where
  "attach_post lib = bindS getS (\<lambda>(r, h).
     bindS (liftS (getContentLength lib r)) (\<lambda>len.
     let sz = uint64_of_streamsize len; query = getQueryString r in
     bindS (make_body sz) (\<lambda>post.
     bindS (read_body sz) (\<lambda>_.
     bindS (on_request (modifyS (\<lambda>r. if query \<noteq> [] then add_query query r else r))) (\<lambda>_.
     bindS parse_body (\<lambda>_. complete_post post))))))"

definition attach :: "boost \<Rightarrow> io_stream option \<Rightarrow> string list option \<Rightarrow> (request_impl \<times> heap, unit) st" where
  "attach lib stream env =
     (case stream of None \<Rightarrow> throwS (RuntimeError ''Stream is NULL'')
      | Some io \<Rightarrow> (case env of None \<Rightarrow> throwS (RuntimeError ''ENV is NULL'')
        | Some envp \<Rightarrow>
            bindS (on_request (modifyS (\<lambda>r. parse_env envp (r\<lparr>rq_stream := Some io\<rparr>)))) (\<lambda>_.
            bindS getS (\<lambda>(r, h).
            if ''POST'' \<noteq> getRequestMethod r \<and> ''PUT'' \<noteq> getRequestMethod r then
              on_request (modifyS (add_query (getQueryString r)))
            else attach_post lib))))"

section \<open>A body in memory\<close>

text \<open>A body of \<open>n\<close> bytes is kept in memory when there is no cache, or when it is too small for the cache.\<close>

definition kept_in_memory :: "request_cache option \<Rightarrow> nat \<Rightarrow> bool" where
  "kept_in_memory cache n = (case cache of None \<Rightarrow> True | Some c \<Rightarrow> n < rc_minPostSize c)"

lemma kept_without_cache [simp]: "kept_in_memory None n"
  by (simp add: kept_in_memory_def)

lemma make_body_memory:
  assumes "kept_in_memory (rq_cache r) sz" "sz < two64"
  shows "\<exists>h' body. make_body sz (r, h) = (Inr db_nil, (r\<lparr>rq_body := body\<rparr>, h')) \<and>
    shows_text h' body (replicate sz NUL) \<and> db_data body = Some (length h) \<and> db_begin body = 0"
proof -
  obtain h1 b1 where c: "db_create h [] = (h1, b1)" by fastforce
  note ok = db_create_ok[OF _ c]
  have b1: "b1 = \<lparr>db_data = Some (length h), db_begin = 0, db_end = 0\<rparr>" "h1 = h @ [StringBuffer []]"
    using c by (auto simp: db_create_def db_create_impl_def impl_size_def)
  have "db_resize h1 b1 sz = Inr (h1[length h := StringBuffer (replicate sz NUL)],
      \<lparr>db_data = Some (length h), db_begin = 0, db_end = sz\<rparr>)"
    using assms(2) by (simp add: b1 db_resize_def db_impl_def wadd_small sb_resize_def vec_resize_def)
  moreover have "shows_text (h1[length h := StringBuffer (replicate sz NUL)])
      \<lparr>db_data = Some (length h), db_begin = 0, db_end = sz\<rparr> (replicate sz NUL)"
    using assms(2) by (simp add: b1 shows_text_def db_ok_def impl_ok_def sb_ok_def db_in_memory_def content_def
      heap_bytes_def between_def)
  ultimately show ?thesis using assms(1) c by (auto simp: make_body_def kept_in_memory_def split: option.splits)
qed

lemma db_write_memory:
  assumes "shows_text h d s" "pos + length t \<le> length s"
  obtains h' where "db_write h d pos t = Inr (length t, h')" "shows_text h' d (overwrite s pos t)"
proof -
  have d: "db_ok h d" "db_in_memory h d" "content h d = s" using assms(1) by (simp_all add: shows_text_def)
  obtain h' where h': "db_write h d pos t = Inr (length t, h')" "db_ok h' d" "content h' d = overwrite s pos t"
    using db_write_content[OF d(1), of pos t] assms(2) d(3) by auto
  have "db_in_memory h' d"
    using h'(1) d(1,2) unfolding db_write_def
    by (auto simp: db_in_memory_def db_impl_def db_ok_def Let_def split: option.splits if_splits)
  then show ?thesis using h' by (intro that) (simp_all add: shows_text_def)
qed

lemma read_body_memory:
  assumes "shows_text h (rq_body r) s" "rq_stream r = Some io" "length s < two64"
  defines "t \<equiv> take (length s) (io_input io)"
  shows "\<exists>h'. read_body (length s) (r, h) =
      (if length t = length s then Inr () else Inl (RuntimeError ''failed to read request entity''),
       (r\<lparr>rq_stream := Some (io\<lparr>io_input := drop (length s) (io_input io)\<rparr>)\<rparr>, h')) \<and>
    shows_text h' (rq_body r) (overwrite s 0 t)"
proof (cases "s = []")
  case True
  have "db_chunks h (rq_body r) = Inr []"
    using db_chunks_ok[of h "rq_body r"] assms(1) True by (auto simp: shows_text_def)
  moreover have "r = r\<lparr>rq_stream := Some io\<rparr>" using assms(2) by simp
  ultimately show ?thesis using assms(1,2) True by (simp add: read_body_def t_def overwrite_def)
next
  case False
  let ?d = "rq_body r"
  have d: "db_ok h ?d" "db_in_memory h ?d" "content h ?d = s" using assms(1) by (simp_all add: shows_text_def)
  have "db_end ?d - db_begin ?d = length s" using db_ok_bounds[OF d(1)] d(3) by (auto simp: content_def)
  then have cs: "db_chunks h ?d = Inr [(db_begin ?d, length s)]"
    using db_chunks_in_memory[OF d(1,2)] False d(3) by simp
  have le: "length t \<le> length s" by (simp add: t_def)
  obtain h' where h': "db_write h ?d 0 t = Inr (length t, h')" "shows_text h' ?d (overwrite s 0 t)"
    by (rule db_write_memory[OF assms(1), of 0 t]) (use le in simp)
  have "read_segment ?d (db_begin ?d, length s) (0, io, h) =
      Inr (length t, io\<lparr>io_input := drop (length s) (io_input io)\<rparr>, h')"
    using h'(1) le assms(3) by (simp add: read_segment_def io_read_def t_def[symmetric] wadd_small)
  then show ?thesis using assms(2) cs h'(2) by (simp add: read_body_def)
qed

lemma overwrite_whole: "length t = length s \<Longrightarrow> overwrite s 0 t = t"
  by (simp add: overwrite_def)

lemma bind_get: "bindS getS f s = f s s"
  by (simp add: bindS_def getS_def)

lemma bind_lift: "bindS (liftS (Inr x)) f s = f x s"
  by (simp add: bindS_def liftS_def)

text \<open>What a \<^verbatim>\<open>POST\<close> leads to, up to the arguments in the body.\<close>

lemma attach_post_memory:
  assumes "kept_in_memory (rq_cache r) n" "rq_stream r = Some io" "getContentLength lib r = Inr (int n)" "n < two64"
  shows "\<exists>h' body. shows_text h' body (take n (io_input io) @ replicate (n - length (io_input io)) NUL) \<and>
    attach_post lib (r, h) =
      (let q = r\<lparr>rq_body := body, rq_stream := Some (io\<lparr>io_input := drop n (io_input io)\<rparr>)\<rparr> in
       if n \<le> length (io_input io) then
         bindS parse_body (\<lambda>_. complete_post db_nil) (if getQueryString r \<noteq> [] then add_query (getQueryString r) q else q, h')
       else (Inl (RuntimeError ''failed to read request entity''), (q, h')))"
proof -
  have sz: "uint64_of_streamsize (int n) = n"
    using assms(4) by (simp add: uint64_of_streamsize_def two64_def)
  obtain h1 body where m: "make_body n (r, h) = (Inr db_nil, (r\<lparr>rq_body := body\<rparr>, h1))" "shows_text h1 body (replicate n NUL)"
    using make_body_memory[OF assms(1,4), of h] by blast
  let ?t = "take n (io_input io)" and ?io = "io\<lparr>io_input := drop n (io_input io)\<rparr>"
  obtain h2 where r: "read_body n (r\<lparr>rq_body := body\<rparr>, h1) =
      (if length ?t = n then Inr () else Inl (RuntimeError ''failed to read request entity''),
       (r\<lparr>rq_body := body, rq_stream := Some ?io\<rparr>, h2))"
    "shows_text h2 body (overwrite (replicate n NUL) 0 ?t)"
    using read_body_memory[of h1 "r\<lparr>rq_body := body\<rparr>" "replicate n NUL" io] m(2) assms(2,4) by auto
  have o: "overwrite (replicate n NUL) 0 ?t = ?t @ replicate (n - length (io_input io)) NUL"
    by (auto simp: overwrite_def min_def)
  have "attach_post lib (r, h) = bindS (read_body n) (\<lambda>_.
      bindS (on_request (modifyS (\<lambda>r'. if getQueryString r \<noteq> [] then add_query (getQueryString r) r' else r'))) (\<lambda>_.
      bindS parse_body (\<lambda>_. complete_post db_nil))) (r\<lparr>rq_body := body\<rparr>, h1)"
    using bindS_Inr[where m = "make_body n", OF m(1)]
    by (simp add: attach_post_def bind_get bind_lift assms(3) sz Let_def)
  then show ?thesis
    using r o by (intro exI[of _ h2] exI[of _ body])
      (auto simp: bindS_def on_request_def modifyS_def Let_def min_def split: if_splits)
qed

section \<open>The environment keeps stream and cache\<close>

lemma parseCookies_loop_keeps:
  "rq_stream (parseCookies_loop tmp r) = rq_stream r \<and> rq_cache (parseCookies_loop tmp r) = rq_cache r \<and> rq_args (parseCookies_loop tmp r) = rq_args r \<and>
   rq_headers_sent (parseCookies_loop tmp r) = rq_headers_sent r"
proof (induction tmp r rule: parseCookies_loop.induct)
  case (1 tmp r)
  then show ?case
    by (subst (1 2 3 4) parseCookies_loop.simps) (auto simp: addCookie_def split: prod.splits)
qed

lemma parse_env_keeps:
  "rq_stream (parse_env env r) = rq_stream r \<and> rq_cache (parse_env env r) = rq_cache r \<and> rq_args (parse_env env r) = rq_args r \<and>
   rq_headers_sent (parse_env env r) = rq_headers_sent r"
proof (induction env arbitrary: r)
  case (Cons e env)
  have "rq_stream (parse_env_entry e r) = rq_stream r \<and> rq_cache (parse_env_entry e r) = rq_cache r \<and>
      rq_args (parse_env_entry e r) = rq_args r \<and> rq_headers_sent (parse_env_entry e r) = rq_headers_sent r"
    using parseCookies_loop_keeps by (auto simp: parse_env_entry_def parseCookies_def addHeader_def Let_def split: prod.splits)
  then show ?case using Cons by (simp add: parse_env_def)
qed (simp add: parse_env_def)

lemma parse_string_Nil: "parse_string [] v = v"
  using parse_range_values[of "fromString []" v] by (simp add: parse_string_def query_values_def)

lemma add_query_any: "(if q \<noteq> [] then add_query q r else r) = add_query q r"
  by (simp add: add_query_def parse_string_Nil)

lemma complete_post_nil: "complete_post db_nil s = (Inr (), s)"
  by (cases s) (simp add: complete_post_def db_isNil_def db_nil_def)

lemma attach_post_step:
  assumes "r1 = parse_env envp (r\<lparr>rq_stream := Some io\<rparr>)" "getRequestMethod r1 \<in> {''POST'', ''PUT''}"
  shows "attach lib (Some io) (Some envp) (r, h) = attach_post lib (r1, h)"
  using assms by (auto simp: attach_def bindS_def on_request_def modifyS_def getS_def)

text \<open>A posted form: the request and the heap that \<^verbatim>\<open>attach\<close> leaves.\<close>

definition form_request :: "request_impl \<Rightarrow> data_buffer \<Rightarrow> io_stream \<Rightarrow> nat \<Rightarrow> request_impl" where
  "form_request r1 body io n = r1\<lparr>rq_body := body, rq_stream := Some (io\<lparr>io_input := drop n (io_input io)\<rparr>)\<rparr>"

lemma attach_form_value:
  assumes "r1 = parse_env envp (r\<lparr>rq_stream := Some io\<rparr>)" "getRequestMethod r1 \<in> {''POST'', ''PUT''}" "kept_in_memory (rq_cache r) n"
    and "getContentLength lib r1 = Inr (int n)" "n < two64"
    and "\<not> has_type ''multipart/form-data'' (getContentType r1)" "\<not> has_type ''text/plain'' (getContentType r1)"
      "\<not> has_type ''application/octet-stream'' (getContentType r1)"
  shows "\<exists>h' body. shows_text h' body (take n (io_input io) @ replicate (n - length (io_input io)) NUL) \<and>
    attach lib (Some io) (Some envp) (r, h) =
      (if n \<le> length (io_input io) then
         (Inr (), ((form_request r1 body io n)\<lparr>rq_args := parse_string (take n (io_input io)) (parse_string (getQueryString r1) (rq_args r1))\<rparr>, h'))
       else (Inl (RuntimeError ''failed to read request entity''), (form_request r1 body io n, h')))"
proof -
  have k: "rq_stream r1 = Some io" "kept_in_memory (rq_cache r1) n" using assms(1,3) parse_env_keeps[of envp "r\<lparr>rq_stream := Some io\<rparr>"] by simp_all
  obtain h' body where a: "shows_text h' body (take n (io_input io) @ replicate (n - length (io_input io)) NUL)"
    "attach_post lib (r1, h) = (let q = form_request r1 body io n in
       if n \<le> length (io_input io) then
         bindS parse_body (\<lambda>_. complete_post db_nil) (if getQueryString r1 \<noteq> [] then add_query (getQueryString r1) q else q, h')
       else (Inl (RuntimeError ''failed to read request entity''), (q, h')))"
    unfolding form_request_def using attach_post_memory[OF k(2,1) assms(4,5), of h] by blast
  let ?q = "add_query (getQueryString r1) (form_request r1 body io n)"
  have "attach_post lib (r1, h) = (Inr (), (?q\<lparr>rq_args := parse_string (take n (io_input io)) (rq_args ?q)\<rparr>, h'))"
    if n: "n \<le> length (io_input io)"
  proof -
    have b: "shows_text h' body (take n (io_input io))" using a(1) n by simp
    have t: "getContentType ?q = getContentType r1" "rq_body ?q = body"
      by (simp_all add: getContentType_def add_query_def form_request_def)
    have "parse_buffer h' body (rq_args ?q) = (Inr (), parse_string (take n (io_input io)) (rq_args ?q))"
      using b parse_buffer_values[of h' body "rq_args ?q"] parse_range_values[of "fromString (take n (io_input io))" "rq_args ?q"]
      by (simp add: shows_text_def parse_string_def)
    then have "parse_body (?q, h') = (Inr (), (?q\<lparr>rq_args := parse_string (take n (io_input io)) (rq_args ?q)\<rparr>, h'))"
      using assms(6-8) by (simp add: parse_body_def t Let_def)
    then show ?thesis
      unfolding a(2) Let_def add_query_any using n by (simp add: bindS_def complete_post_nil)
  qed
  then show ?thesis
    using attach_post_step[OF assms(1,2), of lib h] a
    by (intro exI[of _ h'] exI[of _ body]) (simp add: Let_def add_query_def form_request_def)
qed

section \<open>Properties\<close>

text \<open>
  The arguments of a form that is posted, with a body in memory, are those of the query followed by those
  that the body denotes; the body of the request is what the stream gave, and headers, variables and cookies
  are those of the environment. When the stream ends before the announced length, the request is refused.
\<close>

theorem attach_form:
  assumes "r1 = parse_env envp (r\<lparr>rq_stream := Some io\<rparr>)" "getRequestMethod r1 \<in> {''POST'', ''PUT''}" "kept_in_memory (rq_cache r) n"
    and "getContentLength lib r1 = Inr (int n)" "n < two64"
    and "\<not> has_type ''multipart/form-data'' (getContentType r1)" "\<not> has_type ''text/plain'' (getContentType r1)"
      "\<not> has_type ''application/octet-stream'' (getContentType r1)"
  shows "\<exists>r' h' res. attach lib (Some io) (Some envp) (r, h) = (res, (r', h')) \<and>
    (if n \<le> length (io_input io) then res = Inr () \<and> content h' (rq_body r') = take n (io_input io) \<and>
       rq_args r' = parse_string (take n (io_input io)) (parse_string (getQueryString r1) (rq_args r1)) \<and>
       rq_headers r' = rq_headers r1 \<and> rq_vars r' = rq_vars r1 \<and> rq_cookies r' = rq_cookies r1
     else res = Inl (RuntimeError ''failed to read request entity''))"
  using attach_form_value[OF assms, of h]
  by (cases "n \<le> length (io_input io)") (auto simp: shows_text_def form_request_def)

definition post_env :: "string list" where
  "post_env = [''REQUEST_METHOD=POST'', ''QUERY_STRING=q=1'', ''HTTP_CONTENT_LENGTH=7'']"

definition post_boost :: boost where
  "post_boost = \<lparr>lexical_cast_ushort = \<lambda>s. Inl BadLexicalCast,
     lexical_cast_streamsize = \<lambda>s. if s = ''7'' then Inr 7 else Inl BadLexicalCast, lexical_cast_string = show_nat\<rparr>"

definition post_stream :: io_stream where
  "post_stream = \<lparr>io_input = ''a=1&b=2'', io_output = [], io_writes_left = None\<rparr>"

lemma post_env_facts:
  "getRequestMethod (parse_env post_env ((RequestImpl_new None)\<lparr>rq_stream := Some post_stream\<rparr>)) = ''POST''"
  "getContentLength post_boost (parse_env post_env ((RequestImpl_new None)\<lparr>rq_stream := Some post_stream\<rparr>)) = Inr (int 7)"
  "getContentType (parse_env post_env ((RequestImpl_new None)\<lparr>rq_stream := Some post_stream\<rparr>)) = []"
  "getQueryString (parse_env post_env ((RequestImpl_new None)\<lparr>rq_stream := Some post_stream\<rparr>)) = ''q=1''"
  by code_simp+

theorem attach_form_witness:
  "\<exists>r' h'. attach post_boost (Some post_stream) (Some post_env) (RequestImpl_new None, []) = (Inr (), (r', h')) \<and>
     content h' (rq_body r') = ''a=1&b=2''"
proof -
  let ?r1 = "parse_env post_env ((RequestImpl_new None)\<lparr>rq_stream := Some post_stream\<rparr>)"
  have c: "kept_in_memory (rq_cache (RequestImpl_new None)) 7" by (simp add: RequestImpl_new_def rq_reset_def)
  have "\<not> has_type ''multipart/form-data'' []" "\<not> has_type ''text/plain'' []" "\<not> has_type ''application/octet-stream'' []"
    by code_simp+
  then show ?thesis
    using attach_form[OF refl, where r = "RequestImpl_new None" and envp = post_env and io = post_stream and lib = post_boost and n = 7 and h = "[]"]
      post_env_facts c
    by (auto simp: two64_def post_stream_def)
qed

text \<open>
  C16. The arguments of a posted multipart form whose body is kept in memory, because there is no cache or because
  it is smaller than what the cache takes, are those of the query followed by the fields of the form, in their order; no
  file is added to the request. The boundary is the one that the type of the body names; names and values of the fields
  keep to what \<open>field_ok\<close> asks for. A body in a file of the cache is not covered: there the parser meets the fault of
  \<^verbatim>\<open>FileBuffer::trim\<close>.
\<close>

theorem attach_multipart:
  assumes "r1 = parse_env envp (r\<lparr>rq_stream := Some io\<rparr>)" "getRequestMethod r1 \<in> {''POST'', ''PUT''}" "kept_in_memory (rq_cache r) (length (io_input io))"
    and "getContentLength lib r1 = Inr (int (length (io_input io)))" "length (io_input io) < two64"
    and "has_type ''multipart/form-data'' (getContentType r1)" "getBoundary (fromString (getContentType r1)) = Inr (''--'' @ b)"
    and "b \<noteq> []" "hd b \<noteq> CHR 0x0D" "\<forall>f\<in>set fs. field_ok (''--'' @ b) f" "io_input io = multipart_message (''--'' @ b) fs"
  shows "\<exists>r' h'. attach lib (Some io) (Some envp) (r, h) = (Inr (), (r', h')) \<and>
    rq_args r' = parse_string (getQueryString r1) (rq_args r1) @ fs \<and> rq_files r' = rq_files r1 \<and> rq_headers r' = rq_headers r1"
proof -
  have k: "rq_stream r1 = Some io" "kept_in_memory (rq_cache r1) (length (io_input io))" using assms(1,3) parse_env_keeps[of envp "r\<lparr>rq_stream := Some io\<rparr>"] by simp_all
  let ?n = "length (io_input io)"
  obtain h' body where a: "shows_text h' body (io_input io)"
    "attach_post lib (r1, h) = bindS parse_body (\<lambda>_. complete_post db_nil)
       (add_query (getQueryString r1) (r1\<lparr>rq_body := body, rq_stream := Some (io\<lparr>io_input := []\<rparr>)\<rparr>), h')"
    using attach_post_memory[OF k(2,1) assms(4,5), of h] by (auto simp: Let_def add_query_any)
  let ?q = "add_query (getQueryString r1) (r1\<lparr>rq_body := body, rq_stream := Some (io\<lparr>io_input := []\<rparr>)\<rparr>)"
  have t: "getContentType ?q = getContentType r1" "rq_body ?q = body" by (simp_all add: getContentType_def add_query_def)
  have "parseMultipart h' (''--'' @ b) body ?q = Some (Inr (), ?q\<lparr>rq_args := rq_args ?q @ fs\<rparr>)"
    using parseMultipart_message[OF assms(8,9) refl assms(10), of h' body ?q] a(1) assms(11) by simp
  then have "parse_body (?q, h') = (Inr (), (?q\<lparr>rq_args := rq_args ?q @ fs\<rparr>, h'))"
    using assms(6,7) by (simp add: parse_body_def t Let_def)
  then have "attach_post lib (r1, h) = (Inr (), (?q\<lparr>rq_args := rq_args ?q @ fs\<rparr>, h'))"
    unfolding a(2) by (simp add: bindS_def complete_post_nil)
  then show ?thesis
    using attach_post_step[OF assms(1,2), of lib h] by (auto simp: add_query_def)
qed

definition form_fields :: "(string \<times> string) list" where
  "form_fields = [(''a'', ''1''), (''b'', ''2'')]"

definition form_env :: "string list" where
  "form_env = [''REQUEST_METHOD=POST'', ''CONTENT_TYPE=multipart/form-data; boundary=XyZ'', ''HTTP_CONTENT_LENGTH=n'']"

definition form_stream :: io_stream where
  "form_stream = \<lparr>io_input = multipart_message ''--XyZ'' form_fields, io_output = [], io_writes_left = None\<rparr>"

definition form_boost :: boost where
  "form_boost = \<lparr>lexical_cast_ushort = \<lambda>s. Inl BadLexicalCast,
     lexical_cast_streamsize = \<lambda>s. if s = ''n'' then Inr (int (length (io_input form_stream))) else Inl BadLexicalCast,
     lexical_cast_string = show_nat\<rparr>"

lemma form_env_facts:
  "getRequestMethod (parse_env form_env ((RequestImpl_new None)\<lparr>rq_stream := Some form_stream\<rparr>)) = ''POST''"
  "header_get (rq_headers (parse_env form_env ((RequestImpl_new None)\<lparr>rq_stream := Some form_stream\<rparr>))) ''content-length'' = ''n''"
  "getContentType (parse_env form_env ((RequestImpl_new None)\<lparr>rq_stream := Some form_stream\<rparr>)) = ''multipart/form-data; boundary=XyZ''"
  "getQueryString (parse_env form_env ((RequestImpl_new None)\<lparr>rq_stream := Some form_stream\<rparr>)) = []"
  by code_simp+

theorem attach_multipart_witness:
  "\<exists>r' h'. attach form_boost (Some form_stream) (Some form_env) (RequestImpl_new None, []) = (Inr (), (r', h')) \<and>
     rq_args r' = [(''a'', ''1''), (''b'', ''2'')]"
proof -
  let ?r1 = "parse_env form_env ((RequestImpl_new None)\<lparr>rq_stream := Some form_stream\<rparr>)"
  have r: "kept_in_memory (rq_cache (RequestImpl_new None)) (length (io_input form_stream))" "rq_args ?r1 = []"
    using parse_env_keeps[of form_env "(RequestImpl_new None)\<lparr>rq_stream := Some form_stream\<rparr>"]
    by (simp_all add: RequestImpl_new_def rq_reset_def)
  have t: "has_type ''multipart/form-data'' ''multipart/form-data; boundary=XyZ''"
    "getBoundary (fromString ''multipart/form-data; boundary=XyZ'') = Inr (''--'' @ ''XyZ'')"
    "\<forall>f\<in>set form_fields. field_ok (''--'' @ ''XyZ'') f" by code_simp+
  have l: "getContentLength form_boost ?r1 = Inr (int (length (io_input form_stream)))"
    by (simp add: getContentLength_def form_env_facts form_boost_def)
  have s: "length (io_input form_stream) < two64" "io_input form_stream = multipart_message (''--'' @ ''XyZ'') form_fields"
    by (simp_all add: form_stream_def form_fields_def multipart_message_def field_header_def two64_def)
  show ?thesis
    using attach_multipart[OF refl _ r(1) l s(1) _ _ _ _ t(3) s(2), where h = "[]"] form_env_facts t r(2)
    by (auto simp: parse_string_Nil form_fields_def)
qed

end
