(* ===== verification/Runs.thy ===== *)
theory Runs
  imports Prelude
begin

text \<open>
  Runs of a labelled step relation, and the interface through which the concurrent components use
  them: a system with an invariant (\<open>invariant_system\<close>), of which every state of a run satisfies the
  invariant, and a system some of whose steps are counted by a measure that no step raises
  (\<open>bounded_system\<close>), so that a run has only so many of them.
\<close>

inductive run :: "('s \<Rightarrow> 'e \<Rightarrow> 's \<Rightarrow> bool) \<Rightarrow> 's \<Rightarrow> 'e list \<Rightarrow> 's \<Rightarrow> bool" for step where
  run_nil: "run step s [] s"
| run_step: "run step s es s' \<Longrightarrow> step s' e s'' \<Longrightarrow> run step s (es @ [e]) s''"

inductive_cases run_snocE: "run step s (es @ [e]) s''"

lemma run_single: "step s e s' \<Longrightarrow> run step s [e] s'"
  using run_step[OF run_nil] by fastforce

lemma run_append: "run step s' es' s'' \<Longrightarrow> run step s es s' \<Longrightarrow> run step s (es @ es') s''"
proof (induction rule: run.induct)
  case (run_nil s)
  then show ?case by simp
next
  case (run_step s' es' s2 e s3)
  then show ?case using run.run_step[of step s "es @ es'" s2 e s3] by simp
qed

lemma run_Cons: "step s e s' \<Longrightarrow> run step s' es s'' \<Longrightarrow> run step s (e # es) s''"
  using run_append[OF _ run_single] by fastforce

locale invariant_system =
  fixes init :: "'s \<Rightarrow> bool" and step :: "'s \<Rightarrow> 'e \<Rightarrow> 's \<Rightarrow> bool" and inv :: "'s \<Rightarrow> bool"
  assumes init_inv: "init s \<Longrightarrow> inv s"
    and step_inv: "inv s \<Longrightarrow> step s e s' \<Longrightarrow> inv s'"
begin

lemma run_inv: "run step s es s' \<Longrightarrow> inv s \<Longrightarrow> inv s'"
  by (induction rule: run.induct) (auto intro: step_inv)

lemma reached_inv: "init s \<Longrightarrow> run step s es s' \<Longrightarrow> inv s'"
  using run_inv init_inv by blast

end

locale bounded_system = invariant_system +
  fixes weight :: "'s \<Rightarrow> nat" and counted :: "'e \<Rightarrow> bool"
  assumes weight_step: "inv s \<Longrightarrow> step s e s' \<Longrightarrow> weight s' + (if counted e then 1 else 0) \<le> weight s"
begin

lemma run_bounded:
  assumes "run step s es s'" "inv s"
  shows "length (filter counted es) + weight s' \<le> weight s"
  using assms
proof (induction rule: run.induct)
  case (run_step s es s' e s'')
  then have "weight s'' + (if counted e then 1 else 0) \<le> weight s'" using weight_step run_inv by blast
  then show ?case using run_step by (simp split: if_splits)
qed simp

end

end
