(* ===== verification/Thread_Pool.thy ===== *)
theory Thread_Pool
  imports Runs
begin

text \<open>
  The thread pool of \<^verbatim>\<open>include/details/thread_pool.h\<close>: a bounded queue of tasks, a lock, a condition and
  worker threads that run \<^verbatim>\<open>workMethod\<close>. A section that holds the lock is one step; the threads, the
  callers of \<^verbatim>\<open>addTask\<close> between the section and their \<^verbatim>\<open>notify_one\<close>, and the scheduler interleave these
  steps in any order (\<open>pool_step\<close>). A wait may also end without a notification. The counters are
  \<^verbatim>\<open>uint64_t\<close>.

  The invariant \<open>pool_inv\<close> has the bound of the queue, the meaning of the busy counter and the reason why
  no notification is lost. Over runs: tasks are taken in the order in which they were accepted, none is
  lost or taken twice (\<open>tasks_fifo\<close>); the counters account for every accepted task (\<open>counters_account\<close>);
  and after \<^verbatim>\<open>stop\<close> the workers come to an end, so that \<^verbatim>\<open>join\<close> returns (\<open>stopped_pool_joins\<close>).
\<close>

section \<open>State\<close>

record pool_info =
  pi_started :: bool
  pi_threadsNumber :: "64 word"
  pi_queueLength :: "64 word"
  pi_busyThreadsCounter :: "64 word"
  pi_currentQueue :: "64 word"
  pi_goodTasksCounter :: "64 word"
  pi_badTasksCounter :: "64 word"

text \<open>The local variable \<^verbatim>\<open>state\<close> of \<^verbatim>\<open>workMethod\<close>.\<close>

datatype task_state = NoTask | Good | Bad

text \<open>
  Where a worker is: before or in \<^verbatim>\<open>func()\<close>; before the locked section, with the state of its last task;
  in \<^verbatim>\<open>condition_.wait\<close>; woken and about to get the lock back; in \<^verbatim>\<open>handleTask\<close>; returned.
\<close>

datatype 't worker = Starting | Locking task_state | Waiting | Woken | Handling 't | Returned

text \<open>\<open>tp_callers\<close> counts the calls of \<^verbatim>\<open>addTask\<close> that have left the section and not yet notified.\<close>

record 't thread_pool =
  tp_threads :: "'t worker list"
  tp_tasksQueue :: "'t list"
  tp_info :: pool_info
  tp_callers :: nat

section \<open>Operations\<close>

definition ThreadPool_new :: "32 word \<Rightarrow> 32 word \<Rightarrow> 't thread_pool" where
  "ThreadPool_new threadsNumber queueLength = \<lparr>tp_threads = [], tp_tasksQueue = [],
     tp_info = \<lparr>pi_started = False, pi_threadsNumber = ucast threadsNumber, pi_queueLength = ucast queueLength,
       pi_busyThreadsCounter = 0, pi_currentQueue = 0, pi_goodTasksCounter = 0, pi_badTasksCounter = 0\<rparr>,
     tp_callers = 0\<rparr>"

definition pool_start :: "'t thread_pool \<Rightarrow> 't thread_pool" where
  "pool_start p =
     (if pi_started (tp_info p) then p
      else p\<lparr>tp_threads := tp_threads p @ replicate (unat (pi_threadsNumber (tp_info p))) Starting,
             tp_info := (tp_info p)\<lparr>pi_started := True\<rparr>\<rparr>)"

definition notify_all_waiting :: "'t worker list \<Rightarrow> 't worker list" where
  "notify_all_waiting ws = map (\<lambda>w. if w = Waiting then Woken else w) ws"

definition pool_stop :: "'t thread_pool \<Rightarrow> 't thread_pool" where
  "pool_stop p = p\<lparr>tp_info := (tp_info p)\<lparr>pi_started := False\<rparr>, tp_threads := notify_all_waiting (tp_threads p)\<rparr>"

text \<open>\<^verbatim>\<open>threads_.join_all()\<close> returns in this state and blocks in every other.\<close>

definition pool_joins :: "'t thread_pool \<Rightarrow> bool" where
  "pool_joins p = list_all (\<lambda>w. w = Returned) (tp_threads p)"

text \<open>\<open>lexical_cast\<close> is \<^verbatim>\<open>boost::lexical_cast<std::string>\<close>, for the text of the exception.\<close>

definition addTask_section ::
  "(nat \<Rightarrow> string) \<Rightarrow> 't \<Rightarrow> 't thread_pool \<Rightarrow> error option \<times> 't thread_pool" where
  "addTask_section lexical_cast task p =
     (if \<not> pi_started (tp_info p) then (Some (RuntimeError ''Thread pool is not started yet''), p)
      else if of_nat (length (tp_tasksQueue p)) \<ge> pi_queueLength (tp_info p) then
        (Some (RuntimeError (''Pool::handle: the queue has already reached its maximum size of '' @
           lexical_cast (unat (pi_queueLength (tp_info p))) @ '' elements'')), p)
      else (None, p\<lparr>tp_tasksQueue := tp_tasksQueue p @ [task]\<rparr>))"

text \<open>Both ways out of \<^verbatim>\<open>addTask\<close> notify, behind the section.\<close>

definition addTask :: "(nat \<Rightarrow> string) \<Rightarrow> 't \<Rightarrow> 't thread_pool \<Rightarrow> error option \<times> 't thread_pool" where
  "addTask lexical_cast task p = (case addTask_section lexical_cast task p of (r, p') \<Rightarrow> (r, p'\<lparr>tp_callers := Suc (tp_callers p')\<rparr>))"

definition getInfo :: "'t thread_pool \<Rightarrow> pool_info \<times> 't thread_pool" where
  "getInfo p = (let info = (tp_info p)\<lparr>pi_currentQueue := of_nat (length (tp_tasksQueue p))\<rparr>
     in (info, p\<lparr>tp_info := info\<rparr>))"

primrec work_count :: "task_state \<Rightarrow> pool_info \<Rightarrow> pool_info" where
  "work_count NoTask i = i"
| "work_count Good i = i\<lparr>pi_goodTasksCounter := pi_goodTasksCounter i + 1,
     pi_busyThreadsCounter := pi_busyThreadsCounter i - 1\<rparr>"
| "work_count Bad i = i\<lparr>pi_badTasksCounter := pi_badTasksCounter i + 1,
     pi_busyThreadsCounter := pi_busyThreadsCounter i - 1\<rparr>"

text \<open>A round of the loop that looks at the queue: where the worker goes, and the pool.\<close>

definition work_poll :: "'t thread_pool \<Rightarrow> 't worker \<times> 't thread_pool" where
  "work_poll p =
     (if \<not> pi_started (tp_info p) then (Returned, p)
      else (case tp_tasksQueue p of
        [] \<Rightarrow> (Waiting, p)
      | task # rest \<Rightarrow> (Handling task, p\<lparr>tp_tasksQueue := rest,
          tp_info := (tp_info p)\<lparr>pi_busyThreadsCounter := pi_busyThreadsCounter (tp_info p) + 1\<rparr>\<rparr>)))"

definition work_section :: "task_state \<Rightarrow> 't thread_pool \<Rightarrow> 't worker \<times> 't thread_pool" where
  "work_section st p = work_poll (p\<lparr>tp_info := work_count st (tp_info p)\<rparr>)"

section \<open>Steps\<close>

datatype 't pool_event =
    Start
  | Stop
  | Add 't bool
  | Notify
  | Info
  | Init nat
  | Poll nat "'t worker"
  | Wake nat
  | Handled nat bool

definition set_worker :: "nat \<Rightarrow> 't worker \<Rightarrow> 't thread_pool \<Rightarrow> 't thread_pool" where
  "set_worker i w p = p\<lparr>tp_threads := (tp_threads p)[i := w]\<rparr>"

definition at_worker :: "'t thread_pool \<Rightarrow> nat \<Rightarrow> 't worker \<Rightarrow> bool" where
  "at_worker p i w \<longleftrightarrow> i < length (tp_threads p) \<and> tp_threads p ! i = w"

inductive pool_step :: "(nat \<Rightarrow> string) \<Rightarrow> 't thread_pool \<Rightarrow> 't pool_event \<Rightarrow> 't thread_pool \<Rightarrow> bool" for lcast where
  start: "pool_step lcast p Start (pool_start p)"
| stop: "pool_step lcast p Stop (pool_stop p)"
| add: "addTask lcast t p = (r, p') \<Longrightarrow> pool_step lcast p (Add t (r = None)) p'"
| notify_one: "\<lbrakk>tp_callers p = Suc n; at_worker p i Waiting\<rbrakk> \<Longrightarrow>
    pool_step lcast p Notify (set_worker i Woken (p\<lparr>tp_callers := n\<rparr>))"
| notify_none: "\<lbrakk>tp_callers p = Suc n; Waiting \<notin> set (tp_threads p)\<rbrakk> \<Longrightarrow>
    pool_step lcast p Notify (p\<lparr>tp_callers := n\<rparr>)"
| info: "pool_step lcast p Info (snd (getInfo p))"
| init: "at_worker p i Starting \<Longrightarrow> pool_step lcast p (Init i) (set_worker i (Locking NoTask) p)"
| locked: "\<lbrakk>at_worker p i (Locking st); work_section st p = (w, p')\<rbrakk> \<Longrightarrow>
    pool_step lcast p (Poll i w) (set_worker i w p')"
| resume: "\<lbrakk>at_worker p i Woken; work_poll p = (w, p')\<rbrakk> \<Longrightarrow> pool_step lcast p (Poll i w) (set_worker i w p')"
| spurious: "at_worker p i Waiting \<Longrightarrow> pool_step lcast p (Wake i) (set_worker i Woken p)"
| handled: "at_worker p i (Handling t) \<Longrightarrow>
    pool_step lcast p (Handled i ok) (set_worker i (Locking (if ok then Good else Bad)) p)"

inductive_cases pool_stepE: "pool_step lcast p e p'"

section \<open>Invariant\<close>

text \<open>Workers whose task is counted as busy, and workers that will look at the queue before they wait.\<close>

fun is_busy :: "'t worker \<Rightarrow> bool" where
  "is_busy (Handling t) = True"
| "is_busy (Locking st) = (st \<noteq> NoTask)"
| "is_busy w = False"

fun is_awake :: "'t worker \<Rightarrow> bool" where
  "is_awake Starting = True"
| "is_awake (Locking st) = True"
| "is_awake Woken = True"
| "is_awake w = False"

definition workers :: "('t worker \<Rightarrow> bool) \<Rightarrow> 't thread_pool \<Rightarrow> nat" where
  "workers P p = length (filter P (tp_threads p))"

definition pool_inv :: "'t thread_pool \<Rightarrow> bool" where
  "pool_inv p \<longleftrightarrow>
     length (tp_tasksQueue p) \<le> unat (pi_queueLength (tp_info p)) \<and>
     pi_busyThreadsCounter (tp_info p) = of_nat (workers is_busy p) \<and>
     (Waiting \<in> set (tp_threads p) \<longrightarrow>
        pi_started (tp_info p) \<and> length (tp_tasksQueue p) \<le> workers is_awake p + tp_callers p)"

lemma length_filter_update:
  "i < length xs \<Longrightarrow> length (filter P (xs[i := x])) + (if P (xs ! i) then 1 else 0) =
     length (filter P xs) + (if P x then 1 else 0)"
proof (induction xs arbitrary: i)
  case (Cons y ys)
  then show ?case
  proof (cases i)
    case (Suc j)
    then show ?thesis using Cons.IH[of j] Cons.prems by simp
  qed simp
qed simp

lemma workers_set:
  "at_worker p i w0 \<Longrightarrow> workers P (set_worker i w q) + (if P w0 then 1 else 0) = workers P p + (if P w then 1 else 0)"
  if "tp_threads q = tp_threads p" for q
  using that length_filter_update[of i "tp_threads p" P w] by (simp add: workers_def set_worker_def at_worker_def)

lemma workers_fields [simp]:
  "workers P (p\<lparr>tp_tasksQueue := q\<rparr>) = workers P p" "workers P (p\<lparr>tp_info := i\<rparr>) = workers P p"
  "workers P (p\<lparr>tp_callers := n\<rparr>) = workers P p"
  by (simp_all add: workers_def)

lemma set_worker_fields [simp]:
  "tp_tasksQueue (set_worker i w p) = tp_tasksQueue p" "tp_info (set_worker i w p) = tp_info p"
  "tp_callers (set_worker i w p) = tp_callers p" "length (tp_threads (set_worker i w p)) = length (tp_threads p)"
  by (simp_all add: set_worker_def)

lemma Waiting_set_worker:
  "Waiting \<in> set (tp_threads (set_worker i w p)) \<Longrightarrow> Waiting \<in> set (tp_threads p) \<or> w = Waiting"
  using set_update_subset_insert[of "tp_threads p" i w] by (auto simp: set_worker_def)

text \<open>How a round of a worker changes the pool.\<close>

lemma work_count_fields [simp]:
  "pi_started (work_count st i) = pi_started i" "pi_queueLength (work_count st i) = pi_queueLength i"
  "pi_busyThreadsCounter (work_count st i) = pi_busyThreadsCounter i - (if st = NoTask then 0 else 1)"
  by (cases st; simp)+

lemma work_poll_cases:
  assumes "work_poll p = (w, p')"
  obtains (stopped) "w = Returned" "p' = p" "\<not> pi_started (tp_info p)"
  | (empty) "w = Waiting" "p' = p" "tp_tasksQueue p = []" "pi_started (tp_info p)"
  | (take) t q where "w = Handling t" "tp_tasksQueue p = t # q" "pi_started (tp_info p)"
      "p' = p\<lparr>tp_tasksQueue := q, tp_info := (tp_info p)\<lparr>pi_busyThreadsCounter := pi_busyThreadsCounter (tp_info p) + 1\<rparr>\<rparr>"
  using assms that by (auto simp: work_poll_def split: if_splits list.splits)

lemma pool_inv_poll:
  assumes inv: "pool_inv p" and at: "at_worker p i w0" "is_awake w0"
    and q: "work_poll q' = (w, p')"
    and q': "tp_threads q' = tp_threads p" "tp_tasksQueue q' = tp_tasksQueue p" "tp_callers q' = tp_callers p"
      "pi_started (tp_info q') = pi_started (tp_info p)" "pi_queueLength (tp_info q') = pi_queueLength (tp_info p)"
      "pi_busyThreadsCounter (tp_info q') + (if is_busy w0 then 1 else 0) = pi_busyThreadsCounter (tp_info p)"
  shows "pool_inv (set_worker i w p')"
proof -
  have thr: "tp_threads p' = tp_threads p"
    using q q'(1) by (cases rule: work_poll_cases) auto
  note ws = workers_set[OF thr at(1), of is_busy w] workers_set[OF thr at(1), of is_awake w]
  have busy: "pi_busyThreadsCounter (tp_info p') = of_nat (workers is_busy (set_worker i w p'))"
  proof -
    let ?before = "if is_busy w0 then 1 else 0 :: 64 word" and ?after = "if is_busy w then 1 else 0 :: 64 word"
    have "(of_nat (workers is_busy (set_worker i w p') + (if is_busy w0 then 1 else 0)) :: 64 word) =
        of_nat (workers is_busy p + (if is_busy w then 1 else 0))" using ws(1) by simp
    then have "of_nat (workers is_busy (set_worker i w p')) + ?before = pi_busyThreadsCounter (tp_info p) + ?after"
      using inv by (simp add: pool_inv_def if_distrib[where f = "of_nat :: nat \<Rightarrow> 64 word"] cong: if_cong split del: if_split)
    also have "\<dots> = (pi_busyThreadsCounter (tp_info q') + ?after) + ?before"
      by (simp only: q'(6)[symmetric] ac_simps)
    finally have "of_nat (workers is_busy (set_worker i w p')) = pi_busyThreadsCounter (tp_info q') + ?after"
      by (simp only: add_right_cancel)
    moreover have "pi_busyThreadsCounter (tp_info p') = pi_busyThreadsCounter (tp_info q') + ?after"
      using q by (cases rule: work_poll_cases) auto
    ultimately show ?thesis by simp
  qed
  show ?thesis
    using q
  proof (cases rule: work_poll_cases)
    case stopped
    then show ?thesis using inv busy q' Waiting_set_worker[of i w p'] by (auto simp: pool_inv_def)
  next
    case empty
    then show ?thesis using inv busy q' by (auto simp: pool_inv_def)
  next
    case (take t r)
    then show ?thesis
      using inv busy q' ws(2) at(2) Waiting_set_worker[of i w p'] thr by (auto simp: pool_inv_def)
  qed
qed

lemma pool_inv_notify_all:
  "pool_inv p \<Longrightarrow> pool_inv (pool_stop p)"
proof -
  assume inv: "pool_inv p"
  have "length (filter is_busy (notify_all_waiting ws)) = length (filter is_busy ws)" for ws :: "'a worker list"
    by (induction ws) (auto simp: notify_all_waiting_def)
  moreover have "Waiting \<notin> set (notify_all_waiting ws)" for ws :: "'a worker list"
    by (auto simp: notify_all_waiting_def)
  ultimately show ?thesis using inv by (simp add: pool_inv_def pool_stop_def workers_def)
qed

lemma pool_inv_add:
  assumes "pool_inv p" "addTask lcast t p = (r, p')"
  shows "pool_inv p'"
proof -
  have "of_nat (length (tp_tasksQueue p)) < pi_queueLength (tp_info p) \<Longrightarrow>
      length (tp_tasksQueue p) < unat (pi_queueLength (tp_info p))"
  proof -
    have "length (tp_tasksQueue p) < 2 ^ 64"
      using assms(1) unsigned_less[where 'a = nat, of "pi_queueLength (tp_info p)"] by (simp add: pool_inv_def)
    then show "of_nat (length (tp_tasksQueue p)) < pi_queueLength (tp_info p) \<Longrightarrow>
        length (tp_tasksQueue p) < unat (pi_queueLength (tp_info p))"
      by (simp add: word_less_nat_alt unat_of_nat)
  qed
  then show ?thesis
    using assms by (auto simp: pool_inv_def addTask_def addTask_section_def workers_def not_le split: if_splits prod.splits)
qed

lemma pool_inv_move:
  assumes "pool_inv p" "at_worker p i w0" "is_busy w = is_busy w0" "is_awake w0 \<Longrightarrow> is_awake w" "w \<noteq> Waiting"
  shows "pool_inv (set_worker i w p)"
  using assms workers_set[OF refl assms(2), of is_busy w] workers_set[OF refl assms(2), of is_awake w]
    Waiting_set_worker[of i w p]
  by (auto simp: pool_inv_def split: if_splits)

lemma pool_step_inv: "pool_step lcast p e p' \<Longrightarrow> pool_inv p \<Longrightarrow> pool_inv p'"
proof (induction rule: pool_step.induct)
  case (notify_one p n i)
  have at: "at_worker (p\<lparr>tp_callers := n\<rparr>) i Waiting" using notify_one.hyps(2) by (simp add: at_worker_def)
  show ?case
    using notify_one workers_set[OF refl at, of is_busy Woken] workers_set[OF refl at, of is_awake Woken]
      nth_mem[of i "tp_threads p"]
    by (auto simp: pool_inv_def at_worker_def)
next
  case (locked p i st w p')
  show ?case
    by (rule pool_inv_poll[OF locked.prems locked.hyps(1) _ locked.hyps(2)[unfolded work_section_def]])
       simp_all
next
  case (resume p i w p')
  show ?case by (rule pool_inv_poll[OF resume.prems resume.hyps(1) _ resume.hyps(2)]) simp_all
next
  case (start p)
  then show ?case by (auto simp: pool_inv_def pool_start_def workers_def)
next
  case (info p)
  then show ?case by (simp add: pool_inv_def getInfo_def workers_def Let_def)
next
  case (notify_none p n)
  then show ?case by (simp add: pool_inv_def)
qed (auto intro: pool_inv_notify_all pool_inv_add pool_inv_move)

text \<open>A pool as it is constructed, and the states a run leads to.\<close>

definition pool_initial :: "'t thread_pool \<Rightarrow> bool" where
  "pool_initial p \<longleftrightarrow> (\<exists>threadsNumber queueLength. p = ThreadPool_new threadsNumber queueLength)"

interpretation pool: invariant_system pool_initial "pool_step lcast" pool_inv
proof
  show "pool_inv s" if "pool_initial s" for s :: "'t thread_pool"
    using that by (auto simp: pool_initial_def ThreadPool_new_def pool_inv_def workers_def)
qed (rule pool_step_inv)

section \<open>Tasks over runs\<close>

fun accepted :: "'t pool_event \<Rightarrow> 't list" where
  "accepted (Add t True) = [t]"
| "accepted e = []"

fun taken :: "'t pool_event \<Rightarrow> 't list" where
  "taken (Poll i (Handling t)) = [t]"
| "taken e = []"

lemma taken_poll: "work_poll p = (w, p') \<Longrightarrow> taken (Poll i w) @ tp_tasksQueue p' = tp_tasksQueue p"
  by (erule work_poll_cases) auto

lemma pool_step_queue:
  "pool_step lcast p e p' \<Longrightarrow> taken e @ tp_tasksQueue p' = tp_tasksQueue p @ accepted e"
proof (induction rule: pool_step.induct)
  case (add t p r p')
  then show ?case by (auto simp: addTask_def addTask_section_def split: if_splits prod.splits)
next
  case (locked p i st w p')
  then show ?case using taken_poll[of "p\<lparr>tp_info := work_count st (tp_info p)\<rparr>" w p' i] by (simp add: work_section_def)
next
  case (resume p i w p')
  then show ?case using taken_poll[of p w p' i] by simp
qed (auto simp: pool_start_def pool_stop_def getInfo_def Let_def)

lemma pool_run_queue:
  "run (pool_step lcast) p es p' \<Longrightarrow>
     concat (map taken es) @ tp_tasksQueue p' = tp_tasksQueue p @ concat (map accepted es)"
proof (induction rule: run.induct)
  case (run_step p es p' e p'')
  then show ?case using pool_step_queue[OF run_step.hyps(2)] by simp
qed simp

text \<open>The number of tasks that the counters and the queue account for.\<close>

definition accounted :: "'t thread_pool \<Rightarrow> 64 word" where
  "accounted p = of_nat (length (tp_tasksQueue p)) + pi_busyThreadsCounter (tp_info p) +
     pi_goodTasksCounter (tp_info p) + pi_badTasksCounter (tp_info p)"

lemma accounted_set_worker [simp]: "accounted (set_worker i w p) = accounted p"
  and accounted_callers [simp]: "accounted (p\<lparr>tp_callers := n\<rparr>) = accounted p"
  and accounted_count [simp]: "accounted (p\<lparr>tp_info := work_count st (tp_info p)\<rparr>) = accounted p"
  by (simp_all add: accounted_def, cases st, simp_all)

lemma accounted_poll: "work_poll p = (w, p') \<Longrightarrow> accounted p' = accounted p"
  by (erule work_poll_cases) (auto simp: accounted_def)

lemma pool_step_accounted:
  "pool_step lcast p e p' \<Longrightarrow> accounted p' = accounted p + of_nat (length (accepted e))"
proof (induction rule: pool_step.induct)
  case (add t p r p')
  then show ?case
    by (auto simp: addTask_def addTask_section_def accounted_def split: if_splits prod.splits)
next
  case (locked p i st w p')
  then show ?case using accounted_poll[of "p\<lparr>tp_info := work_count st (tp_info p)\<rparr>" w p'] by (simp add: work_section_def)
next
  case (resume p i w p')
  then show ?case using accounted_poll[of p w p'] by simp
qed (auto simp: accounted_def pool_start_def pool_stop_def getInfo_def Let_def)

lemma pool_run_accounted:
  "run (pool_step lcast) p es p' \<Longrightarrow> accounted p' = accounted p + of_nat (length (concat (map accepted es)))"
  by (induction rule: run.induct) (simp_all add: pool_step_accounted)

section \<open>The end of the workers\<close>

fun worker_event :: "'t pool_event \<Rightarrow> bool" where
  "worker_event (Init i) = True"
| "worker_event (Poll i w) = True"
| "worker_event (Handled i ok) = True"
| "worker_event e = False"

text \<open>How many steps a worker of a stopped pool has before it.\<close>

fun steps_left :: "'t worker \<Rightarrow> nat" where
  "steps_left Starting = 2"
| "steps_left (Locking st) = 1"
| "steps_left Waiting = 1"
| "steps_left Woken = 1"
| "steps_left (Handling t) = 2"
| "steps_left Returned = 0"

definition pool_weight :: "'t thread_pool \<Rightarrow> nat" where
  "pool_weight p = sum_list (map steps_left (tp_threads p))"

definition stopped_step :: "(nat \<Rightarrow> string) \<Rightarrow> 't thread_pool \<Rightarrow> 't pool_event \<Rightarrow> 't thread_pool \<Rightarrow> bool" where
  "stopped_step lcast p e p' \<longleftrightarrow> pool_step lcast p e p' \<and> e \<noteq> Start"

lemma pool_weight_set:
  assumes "at_worker p i w0" "tp_threads q = tp_threads p"
  shows "pool_weight (set_worker i w q) + steps_left w0 = pool_weight p + steps_left w"
proof -
  let ?ws = "tp_threads p"
  have "sum_list (map steps_left (?ws[i := w])) + steps_left (?ws ! i) = sum_list (map steps_left ?ws) + steps_left w"
    if "i < length ?ws" for i
    using that elem_le_sum_list[of i "map steps_left ?ws"]
    by (simp add: map_update sum_list_update[of i "map steps_left ?ws"])
  then show ?thesis using assms by (fastforce simp: pool_weight_def set_worker_def at_worker_def)
qed

lemma pool_weight_move:
  assumes "at_worker p i w0" "tp_threads q = tp_threads p"
  shows "steps_left w \<le> steps_left w0 \<Longrightarrow> pool_weight (set_worker i w q) \<le> pool_weight p"
    and "steps_left w < steps_left w0 \<Longrightarrow> Suc (pool_weight (set_worker i w q)) \<le> pool_weight p"
  using pool_weight_set[OF assms, of w] by linarith+

lemma pool_weight_notify: "sum_list (map steps_left (notify_all_waiting ws)) = sum_list (map steps_left ws)"
  unfolding notify_all_waiting_def map_map by (rule arg_cong[where f = sum_list], rule map_cong) auto

lemma stopped_step_weight:
  assumes "\<not> pi_started (tp_info p)" "stopped_step lcast p e p'"
  shows "pool_weight p' + (if worker_event e then 1 else 0) \<le> pool_weight p"
proof -
  have "pool_step lcast p e p'" "e \<noteq> Start" using assms(2) by (simp_all add: stopped_step_def)
  then show ?thesis
  proof cases
    case stop
    then show ?thesis by (simp add: pool_stop_def pool_weight_def pool_weight_notify)
  next
    case (add t r)
    then show ?thesis using assms(1) by (auto simp: addTask_def addTask_section_def pool_weight_def)
  next
    case info
    then show ?thesis by (simp add: getInfo_def Let_def pool_weight_def)
  next
    case notify_none
    then show ?thesis by (simp add: pool_weight_def)
  qed (use assms(1) in \<open>auto simp: work_section_def work_poll_def intro!: pool_weight_move\<close>)
qed

lemma stopped_stays:
  "\<not> pi_started (tp_info p) \<Longrightarrow> stopped_step lcast p e p' \<Longrightarrow> \<not> pi_started (tp_info p')"
  unfolding stopped_step_def
  by (elim conjE pool_stepE)
     (auto simp: pool_stop_def getInfo_def Let_def addTask_def addTask_section_def work_section_def work_poll_def
       split: if_splits prod.splits)

definition stopped_pool :: "'t thread_pool \<Rightarrow> bool" where
  "stopped_pool p \<longleftrightarrow> pool_inv p \<and> \<not> pi_started (tp_info p)"

interpretation stopped: bounded_system stopped_pool "stopped_step lcast" stopped_pool pool_weight worker_event
proof
  fix s s' :: "'t thread_pool" and e
  assume s: "stopped_pool s" "stopped_step lcast s e s'"
  have "pool_step lcast s e s'" using s(2) by (simp add: stopped_step_def)
  then show "stopped_pool s'"
    using s pool_step_inv[of lcast s e s'] stopped_stays[OF _ s(2)] by (simp add: stopped_pool_def)
  show "pool_weight s' + (if worker_event e then 1 else 0) \<le> pool_weight s"
    using s stopped_step_weight[of s lcast e s'] by (simp add: stopped_pool_def)
qed

text \<open>A worker that has not returned and does not wait has a step of its own.\<close>

lemma worker_moves:
  assumes "at_worker p i w" "w \<noteq> Returned" "w \<noteq> Waiting"
  shows "\<exists>e p'. worker_event e \<and> pool_step lcast p e p'"
proof (cases w)
  case Starting
  then show ?thesis using assms(1) pool_step.init[of p i lcast] by (meson worker_event.simps(1))
next
  case (Locking st)
  obtain v q where "work_section st p = (v, q)" by (cases "work_section st p")
  then show ?thesis using assms(1) Locking pool_step.locked[of p i st v q lcast] by (meson worker_event.simps(2))
next
  case Woken
  obtain v q where "work_poll p = (v, q)" by (cases "work_poll p")
  then show ?thesis using assms(1) Woken pool_step.resume[of p i v q lcast] by (meson worker_event.simps(2))
next
  case (Handling t)
  then show ?thesis using assms(1) pool_step.handled[of p i t lcast True] by (meson worker_event.simps(3))
qed (use assms in simp_all)

lemma stuck_workers_returned:
  assumes "stopped_pool p" "\<nexists>e p'. worker_event e \<and> pool_step lcast p e p'"
  shows "pool_joins p"
proof -
  have "w = Returned" if w: "w \<in> set (tp_threads p)" for w
  proof (rule ccontr)
    assume "w \<noteq> Returned"
    moreover obtain i where "at_worker p i w" using w by (auto simp: in_set_conv_nth at_worker_def)
    moreover have "w \<noteq> Waiting" using assms(1) w by (auto simp: stopped_pool_def pool_inv_def)
    ultimately show False using worker_moves[of p i w lcast] assms(2) by blast
  qed
  then show ?thesis by (simp add: pool_joins_def list_all_iff)
qed

lemma pool_weight_le: "pool_weight p \<le> 2 * length (tp_threads p)"
proof -
  have "sum_list (map steps_left ws) \<le> 2 * length ws" for ws :: "'a worker list"
  proof (induction ws)
    case (Cons w ws)
    then show ?case by (cases w) simp_all
  qed simp
  then show ?thesis by (simp add: pool_weight_def)
qed

section \<open>Properties\<close>

text \<open>
  C17. In every state that a pool reaches, in whatever order its threads and callers run, the queue has at
  most the configured number of tasks, the busy counter is the number of workers with a task that is not
  yet counted as done, and a pool that is stopped has no worker left in a wait.
\<close>

theorem pool_bounds:
  assumes "run (pool_step lcast) (ThreadPool_new n q) es p"
  shows "length (tp_tasksQueue p) \<le> unat (pi_queueLength (tp_info p)) \<and>
    pi_busyThreadsCounter (tp_info p) = of_nat (workers is_busy p) \<and>
    (\<not> pi_started (tp_info p) \<longrightarrow> Waiting \<notin> set (tp_threads p))"
  using pool.reached_inv[OF _ assms] by (auto simp: pool_initial_def pool_inv_def)

text \<open>A run of a pool with one thread and room for one task.\<close>

definition example_pool :: "char worker list \<Rightarrow> string \<Rightarrow> 64 word \<Rightarrow> nat \<Rightarrow> char thread_pool" where
  "example_pool ws q busy n = \<lparr>tp_threads = ws, tp_tasksQueue = q,
     tp_info = \<lparr>pi_started = True, pi_threadsNumber = 1, pi_queueLength = 1, pi_busyThreadsCounter = busy,
       pi_currentQueue = 0, pi_goodTasksCounter = 0, pi_badTasksCounter = 0\<rparr>, tp_callers = n\<rparr>"

definition example_events :: "char pool_event list" where
  "example_events = [Start, Add CHR ''a'' True, Add CHR ''b'' False, Init 0, Poll 0 (Handling CHR ''a'')]"

lemma example_steps:
  "pool_step (\<lambda>n. []) (ThreadPool_new 1 1) Start (example_pool [Starting] [] 0 0)"
  "pool_step (\<lambda>n. []) (example_pool [Starting] [] 0 0) (Add CHR ''a'' True) (example_pool [Starting] ''a'' 0 1)"
  "pool_step (\<lambda>n. []) (example_pool [Starting] ''a'' 0 1) (Add CHR ''b'' False) (example_pool [Starting] ''a'' 0 2)"
  "pool_step (\<lambda>n. []) (example_pool [Starting] ''a'' 0 2) (Init 0) (example_pool [Locking NoTask] ''a'' 0 2)"
  "pool_step (\<lambda>n. []) (example_pool [Locking NoTask] ''a'' 0 2) (Poll 0 (Handling CHR ''a''))
     (example_pool [Handling CHR ''a''] [] 1 2)"
proof -
  have "pool_start (ThreadPool_new 1 1 :: char thread_pool) = example_pool [Starting] [] 0 0"
    by (simp add: pool_start_def ThreadPool_new_def example_pool_def)
  then show "pool_step (\<lambda>n. []) (ThreadPool_new 1 1) Start (example_pool [Starting] [] 0 0)"
    using pool_step.start[of "\<lambda>n. []" "ThreadPool_new 1 1 :: char thread_pool"] by simp
  show "pool_step (\<lambda>n. []) (example_pool [Starting] [] 0 0) (Add CHR ''a'' True) (example_pool [Starting] ''a'' 0 1)"
    using pool_step.add[of "\<lambda>n. []" "CHR ''a''" "example_pool [Starting] [] 0 0" None]
    by (simp add: addTask_def addTask_section_def example_pool_def)
  show "pool_step (\<lambda>n. []) (example_pool [Starting] ''a'' 0 1) (Add CHR ''b'' False) (example_pool [Starting] ''a'' 0 2)"
    using pool_step.add[of "\<lambda>n. []" "CHR ''b''" "example_pool [Starting] ''a'' 0 1" "Some _"]
    by (simp add: addTask_def addTask_section_def example_pool_def eval_nat_numeral)
  show "pool_step (\<lambda>n. []) (example_pool [Starting] ''a'' 0 2) (Init 0) (example_pool [Locking NoTask] ''a'' 0 2)"
    using pool_step.init[of "example_pool [Starting] ''a'' 0 2" 0 "\<lambda>n. []"]
    by (simp add: at_worker_def set_worker_def example_pool_def)
  show "pool_step (\<lambda>n. []) (example_pool [Locking NoTask] ''a'' 0 2) (Poll 0 (Handling CHR ''a''))
     (example_pool [Handling CHR ''a''] [] 1 2)"
    using pool_step.locked[of "example_pool [Locking NoTask] ''a'' 0 2" 0 NoTask "Handling CHR ''a''"
      "example_pool [Locking NoTask] [] 1 2" "\<lambda>n. []"]
    by (simp add: at_worker_def set_worker_def example_pool_def work_section_def work_poll_def)
qed

lemma example_run:
  "run (pool_step (\<lambda>n. [])) (ThreadPool_new 1 1) example_events (example_pool [Handling CHR ''a''] [] 1 2)"
  and example_run_add: "run (pool_step (\<lambda>n. [])) (ThreadPool_new 1 1) [Start, Add CHR ''a'' True] (example_pool [Starting] ''a'' 0 1)"
  unfolding example_events_def by (rule run_Cons run_nil example_steps)+

theorem pool_bounds_witness:
  "pi_busyThreadsCounter (tp_info (example_pool [Handling CHR ''a''] [] 1 2)) =
     of_nat (workers is_busy (example_pool [Handling CHR ''a''] [] 1 2))"
  using pool_bounds[OF example_run] by simp

text \<open>
  C4. Whatever the interleaving, the tasks that workers have taken, followed by the tasks in the queue, are
  the tasks that \<^verbatim>\<open>addTask\<close> has accepted: none is lost, none is taken twice, and the order is kept. The
  queue and the counters that \<^verbatim>\<open>getInfo\<close> reports add up to the number of accepted tasks, modulo the width
  of the counters.
\<close>

theorem tasks_fifo:
  assumes "run (pool_step lcast) (ThreadPool_new n q) es p"
  shows "concat (map taken es) @ tp_tasksQueue p = concat (map accepted es) \<and>
    of_nat (length (tp_tasksQueue p)) + pi_busyThreadsCounter (tp_info p) + pi_goodTasksCounter (tp_info p) +
      pi_badTasksCounter (tp_info p) = (of_nat (length (concat (map accepted es))) :: 64 word)"
  using pool_run_queue[OF assms] pool_run_accounted[OF assms] by (simp add: ThreadPool_new_def accounted_def)

theorem tasks_fifo_witness:
  "concat (map taken example_events) @ tp_tasksQueue (example_pool [Handling CHR ''a''] [] 1 2) = ''a''"
  using tasks_fifo[OF example_run] by (simp add: example_events_def)

text \<open>
  C18. No notification is lost: in every state that a pool reaches, if it is started and a task is queued,
  and some worker has not returned, then a worker can go on, or a caller is about to notify. The pool
  never depends on a wait that ends by accident.
\<close>

theorem pool_goes_on:
  assumes "run (pool_step lcast) (ThreadPool_new n q) es p"
    and "pi_started (tp_info p)" "tp_tasksQueue p \<noteq> []" "w \<in> set (tp_threads p)" "w \<noteq> Returned"
  shows "\<exists>e p'. (worker_event e \<or> e = Notify) \<and> pool_step lcast p e p'"
proof -
  have inv: "pool_inv p" using pool.reached_inv[OF _ assms(1)] by (auto simp: pool_initial_def)
  obtain i where i: "at_worker p i w" using assms(4) by (auto simp: in_set_conv_nth at_worker_def)
  show ?thesis
  proof (cases "w = Waiting")
    case False
    then show ?thesis using worker_moves[OF i assms(5)] by blast
  next
    case True
    then have "0 < workers is_awake p + tp_callers p"
      using inv assms(3,4) by (cases "tp_tasksQueue p") (auto simp: pool_inv_def)
    then consider m where "tp_callers p = Suc m" | v where "v \<in> set (tp_threads p)" "is_awake v"
      by (cases "tp_callers p") (auto simp: workers_def filter_empty_conv)
    then show ?thesis
    proof cases
      case 1
      then show ?thesis using pool_step.notify_one[OF 1] i True by blast
    next
      case 2
      then obtain j where "at_worker p j v" by (auto simp: in_set_conv_nth at_worker_def)
      then show ?thesis using worker_moves[of p j v lcast] 2(2) by (cases v) auto
    qed
  qed
qed

theorem pool_goes_on_witness:
  "\<exists>e p'. (worker_event e \<or> e = Notify) \<and> pool_step (\<lambda>n. []) (example_pool [Starting] ''a'' 0 1) e p'"
  by (rule pool_goes_on[OF example_run_add, of Starting])
     (simp_all add: example_pool_def)

text \<open>
  C19. After \<^verbatim>\<open>stop\<close>, and until a new \<^verbatim>\<open>start\<close>, the workers make at most two steps each, and when none of
  them can make another one they have all returned: \<^verbatim>\<open>join\<close> returns as soon as the tasks in hand have
  been handled, whatever is still queued.
\<close>

theorem stopped_pool_joins:
  assumes "run (pool_step lcast) (ThreadPool_new n q) es p" "\<not> pi_started (tp_info p)"
    and "run (stopped_step lcast) p es' p'"
  shows "length (filter worker_event es') \<le> 2 * length (tp_threads p) \<and>
    ((\<nexists>e p''. worker_event e \<and> pool_step lcast p' e p'') \<longrightarrow> pool_joins p')"
proof -
  have s: "stopped_pool p"
    using pool.reached_inv[OF _ assms(1)] assms(2) by (auto simp: stopped_pool_def pool_initial_def)
  have "length (filter worker_event es') \<le> 2 * length (tp_threads p)"
    using stopped.run_bounded[OF assms(3) s] pool_weight_le[of p] by simp
  then show ?thesis
    using stuck_workers_returned stopped.run_inv[OF assms(3) s] by blast
qed

text \<open>The run goes on: the pool is stopped, and its worker ends its task and returns.\<close>

definition example_stopped :: "char worker \<Rightarrow> 64 word \<Rightarrow> 64 word \<Rightarrow> char thread_pool" where
  "example_stopped w busy good = \<lparr>tp_threads = [w], tp_tasksQueue = [],
     tp_info = \<lparr>pi_started = False, pi_threadsNumber = 1, pi_queueLength = 1, pi_busyThreadsCounter = busy,
       pi_currentQueue = 0, pi_goodTasksCounter = good, pi_badTasksCounter = 0\<rparr>, tp_callers = 2\<rparr>"

lemma example_stopped_run:
  "run (pool_step (\<lambda>n. [])) (ThreadPool_new 1 1) (example_events @ [Stop]) (example_stopped (Handling CHR ''a'') 1 0)"
  "run (stopped_step (\<lambda>n. [])) (example_stopped (Handling CHR ''a'') 1 0) [Handled 0 True, Poll 0 Returned]
     (example_stopped Returned 0 1)"
proof -
  have "pool_stop (example_pool [Handling CHR ''a''] [] 1 2) = example_stopped (Handling CHR ''a'') 1 0"
    by (simp add: pool_stop_def example_pool_def example_stopped_def notify_all_waiting_def)
  then show "run (pool_step (\<lambda>n. [])) (ThreadPool_new 1 1) (example_events @ [Stop]) (example_stopped (Handling CHR ''a'') 1 0)"
    using run_step[OF example_run pool_step.stop] by simp
  have h: "pool_step (\<lambda>n. []) (example_stopped (Handling CHR ''a'') 1 0) (Handled 0 True) (example_stopped (Locking Good) 1 0)"
    using pool_step.handled[of "example_stopped (Handling CHR ''a'') 1 0" 0 "CHR ''a''" "\<lambda>n. []" True]
    by (simp add: at_worker_def set_worker_def example_stopped_def)
  have l: "pool_step (\<lambda>n. []) (example_stopped (Locking Good) 1 0) (Poll 0 Returned) (example_stopped Returned 0 1)"
    using pool_step.locked[of "example_stopped (Locking Good) 1 0" 0 Good Returned "example_stopped (Locking Good) 0 1" "\<lambda>n. []"]
    by (simp add: at_worker_def set_worker_def example_stopped_def work_section_def work_poll_def)
  show "run (stopped_step (\<lambda>n. [])) (example_stopped (Handling CHR ''a'') 1 0) [Handled 0 True, Poll 0 Returned]
     (example_stopped Returned 0 1)"
    using h l by (auto simp: stopped_step_def intro!: run_Cons run_nil)
qed

theorem stopped_pool_joins_witness:
  "length (filter worker_event [Handled 0 True, Poll 0 (Returned :: char worker)]) \<le> 2 \<and>
   pool_joins (example_stopped Returned 0 1)"
proof -
  have "\<nexists>e p''. worker_event e \<and> pool_step (\<lambda>n. []) (example_stopped Returned 0 1) e p''"
    by (auto simp: at_worker_def example_stopped_def elim!: pool_stepE)
  then show ?thesis
    using stopped_pool_joins[OF example_stopped_run(1) _ example_stopped_run(2)] by (simp add: example_stopped_def)
qed

end
