(* ===== verification/Request_Thread_Pool.thy ===== *)
theory Request_Thread_Pool
  imports Request_Impl Thread_Pool
begin

text \<open>
  How a pool handles a request (\<^verbatim>\<open>library/request_thread_pool.cpp\<close>, with \<^verbatim>\<open>RequestStream\<close> of
  \<^verbatim>\<open>library/stream.cpp\<close> and the handler context of \<^verbatim>\<open>library/handler.cpp\<close>). A handler is a component outside of
  the library: any code on the request and the context, a parameter. So are the texts of exceptions
  (\<open>what\<close>). The lines given to the logger are part of the result.

  An exception of a handler before the headers are sent becomes an error page (\<open>handler_error_page\<close>); one
  after that fails the task and adds nothing to the response (\<open>late_exception_fails\<close>). Handlers run in their
  order until one of them has processed the request (\<open>handlers_in_order\<close>).
\<close>

section \<open>Context and stream\<close>

type_synonym 'v handler_context = "(string, 'v) entries"

definition getParam :: "'v handler_context \<Rightarrow> string \<Rightarrow> 'v option" where
  "getParam params nam = sm_find params nam"

definition setParam :: "string \<Rightarrow> 'v \<Rightarrow> 'v handler_context \<Rightarrow> 'v handler_context" where
  "setParam nam val params = sm_put params nam val"

text \<open>
  The destructor of a \<^verbatim>\<open>RequestStream\<close> writes what was put into it; when it runs because of an exception and
  throws itself, the program is terminated. \<open>in_scope text act\<close> is \<open>act\<close> in the scope of a stream that holds
  \<open>text\<close>.
\<close>

definition is_exception :: "error \<Rightarrow> bool" where
  "is_exception e \<longleftrightarrow> e \<notin> {UndefinedBehaviour, Diverges, Terminate}"

definition in_scope :: "string \<Rightarrow> (request_impl, unit) st \<Rightarrow> (request_impl, unit) st" where
  "in_scope text act = (\<lambda>r. case act r of
     (Inr u, r') \<Rightarrow> if text \<noteq> [] then rq_write_buf text r' else (Inr (), r')
   | (Inl e, r') \<Rightarrow>
       if \<not> is_exception e then (Inl e, r')
       else if text \<noteq> [] then (case rq_write_buf text r' of
           (Inr u, r'') \<Rightarrow> (Inl e, r'')
         | (Inl e', r'') \<Rightarrow> (Inl (if is_exception e' then Terminate else e'), r''))
       else (Inl e, r'))"

section \<open>Handling a task\<close>

type_synonym 'v handler = "(request_impl \<times> 'v handler_context, unit) st"

fun run_handlers :: "'v handler list \<Rightarrow> 'v handler" where
  "run_handlers [] = returnS ()"
| "run_handlers (h # hs) = (\<lambda>s. if rq_processed (fst s) then (Inr (), s) else bindS h (\<lambda>_. run_handlers hs) s)"

definition handle_all :: "'v handler list \<Rightarrow> (request_impl, unit) st" where
  "handle_all hs = bindS (\<lambda>r. case run_handlers hs (r, []) of (res, (r', ctx)) \<Rightarrow> (res, r')) (\<lambda>_. sendHeaders)"

text \<open>What a \<^verbatim>\<open>catch\<close> clause does: the exception goes on when the status cannot be changed any more.\<close>

definition catch_clause :: "boost \<Rightarrow> error \<Rightarrow> (request_impl, unit) st \<Rightarrow> (request_impl, unit) st" where
  "catch_clause lib e reply = (\<lambda>r. case setStatus lib 500 r of
     (Inl _, r') \<Rightarrow> (Inl e, r')
   | (Inr _, r') \<Rightarrow> reply r')"

definition on_exception :: "boost \<Rightarrow> (error \<Rightarrow> string) \<Rightarrow> error \<Rightarrow> (request_impl, unit) st" where
  "on_exception lib what e =
     (case e of
        HttpException status \<Rightarrow> catch_clause lib e (sendError lib status)
      | UnknownException \<Rightarrow>
          catch_clause lib e (in_scope ''fastcgi-daemon: got unknown exception from handler'' (sendError lib 500))
      | _ \<Rightarrow> if is_exception e then catch_clause lib e (in_scope (what e) (sendError lib 500)) else throwS e)"

definition log_line :: "(error \<Rightarrow> string) \<Rightarrow> error \<Rightarrow> string list" where
  "log_line what e =
     (if \<not> is_exception e then []
      else if e = UnknownException then [''RequestsThreadPool::handleTask: got unknown exception, it should't happen'']
      else [what e])"

definition handleTask ::
  "boost \<Rightarrow> (error \<Rightarrow> string) \<Rightarrow> 'v handler list \<Rightarrow> request_impl \<Rightarrow> unit result \<times> request_impl \<times> string list" where
  "handleTask lib what hs r =
     (case catchS (handle_all hs) (on_exception lib what) r of
        (Inr u, r') \<Rightarrow> (Inr u, r', [])
      | (Inl e, r') \<Rightarrow> (Inl e, r', log_line what e))"

section \<open>Error pages\<close>

definition error_request :: "nat \<Rightarrow> request_impl \<Rightarrow> request_impl" where
  "error_request n r = put_out_header ''Status'' (status_line n)
     (r\<lparr>rq_out_cookies := [], rq_status := n, rq_out_headers := [(''Content-type'', ''text/html'')]\<rparr>)"

definition error_page :: "boost \<Rightarrow> nat \<Rightarrow> string" where
  "error_page lib n = ''<html><body><h1>'' @ lexical_cast_string lib n @ '' '' @ statusToString n @ ''</h1></body></html>''"

text \<open>A request whose reply is an error page: the headers of the page and the page itself, then a text.\<close>

definition error_reply :: "boost \<Rightarrow> nat \<Rightarrow> string \<Rightarrow> request_impl \<Rightarrow> request_impl" where
  "error_reply lib n text r =
     (let q = error_request n r in
      (rq_emit (header_block q @ error_page lib n @ (if getRequestMethod r = ''HEAD'' then [] else text)) q)
        \<lparr>rq_headers_sent := True\<rparr>)"

lemma rq_emit_sent: "rq_emit s (r\<lparr>rq_headers_sent := b\<rparr>) = (rq_emit s r)\<lparr>rq_headers_sent := b\<rparr>"
  by (simp add: rq_emit_def)

lemma rq_open_fields [simp]:
  "rq_open (r\<lparr>rq_headers_sent := b\<rparr>) = rq_open r" "rq_open (r\<lparr>rq_status := n\<rparr>) = rq_open r"
  "rq_open (r\<lparr>rq_out_cookies := cs\<rparr>) = rq_open r" "rq_open (r\<lparr>rq_out_headers := hs\<rparr>) = rq_open r"
  by (simp_all add: rq_open_def)

lemma sendError_open:
  assumes "rq_open r" "\<not> rq_headers_sent r"
  shows "sendError lib n r = (Inr (), error_reply lib n [] r)"
proof -
  let ?r0 = "r\<lparr>rq_out_cookies := [], rq_status := n, rq_out_headers := [(''Content-type'', ''text/html'')]\<rparr>"
  let ?q = "error_request n r"
  let ?h = "(rq_emit (header_block ?q) ?q)\<lparr>rq_headers_sent := True\<rparr>"
  have h: "sendHeadersInternal ?r0 = (Inr (), ?h)"
    using sendHeaders_open[of ?r0] assms by (simp add: cookies_printable_def error_request_def)
  have o: "rq_open ?h" using assms(1) by (simp add: error_request_def)
  then obtain io where io: "rq_stream ?h = Some io" by (auto simp: rq_open_def)
  have i: "hm_insert StringCIEqual [] ''Content-type'' ''text/html'' = [(''Content-type'', ''text/html'')]"
    by (simp add: hm_insert_def)
  show ?thesis
    using assms(2) o io
    by (simp add: sendError_def bindS_def getS_def modifyS_def i h error_reply_def error_page_def Let_def rq_emit_sent)
qed

lemma error_reply_facts:
  "rq_open r \<Longrightarrow> rq_open (error_reply lib n t r)" "rq_headers_sent (error_reply lib n t r)"
  "rq_vars (error_reply lib n t r) = rq_vars r" "rq_status (error_reply lib n t r) = n"
  by (simp_all add: error_reply_def error_request_def Let_def put_out_header_def)

lemma in_scope_error:
  assumes "rq_open r" "\<not> rq_headers_sent r"
  shows "in_scope text (sendError lib n) r = (Inr (), error_reply lib n text r)"
proof -
  let ?e = "error_reply lib n [] r"
  have o: "rq_open ?e" "rq_headers_sent ?e" using error_reply_facts assms(1) by blast+
  then obtain io where io: "rq_stream ?e = Some io" by (auto simp: rq_open_def)
  have m: "getRequestMethod ?e = getRequestMethod r"
    using error_reply_facts(3)[of lib n "[]" r] by (simp add: getRequestMethod_def)
  have "rq_write_buf text ?e = (Inr (), if getRequestMethod r = ''HEAD'' then ?e else rq_emit text ?e)"
    using o io m sendHeaders_sent[OF o(2)]
    by (simp add: rq_write_buf_def sendHeaders_def bindS_def getS_def returnS_def)
  then show ?thesis
    using sendError_open[OF assms, of lib n]
    by (auto simp: in_scope_def error_reply_def Let_def rq_emit_sent)
qed

lemma error_reply_status: "error_reply lib n text (r\<lparr>rq_status := m\<rparr>) = error_reply lib n text r"
  by (simp add: error_reply_def error_request_def put_out_header_def rq_emit_def header_block_def getRequestMethod_def Let_def)

text \<open>What the caller of a failed task sees, and the text behind the page.\<close>

fun reply_status :: "error \<Rightarrow> nat" where
  "reply_status (HttpException n) = n"
| "reply_status e = 500"

definition reply_text :: "(error \<Rightarrow> string) \<Rightarrow> error \<Rightarrow> string" where
  "reply_text what e = (case e of HttpException n \<Rightarrow> []
     | UnknownException \<Rightarrow> ''fastcgi-daemon: got unknown exception from handler'' | _ \<Rightarrow> what e)"

lemma on_exception_reply:
  assumes "is_exception e" "rq_open r" "\<not> rq_headers_sent r"
  shows "on_exception lib what e r = (Inr (), error_reply lib (reply_status e) (reply_text what e) r)"
proof -
  have s: "setStatus lib 500 r = (Inr (), r\<lparr>rq_status := 500\<rparr>)"
    using assms(3) by (simp add: setStatus_def bindS_def getS_def modifyS_def)
  have o: "rq_open (r\<lparr>rq_status := 500\<rparr>)" "\<not> rq_headers_sent (r\<lparr>rq_status := 500\<rparr>)" using assms(2,3) by simp_all
  show ?thesis
    using assms(1) s in_scope_error[OF o] sendError_open[OF o]
    by (cases e) (simp_all add: on_exception_def catch_clause_def reply_text_def error_reply_status)
qed

lemma on_exception_late:
  assumes "rq_headers_sent r"
  shows "on_exception lib what e r = (Inl e, r)"
proof -
  obtain e' where "setStatus lib 500 r = (Inl e', r)"
    using assms by (simp add: setStatus_def bindS_def getS_def throwS_def)
  then have "catch_clause lib e act r = (Inl e, r)" for act
    by (simp add: catch_clause_def)
  then show ?thesis by (cases e) (simp_all add: on_exception_def throwS_def)
qed

lemma run_handlers_append:
  "run_handlers hs s = (Inr (), s') \<Longrightarrow> run_handlers (hs @ ks) s = run_handlers ks s'"
  if "\<not> rq_processed (fst s')"
proof (induction hs arbitrary: s)
  case (Cons h hs)
  show ?case
  proof (cases "rq_processed (fst s)")
    case False
    then obtain t where "h s = (Inr (), t)" "run_handlers hs t = (Inr (), s')"
      using Cons.prems by (auto simp: bindS_def split: prod.splits sum.splits)
    then show ?thesis using Cons.IH[of t] False by (simp add: bindS_def)
  qed (use Cons.prems that in simp)
qed (simp add: returnS_def)

section \<open>Properties\<close>

text \<open>
  C12. When a handler ends with an exception before the headers are sent, and the stream takes writes, the
  task succeeds and the client gets an error page in the place of everything the handlers had set: the
  status of an \<^verbatim>\<open>HttpException\<close> and 500 for any other one, followed by the text of the exception (a \<^verbatim>\<open>HEAD\<close>
  request gets the page only). Nothing is logged.
\<close>

theorem handler_error_page:
  assumes "run_handlers hs (r, []) = (Inl e, (r1, ctx))" "is_exception e" "rq_open r1" "\<not> rq_headers_sent r1"
  shows "handleTask lib what hs r = (Inr (), error_reply lib (reply_status e) (reply_text what e) r1, [])"
  using assms on_exception_reply[OF assms(2-4), of lib what]
  by (simp add: handleTask_def catchS_def handle_all_def bindS_def)

definition example_boost :: boost where
  "example_boost = \<lparr>lexical_cast_ushort = \<lambda>s. Inl BadLexicalCast, lexical_cast_streamsize = \<lambda>s. Inl BadLexicalCast,
     lexical_cast_string = show_nat\<rparr>"

theorem handler_error_page_witness:
  "\<exists>r. handleTask example_boost (\<lambda>e. ''boom'') [throwS (RuntimeError ''boom'') :: unit handler] example_request = (Inr (), r, []) \<and>
     rq_status r = 500"
proof -
  have f: "rq_open example_request" "\<not> rq_headers_sent example_request" "\<not> rq_processed example_request"
    by (simp_all add: example_request_def rq_open_def RequestImpl_new_def rq_reset_def)
  have "run_handlers [throwS (RuntimeError ''boom'') :: unit handler] (example_request, []) =
      (Inl (RuntimeError ''boom''), (example_request, []))"
    using f(3) by (simp add: bindS_def throwS_def)
  from handler_error_page[OF this _ f(1,2), of example_boost "\<lambda>e. ''boom''"] show ?thesis
    using error_reply_facts(4)[of example_boost 500 "''boom''" example_request] by (auto simp: is_exception_def reply_text_def)
qed

text \<open>
  When a handler ends with an exception after the headers have been sent, the task fails with that
  exception, nothing more is sent, and one line is logged.
\<close>

theorem late_exception_fails:
  assumes "run_handlers hs (r, []) = (Inl e, (r1, ctx))" "is_exception e" "rq_headers_sent r1"
  shows "\<exists>line. handleTask lib what hs r = (Inl e, r1, [line])"
  using assms on_exception_late[OF assms(3), of lib what e]
  by (simp add: handleTask_def catchS_def handle_all_def bindS_def log_line_def)

theorem late_exception_fails_witness:
  "\<exists>line. handleTask example_boost (\<lambda>e. ''boom'') [throwS (RuntimeError ''boom'') :: unit handler]
     (example_request\<lparr>rq_headers_sent := True\<rparr>) = (Inl (RuntimeError ''boom''), example_request\<lparr>rq_headers_sent := True\<rparr>, [line])"
proof -
  let ?r = "example_request\<lparr>rq_headers_sent := True\<rparr>"
  have "run_handlers [throwS (RuntimeError ''boom'') :: unit handler] (?r, []) = (Inl (RuntimeError ''boom''), (?r, []))"
    by (simp add: bindS_def throwS_def example_request_def RequestImpl_new_def rq_reset_def)
  from late_exception_fails[OF this, of example_boost "\<lambda>e. ''boom''"] show ?thesis by (simp add: is_exception_def)
qed

text \<open>
  The handlers of a task run in their order; the first one that marks the request as processed is the
  last one to run, and then the headers are sent, unless a handler has sent them. On a stream that takes
  writes the task succeeds.
\<close>

theorem handlers_in_order:
  assumes "run_handlers hs (r, []) = (Inr (), (r1, ctx))" "\<not> rq_processed r1"
    and "h (r1, ctx) = (Inr (), (r2, ctx2))" "rq_processed r2" "rq_open r2" "cookies_printable r2"
  shows "\<exists>r3. handleTask lib what (hs @ h # ks) r = (Inr (), r3, []) \<and> rq_headers_sent r3 \<and>
    (if rq_headers_sent r2 then r3 = r2
     else r3 = (let q = put_out_header ''Status'' (status_line (rq_status r2)) r2 in (rq_emit (header_block q) q)\<lparr>rq_headers_sent := True\<rparr>))"
proof -
  have "run_handlers (h # ks) (r1, ctx) = (Inr (), (r2, ctx2))"
    using assms(2-4) by (cases ks) (simp_all add: bindS_def returnS_def)
  then have "run_handlers (hs @ h # ks) (r, []) = (Inr (), (r2, ctx2))"
    using run_handlers_append[of "(r1, ctx)" hs "(r, [])" "h # ks"] assms(1,2) by simp
  then have "handleTask lib what (hs @ h # ks) r = (case catchS sendHeaders (on_exception lib what) r2 of
      (Inr u, r') \<Rightarrow> (Inr u, r', []) | (Inl e, r') \<Rightarrow> (Inl e, r', log_line what e))"
    by (simp add: handleTask_def catchS_def handle_all_def bindS_def)
  then show ?thesis
    using sendHeaders_open[of r2] sendHeaders_sent[of r2] assms(5,6)
    by (cases "rq_headers_sent r2") (simp_all add: catchS_def sendHeaders_def Let_def)
qed

theorem handlers_in_order_witness:
  "\<exists>r3. handleTask example_boost (\<lambda>e. []) [modifyS (\<lambda>s. ((fst s)\<lparr>rq_processed := True\<rparr>, snd s)) :: unit handler, throwS UnknownException]
     example_request = (Inr (), r3, []) \<and> rq_headers_sent r3"
proof -
  let ?h = "modifyS (\<lambda>s. ((fst s)\<lparr>rq_processed := True\<rparr>, snd s)) :: unit handler"
  have f: "rq_open (example_request\<lparr>rq_processed := True\<rparr>)" "cookies_printable (example_request\<lparr>rq_processed := True\<rparr>)"
    "\<not> rq_processed example_request"
    by (simp_all add: example_request_def rq_open_def RequestImpl_new_def rq_reset_def cookies_printable_def)
  show ?thesis
    using handlers_in_order[of "[]" example_request example_request "[]" ?h "example_request\<lparr>rq_processed := True\<rparr>" "[]"
      example_boost "\<lambda>e. []" "[throwS UnknownException]"] f
    by (auto simp: returnS_def modifyS_def)
qed

end
