(* ===== verification/Config_Xml.thy ===== *)
theory Config_Xml
  imports Prelude
begin

text \<open>
  The configuration (\<^verbatim>\<open>library/config.cpp\<close>, \<^verbatim>\<open>library/xml.cpp\<close>). The document and the evaluation of XPath
  expressions belong to libxml2, the search for a pattern to \<^verbatim>\<open>boost::regex\<close>, the conversion of numbers to
  \<^verbatim>\<open>boost::lexical_cast\<close>: they are parameters (\<open>xml_lib\<close>), and \<open>finds_variables\<close> states what the pattern
  \<^verbatim>\<open>\$\{([A-Za-z][A-Za-z0-9\-]*)\}\<close> of the constructor matches. The loop that replaces variables may run
  for ever (\<open>resolve_self_loops\<close>); it ends when no variable refers to another one (\<open>resolve_ends\<close>).

  The other components see a configuration through the virtual functions of \<^verbatim>\<open>fastcgi::Config\<close>: the
  record \<open>config\<close>.
\<close>

section \<open>Documents\<close>

text \<open>What the code looks at: the first child of a node or of an attribute.\<close>

datatype xml_child = TextNode "string option" | OtherNode

record xml_node =
  xn_child :: "xml_child option"
  xn_attrs :: "(string \<times> xml_child option) list"

record xml_lib =
  xml_parse :: "string \<Rightarrow> bool"
  xml_root :: bool
  xml_xinclude :: bool
  xml_message :: "string option"
  xpath_eval :: "string \<Rightarrow> xml_node list option"
  regex_search :: "string \<Rightarrow> (nat \<times> nat \<times> string) option"
  lexical_cast_int :: "string \<Rightarrow> int result"
  file_opens :: "string \<Rightarrow> bool"
  print_int :: "int \<Rightarrow> string"

definition child_value :: "xml_child option \<Rightarrow> string option" where
  "child_value c = (case c of Some (TextNode (Some s)) \<Rightarrow> Some s | _ \<Rightarrow> None)"

definition xml_value :: "xml_node \<Rightarrow> string option" where
  "xml_value node = child_value (xn_child node)"

definition xml_attr_value :: "xml_child option \<Rightarrow> string option" where
  "xml_attr_value attr = child_value attr"

definition attrValue :: "xml_node \<Rightarrow> string \<Rightarrow> string option" where
  "attrValue node nam = (case map_of (xn_attrs node) nam of Some attr \<Rightarrow> xml_attr_value attr | None \<Rightarrow> None)"

definition throwUnless :: "xml_lib \<Rightarrow> bool \<Rightarrow> unit result" where
  "throwUnless X val = (if val then Inr ()
     else Inl (RuntimeError (case xml_message X of Some m \<Rightarrow> m | None \<Rightarrow> ''unknown xml error'')))"

section \<open>Variables\<close>

type_synonym vars = "(string \<times> string) list"

text \<open>\<^verbatim>\<open>std::map::insert\<close> keeps an entry that is there.\<close>

definition vars_insert :: "vars \<Rightarrow> string \<Rightarrow> string \<Rightarrow> vars" where
  "vars_insert m k v = (case map_of m k of Some x \<Rightarrow> m | None \<Rightarrow> (k, v) # m)"

definition findVariables :: "xml_lib \<Rightarrow> vars \<Rightarrow> vars result" where
  "findVariables X vars =
     (case xpath_eval X ''/fastcgi/variables/variable'' of
        None \<Rightarrow> bindE (throwUnless X False) (\<lambda>_. Inr vars)
      | Some nodes \<Rightarrow> foldE (\<lambda>node vars.
          (case (xml_value node, attrValue node ''name'') of
             (Some val, Some nam) \<Rightarrow> Inr (vars_insert vars nam val)
           | _ \<Rightarrow> Inl (LogicError ''bad variable definition''))) nodes vars)"

definition findVariable :: "vars \<Rightarrow> string \<Rightarrow> string result" where
  "findVariable vars key = (case map_of vars key of Some v \<Rightarrow> Inr v
     | None \<Rightarrow> Inl (RuntimeError (''nonexistent variable '' @ key)))"

text \<open>\<^verbatim>\<open>val.replace(pos, len, s)\<close>.\<close>

definition str_replace :: "string \<Rightarrow> nat \<Rightarrow> nat \<Rightarrow> string \<Rightarrow> string" where
  "str_replace s pos len new = take pos s @ new @ drop (pos + len) s"

partial_function (option) resolveVariables :: "xml_lib \<Rightarrow> vars \<Rightarrow> string \<Rightarrow> string result option" where
  "resolveVariables X vars val =
     (case regex_search X val of
        None \<Rightarrow> Some (Inr val)
      | Some (pos, len, key) \<Rightarrow>
          (case findVariable vars key of
             Inl e \<Rightarrow> Some (Inl e)
           | Inr v \<Rightarrow> resolveVariables X vars (str_replace val pos len v)))"

section \<open>Lookups\<close>

definition ended :: "'a result option \<Rightarrow> 'a result" where
  "ended r = (case r of Some x \<Rightarrow> x | None \<Rightarrow> Inl Diverges)"

definition is_std_exception :: "error \<Rightarrow> bool" where
  "is_std_exception e \<longleftrightarrow> e \<notin> {UnknownException, UndefinedBehaviour, Diverges, Terminate}"

text \<open>\<^verbatim>\<open>catch (const std::exception &)\<close> around a value.\<close>

definition or_default :: "'a result \<Rightarrow> 'a \<Rightarrow> 'a result" where
  "or_default r d = (case r of Inr x \<Rightarrow> Inr x | Inl e \<Rightarrow> if is_std_exception e then Inr d else Inl e)"

definition asString :: "xml_lib \<Rightarrow> vars \<Rightarrow> string \<Rightarrow> string result" where
  "asString X vars key =
     bindE (case xpath_eval X key of
        None \<Rightarrow> bindE (throwUnless X False) (\<lambda>_. Inr [])
      | Some [] \<Rightarrow> Inl (RuntimeError (''nonexistent config param: '' @ key))
      | Some (node # _) \<Rightarrow> Inr (case xml_value node of Some val \<Rightarrow> val | None \<Rightarrow> []))
     (\<lambda>res. ended (resolveVariables X vars res))"

definition asString_or :: "xml_lib \<Rightarrow> vars \<Rightarrow> string \<Rightarrow> string \<Rightarrow> string result" where
  "asString_or X vars key defval = or_default (asString X vars key) defval"

definition asInt :: "xml_lib \<Rightarrow> vars \<Rightarrow> string \<Rightarrow> int result" where
  "asInt X vars key = bindE (asString X vars key) (lexical_cast_int X)"

definition asInt_or :: "xml_lib \<Rightarrow> vars \<Rightarrow> string \<Rightarrow> int \<Rightarrow> int result" where
  "asInt_or X vars key defval = or_default (asInt X vars key) defval"

definition subKeys :: "xml_lib \<Rightarrow> string \<Rightarrow> string list \<Rightarrow> string list result" where
  "subKeys X key v =
     (case xpath_eval X key of
        None \<Rightarrow> bindE (throwUnless X False) (\<lambda>_. Inr v)
      | Some nodes \<Rightarrow> Inr (v @ map (\<lambda>i. key @ ''['' @ print_int X (int i + 1) @ '']'') [0..<length nodes]))"

definition XmlConfig_new :: "xml_lib \<Rightarrow> string \<Rightarrow> vars result" where
  "XmlConfig_new X file =
     (if \<not> file_opens X file then Inl (RuntimeError (''can not open '' @ file))
      else bindE (throwUnless X (xml_parse X file)) (\<lambda>_.
        if \<not> xml_root X then Inl (LogicError ''got empty config'')
        else bindE (throwUnless X (xml_xinclude X)) (\<lambda>_. findVariables X [])))"

text \<open>The arguments of the program: the file named, and the arguments without it.\<close>

definition swap_last :: "'a list \<Rightarrow> nat \<Rightarrow> 'a list" where
  "swap_last xs i = (xs[i := last xs, length xs - 1 := xs ! i])"

definition after_equals :: "string \<Rightarrow> string option" where
  "after_equals s = (if CHR ''='' \<in> set s then Some (tl (dropWhile (\<lambda>c. c \<noteq> CHR ''='') s)) else None)"

fun find_config :: "string list \<Rightarrow> nat \<Rightarrow> (nat \<times> string) option" where
  "find_config [] i = None"
| "find_config (a # as) i =
     (if prefix ''--config'' a then
        (case after_equals a of Some file \<Rightarrow> Some (i, file) | None \<Rightarrow> find_config as (Suc i))
      else find_config as (Suc i))"

text \<open>\<open>help\<close> is the text of the help function, when there is one.\<close>

definition Config_create :: "xml_lib \<Rightarrow> string list \<Rightarrow> string option \<Rightarrow> (vars \<times> string list) result" where
  "Config_create X argv help =
     (case find_config (tl argv) 1 of
        Some (i, file) \<Rightarrow> bindE (XmlConfig_new X file) (\<lambda>conf. Inr (conf, butlast (swap_last argv i)))
      | None \<Rightarrow> Inl (LogicError (case help of Some s \<Rightarrow> s
          | None \<Rightarrow> ''usage: fastcgi-daemon --config=<config file>'')))"

text \<open>The virtual functions of a configuration.\<close>

record config =
  cfg_asInt :: "string \<Rightarrow> int result"
  cfg_asInt_or :: "string \<Rightarrow> int \<Rightarrow> int result"
  cfg_asString :: "string \<Rightarrow> string result"
  cfg_asString_or :: "string \<Rightarrow> string \<Rightarrow> string result"
  cfg_subKeys :: "string \<Rightarrow> string list result"

definition xml_config :: "xml_lib \<Rightarrow> vars \<Rightarrow> config" where
  "xml_config X vars = \<lparr>cfg_asInt = asInt X vars, cfg_asInt_or = asInt_or X vars, cfg_asString = asString X vars,
     cfg_asString_or = asString_or X vars, cfg_subKeys = (\<lambda>key. subKeys X key [])\<rparr>"

section \<open>References to variables\<close>

definition name_start :: "char \<Rightarrow> bool" where
  "name_start c \<longleftrightarrow> c \<in> {CHR ''A''..CHR ''Z''} \<union> {CHR ''a''..CHR ''z''}"

definition name_char :: "char \<Rightarrow> bool" where
  "name_char c \<longleftrightarrow> name_start c \<or> c \<in> {CHR ''0''..CHR ''9''} \<or> c = CHR ''-''"

definition var_name :: "string \<Rightarrow> bool" where
  "var_name k = (case k of [] \<Rightarrow> False | c # cs \<Rightarrow> name_start c \<and> list_all name_char cs)"

abbreviation var_ref :: "string \<Rightarrow> string" where
  "var_ref k \<equiv> ''${'' @ k @ ''}''"

text \<open>The documented result of a search with the pattern: a match with its name, or none when there is none.\<close>

definition finds_variables :: "(string \<Rightarrow> (nat \<times> nat \<times> string) option) \<Rightarrow> bool" where
  "finds_variables search \<longleftrightarrow> (\<forall>s. case search s of
      None \<Rightarrow> \<nexists>a k b. s = a @ var_ref k @ b \<and> var_name k
    | Some (pos, len, k) \<Rightarrow> \<exists>a b. s = a @ var_ref k @ b \<and> var_name k \<and> pos = length a \<and> len = length (var_ref k))"

lemma finds_variablesD:
  assumes "finds_variables search"
  shows "search s = None \<Longrightarrow> s = a @ var_ref k @ b \<Longrightarrow> \<not> var_name k"
    and "search s = Some (pos, len, k) \<Longrightarrow>
      \<exists>a b. s = a @ var_ref k @ b \<and> var_name k \<and> pos = length a \<and> len = length (var_ref k)"
proof -
  have s: "case search s of None \<Rightarrow> \<nexists>a k b. s = a @ var_ref k @ b \<and> var_name k
    | Some (pos, len, k) \<Rightarrow> \<exists>a b. s = a @ var_ref k @ b \<and> var_name k \<and> pos = length a \<and> len = length (var_ref k)"
    using assms unfolding finds_variables_def by (rule spec)
  show "search s = None \<Longrightarrow> s = a @ var_ref k @ b \<Longrightarrow> \<not> var_name k"
    using s by (simp only: option.case) blast
  show "search s = Some (pos, len, k) \<Longrightarrow>
      \<exists>a b. s = a @ var_ref k @ b \<and> var_name k \<and> pos = length a \<and> len = length (var_ref k)"
    using s by (simp only: option.case prod.case)
qed

lemma resolve_step:
  assumes "finds_variables (regex_search X)" "regex_search X s = Some (pos, len, k)"
  obtains a b where "s = a @ var_ref k @ b" "var_name k"
    "resolveVariables X vars s = (case findVariable vars k of Inl e \<Rightarrow> Some (Inl e)
       | Inr v \<Rightarrow> resolveVariables X vars (a @ v @ b))"
proof -
  obtain a b where ab: "s = a @ var_ref k @ b" "var_name k" "pos = length a" "len = length (var_ref k)"
    using finds_variablesD(2)[OF assms] by blast
  have "drop (length a + length (var_ref k)) ((a @ var_ref k) @ b) = b"
    by (simp only: length_append[symmetric] append_eq_conv_conj[THEN iffD1, OF refl, THEN conjunct2, symmetric])
  then have "str_replace s pos len v = a @ v @ b" for v
    unfolding str_replace_def ab(3,4) by (simp only: ab(1) append_assoc append_eq_conv_conj[THEN iffD1, OF refl, THEN conjunct1, symmetric])
  then have "resolveVariables X vars s = (case findVariable vars k of Inl e \<Rightarrow> Some (Inl e)
       | Inr v \<Rightarrow> resolveVariables X vars (a @ v @ b))"
    using assms(2) by (subst resolveVariables.simps) (simp split: sum.splits)
  with ab show ?thesis by (intro that)
qed

lemma name_char_dollar: "name_char c \<Longrightarrow> c \<noteq> CHR ''$''" "name_start c \<Longrightarrow> c \<noteq> CHR ''$''"
  by (auto simp: name_char_def name_start_def less_eq_char_def)

lemma var_name_dollar: "var_name k \<Longrightarrow> CHR ''$'' \<notin> set k"
  using name_char_dollar by (cases k) (auto simp: var_name_def list_all_iff)

text \<open>A reference is replaced by a value without a dollar sign: one dollar sign less is left.\<close>

lemma resolve_total:
  assumes rs: "finds_variables (regex_search X)" and vars: "\<forall>kv\<in>set vars. CHR ''$'' \<notin> set (snd kv)"
  shows "\<exists>r. resolveVariables X vars s = Some r \<and>
    (case r of Inl e \<Rightarrow> \<exists>k. map_of vars k = None \<and> e = RuntimeError (''nonexistent variable '' @ k)
     | Inr t \<Rightarrow> \<nexists>a k b. t = a @ var_ref k @ b \<and> var_name k)"
proof (induction "count_list s (CHR ''$'')" arbitrary: s rule: less_induct)
  case less
  show ?case
  proof (cases "regex_search X s")
    case None
    then have "resolveVariables X vars s = Some (Inr s)" by (subst resolveVariables.simps) simp
    then show ?thesis using finds_variablesD(1)[OF rs None] by auto
  next
    case (Some m)
    obtain pos len k where m: "m = (pos, len, k)" by (cases m)
    obtain a b where ab: "s = a @ var_ref k @ b" "var_name k"
      "resolveVariables X vars s = (case findVariable vars k of Inl e \<Rightarrow> Some (Inl e)
         | Inr v \<Rightarrow> resolveVariables X vars (a @ v @ b))"
      using resolve_step[OF rs Some[unfolded m]] by metis
    show ?thesis
    proof (cases "map_of vars k")
      case None
      then show ?thesis using ab(3) by (auto simp: findVariable_def)
    next
      case (Some v)
      then have "CHR ''$'' \<notin> set v" using vars map_of_SomeD by fastforce
      then have "count_list (a @ v @ b) (CHR ''$'') < count_list s (CHR ''$'')"
        using ab(1) by (simp add: count_notin)
      then show ?thesis using less[of "a @ v @ b"] ab(3) Some by (simp add: findVariable_def)
    qed
  qed
qed

lemma self_reference_split:
  assumes "var_ref k = a @ var_ref j @ b" "var_name k" "var_name j"
  shows "a = [] \<and> j = k \<and> b = []"
proof -
  have d: "CHR ''$'' \<notin> set k" using var_name_dollar[OF assms(2)] .
  have a: "a = []"
  proof (cases a)
    case (Cons c cs)
    then have "CHR ''{'' # k @ ''}'' = cs @ var_ref j @ b" using assms(1) by simp
    then have "CHR ''$'' \<in> set (CHR ''{'' # k @ ''}'')" by simp
    then show ?thesis using d by simp
  qed
  have brace: "\<not> name_char (CHR ''}'')" "\<not> name_start (CHR ''}'')"
    by (simp_all add: name_char_def name_start_def less_eq_char_def)
  then have br: "CHR ''}'' \<notin> set k" "CHR ''}'' \<notin> set j"
    using assms(2,3) by (auto simp: var_name_def list_all_iff split: list.splits)
  have "k @ ''}'' = j @ CHR ''}'' # b" using assms(1) a by simp
  then have "takeWhile (\<lambda>c. c \<noteq> CHR ''}'') (k @ CHR ''}'' # []) = takeWhile (\<lambda>c. c \<noteq> CHR ''}'') (j @ CHR ''}'' # b)"
    by simp
  then have "k = j" using br by (subst (asm) (1 2) takeWhile_append_stop) auto
  then show ?thesis using assms(1) a by simp
qed

lemma self_search:
  assumes rs: "finds_variables (regex_search X)" and k: "var_name k"
  obtains pos len where "regex_search X (var_ref k) = Some (pos, len, k)" "\<And>v. str_replace (var_ref k) pos len v = v"
proof (cases "regex_search X (var_ref k)")
  case None
  then show ?thesis using finds_variablesD(1)[OF rs None, of "[]" k "[]"] k by simp
next
  case (Some m)
  obtain pos len j where m: "m = (pos, len, j)" by (cases m)
  obtain a b where ab: "var_ref k = a @ var_ref j @ b" "var_name j" "pos = length a" "len = length (var_ref j)"
    using finds_variablesD(2)[OF rs Some[unfolded m]] by blast
  then have "a = []" "j = k" "b = []" using self_reference_split[OF ab(1) k ab(2)] by simp_all
  then have "regex_search X (var_ref k) = Some (pos, len, k)" "str_replace (var_ref k) pos len v = v" for v
    using Some m ab(3,4) by (simp_all add: str_replace_def)
  then show ?thesis by (rule that)
qed

lemma resolve_self_None:
  assumes rs: "finds_variables (regex_search X)" and k: "var_name k" "map_of vars k = Some (var_ref k)"
  shows "resolveVariables X vars (var_ref k) = None"
proof (rule ccontr)
  assume "resolveVariables X vars (var_ref k) \<noteq> None"
  then obtain y where y: "resolveVariables X vars (var_ref k) = Some y" by blast
  let ?P = "\<lambda>X vars s (y :: string result). finds_variables (regex_search X) \<and> map_of vars k = Some (var_ref k) \<longrightarrow>
    s \<noteq> var_ref k"
  have "?P X vars (var_ref k) y"
    using y
  proof (rule resolveVariables.raw_induct[where P = ?P, rotated])
    fix f :: "xml_lib \<Rightarrow> vars \<Rightarrow> string \<Rightarrow> string result option" and X vars s y
    assume IH: "\<And>X vars s y. f X vars s = Some y \<Longrightarrow>
        finds_variables (regex_search X) \<and> map_of vars k = Some (var_ref k) \<longrightarrow> s \<noteq> var_ref k"
      and b: "(case regex_search X s of None \<Rightarrow> Some (Inr s)
        | Some (pos, len, key) \<Rightarrow> (case findVariable vars key of Inl e \<Rightarrow> Some (Inl e)
            | Inr v \<Rightarrow> f X vars (str_replace s pos len v))) = Some y"
    show "finds_variables (regex_search X) \<and> map_of vars k = Some (var_ref k) \<longrightarrow> s \<noteq> var_ref k"
    proof (intro impI notI, elim conjE)
      assume s: "finds_variables (regex_search X)" "map_of vars k = Some (var_ref k)" "s = var_ref k"
      obtain pos len where "regex_search X s = Some (pos, len, k)" "str_replace s pos len (var_ref k) = var_ref k"
        using self_search[OF s(1) k(1)] s(3) by metis
      then have "f X vars (var_ref k) = Some y" using b s(2) by (simp add: findVariable_def)
      then show False using IH s(1,2) by blast
    qed
  qed
  then show False using rs k by blast
qed

section \<open>Properties\<close>

text \<open>
  When no value of a variable has a dollar sign in it, the replacement of variables in a value of the
  configuration ends, and no reference to a variable is left in the result; the only error is a reference
  to a variable that does not exist.
\<close>

theorem resolve_ends:
  assumes "finds_variables (regex_search X)" "\<forall>kv\<in>set vars. CHR ''$'' \<notin> set (snd kv)"
  shows "\<exists>r. resolveVariables X vars s = Some r \<and>
    (case r of Inl e \<Rightarrow> \<exists>k. map_of vars k = None \<and> e = RuntimeError (''nonexistent variable '' @ k)
     | Inr t \<Rightarrow> \<nexists>a k b. t = a @ var_ref k @ b \<and> var_name k)"
  using resolve_total[OF assms] .

text \<open>A search for the pattern, to evaluate examples with.\<close>

fun var_search_from :: "nat \<Rightarrow> string \<Rightarrow> (nat \<times> nat \<times> string) option" where
  "var_search_from n [] = None"
| "var_search_from n (c # cs) =
     (let k = takeWhile name_char (drop 1 cs) in
      if prefix ''${'' (c # cs) \<and> var_name k \<and> prefix ''}'' (drop (Suc (length k)) cs) then Some (n, length k + 3, k)
      else var_search_from (Suc n) cs)"

lemma takeWhile_name: "var_name k \<Longrightarrow> takeWhile name_char (k @ CHR ''}'' # b) = k"
proof -
  assume k: "var_name k"
  have "\<not> name_char (CHR ''}'')" by (simp add: name_char_def name_start_def less_eq_char_def)
  moreover have "\<forall>c\<in>set k. name_char c" using k by (auto simp: var_name_def name_char_def list_all_iff split: list.splits)
  ultimately show ?thesis by simp
qed

lemma var_search_from_some:
  "var_search_from n s = Some (pos, len, k) \<Longrightarrow>
     \<exists>a b. s = a @ var_ref k @ b \<and> var_name k \<and> pos = n + length a \<and> len = length (var_ref k)"
proof (induction n s rule: var_search_from.induct)
  case (2 n c cs)
  let ?k = "takeWhile name_char (drop 1 cs)"
  show ?case
  proof (cases "prefix ''${'' (c # cs) \<and> var_name ?k \<and> prefix ''}'' (drop (Suc (length ?k)) cs)")
    case True
    then obtain r where r: "c = CHR ''$''" "cs = CHR ''{'' # r" by (auto simp: prefix_def)
    have "drop (length ?k) r = dropWhile name_char r" using r dropWhile_eq_drop[of name_char r] by simp
    then obtain b where "dropWhile name_char r = CHR ''}'' # b" using True r by (auto simp: prefix_def)
    then have "c # cs = [] @ var_ref ?k @ b"
      using r takeWhile_dropWhile_id[of name_char r] by simp
    moreover have "pos = n + length []" "len = length (var_ref k)" "k = ?k"
      using 2(2) True by (auto simp: Let_def)
    ultimately show ?thesis using True by blast
  next
    case False
    then have "var_search_from (Suc n) cs = Some (pos, len, k)" using 2(2) by (auto simp: Let_def split: if_splits)
    then obtain a b where "cs = a @ var_ref k @ b \<and> var_name k \<and> pos = Suc n + length a \<and> len = length (var_ref k)"
      using 2(1) False by meson
    then show ?thesis by (intro exI[of _ "c # a"] exI[of _ b]) simp
  qed
qed simp

lemma var_search_from_none:
  "var_search_from n s = None \<Longrightarrow> var_name k \<Longrightarrow> s \<noteq> a @ var_ref k @ b"
proof (induction n s arbitrary: a rule: var_search_from.induct)
  case (2 n c cs)
  show ?case
  proof
    assume s: "c # cs = a @ var_ref k @ b"
    show False
    proof (cases a)
      case Nil
      then show False using s 2(2,3) takeWhile_name[OF 2(3), of b] by (auto simp: Let_def split: if_splits)
    next
      case (Cons d ds)
      then have "cs = ds @ var_ref k @ b" using s by simp
      then show False using 2 by (auto simp: Let_def split: if_splits)
    qed
  qed
qed simp

lemma finds_variables_search: "finds_variables (var_search_from 0)"
  unfolding finds_variables_def
proof
  fix s
  show "case var_search_from 0 s of None \<Rightarrow> \<nexists>a k b. s = a @ var_ref k @ b \<and> var_name k
    | Some (pos, len, k) \<Rightarrow> \<exists>a b. s = a @ var_ref k @ b \<and> var_name k \<and> pos = length a \<and> len = length (var_ref k)"
    using var_search_from_some[of 0 s] var_search_from_none[of 0 s]
    by (cases "var_search_from 0 s") (auto split: prod.splits)
qed

definition example_lib :: xml_lib where
  "example_lib = \<lparr>xml_parse = (\<lambda>_. True), xml_root = True, xml_xinclude = True, xml_message = None,
     xpath_eval = (\<lambda>_. Some []), regex_search = var_search_from 0, lexical_cast_int = (\<lambda>_. Inl BadLexicalCast),
     file_opens = (\<lambda>_. True), print_int = (\<lambda>_. [])\<rparr>"

lemma example_lib_search [simp]: "regex_search example_lib = var_search_from 0"
  by (simp add: example_lib_def)

theorem resolve_ends_witness:
  "\<exists>r. resolveVariables example_lib [(''dir'', ''/tmp'')] ''${dir}/x'' = Some r"
  using resolve_ends[of example_lib "[(''dir'', ''/tmp'')]" "''${dir}/x''"] finds_variables_search by auto

text \<open>
  A variable whose value is a reference to itself makes every lookup that uses it run for ever.
\<close>

theorem resolve_self_loops:
  assumes "finds_variables (regex_search X)" "var_name k" "map_of vars k = Some (var_ref k)"
  shows "resolveVariables X vars (var_ref k) = None"
  using resolve_self_None[OF assms] .

theorem resolve_self_loops_witness:
  "resolveVariables example_lib [(''a'', ''${a}'')] (''${'' @ ''a'' @ ''}'') = None"
  by (rule resolve_self_loops) (simp_all add: finds_variables_search var_name_def name_start_def less_eq_char_def)

end
