(* ===== verification/Handler_Set.thy ===== *)
theory Handler_Set
  imports Request_Impl Config_Xml
begin

text \<open>
  Request filters and the set of handlers (\<^verbatim>\<open>library/request_filter.cpp\<close>, \<^verbatim>\<open>library/handlerset.cpp\<close>). Regular
  expressions belong to \<^verbatim>\<open>boost::regex\<close> and are parameters (\<open>regex_lib\<close>): the compilation of a pattern
  and the match of a whole string, both of which may throw, the match when it becomes too complex. Components are found through a stateful \<open>find\<close>, that of
  the component set, and cast to the interface of a handler by \<open>as_handler\<close>.

  The search for the handler of a request looks at the descriptions in their order and, in each, at the filters in
  theirs: it returns the first description all of whose filters accept the request, and it fails when a filter that
  it comes to fails (\<open>findURIHandler_first\<close>); every description that \<^verbatim>\<open>init\<close> adds carries the filters of its configuration
  (\<open>HandlerSet_init_ok\<close>), and needs a pool that \<^verbatim>\<open>getPoolsNeeded\<close> names.
\<close>

section \<open>Filters\<close>

record 'r regex_lib =
  rx_compile :: "string \<Rightarrow> 'r result"
  rx_match :: "'r \<Rightarrow> string \<Rightarrow> bool result"

definition RegexFilter_check :: "'r regex_lib \<Rightarrow> 'r \<Rightarrow> string \<Rightarrow> bool result" where
  "RegexFilter_check R regex val = rx_match R regex val"

datatype 'r request_filter =
    UrlFilter 'r
  | HostFilter 'r
  | PortFilter 'r
  | AddressFilter 'r
  | ParamFilter string 'r

fun filter_check :: "'r regex_lib \<Rightarrow> boost \<Rightarrow> 'r request_filter \<Rightarrow> request_impl \<Rightarrow> bool result" where
  "filter_check R lib (UrlFilter rx) req = RegexFilter_check R rx (getScriptName req)"
| "filter_check R lib (HostFilter rx) req = RegexFilter_check R rx (getHost req)"
| "filter_check R lib (PortFilter rx) req =
     bindE (getServerPort lib req) (\<lambda>n. RegexFilter_check R rx (lexical_cast_string lib n))"
| "filter_check R lib (AddressFilter rx) req = RegexFilter_check R rx (getServerAddr req)"
| "filter_check R lib (ParamFilter nam rx) req =
     (if \<not> hasArg req nam then Inr False else RegexFilter_check R rx (getArg req nam))"

section \<open>Descriptions\<close>

record ('r, 'h) handler_description =
  hd_filters :: "(string \<times> 'r request_filter) list"
  hd_handlers :: "'h list"
  hd_poolName :: string
  hd_id :: string

text \<open>A filter that a non-empty value of the configuration asks for.\<close>

definition add_filter ::
  "'r regex_lib \<Rightarrow> string \<Rightarrow> ('r \<Rightarrow> 'r request_filter) \<Rightarrow> string \<Rightarrow> ('r, 'h) handler_description \<Rightarrow>
   ('r, 'h) handler_description result" where
  "add_filter R nam mk regex d =
     (if regex \<noteq> [] then bindE (rx_compile R regex) (\<lambda>rx. Inr (d\<lparr>hd_filters := hd_filters d @ [(nam, mk rx)]\<rparr>))
      else Inr d)"

definition init_filters ::
  "'r regex_lib \<Rightarrow> config \<Rightarrow> string \<Rightarrow> ('r, 'h) handler_description \<Rightarrow> ('r, 'h) handler_description result" where
  "init_filters R cfg k d =
     bindE (cfg_asString_or cfg (k @ ''/@url'') []) (\<lambda>url. bindE (add_filter R ''url'' UrlFilter url d) (\<lambda>d.
     bindE (cfg_asString_or cfg (k @ ''/@host'') []) (\<lambda>host. bindE (add_filter R ''host'' HostFilter host d) (\<lambda>d.
     bindE (cfg_asString_or cfg (k @ ''/@port'') []) (\<lambda>port. bindE (add_filter R ''port'' PortFilter port d) (\<lambda>d.
     bindE (cfg_asString_or cfg (k @ ''/@address'') []) (\<lambda>address.
       add_filter R ''address'' AddressFilter address d)))))))"

definition init_param ::
  "'r regex_lib \<Rightarrow> config \<Rightarrow> string \<Rightarrow> ('r, 'h) handler_description \<Rightarrow> ('r, 'h) handler_description result" where
  "init_param R cfg it d =
     bindE (cfg_asString_or cfg (it @ ''/@name'') []) (\<lambda>nam.
     if nam = [] then Inr d
     else bindE (cfg_asString_or cfg it []) (\<lambda>val.
       if val = [] then Inr d else add_filter R ''param'' (ParamFilter nam) val d))"

definition init_component ::
  "config \<Rightarrow> (string \<Rightarrow> ('s, 'c option) st) \<Rightarrow> ('c \<Rightarrow> 'h option) \<Rightarrow> string \<Rightarrow> ('r, 'h) handler_description \<Rightarrow>
   ('s, ('r, 'h) handler_description) st" where
  "init_component cfg find_component as_handler c d =
     bindS (liftS (cfg_asString cfg (c @ ''/@name''))) (\<lambda>componentName.
     bindS (find_component componentName) (\<lambda>component.
     case component of None \<Rightarrow> throwS (RuntimeError (''Cannot find component: '' @ componentName))
     | Some component \<Rightarrow> (case as_handler component of
         None \<Rightarrow> throwS (RuntimeError (''Component '' @ componentName @ '' does not implement interface Handler''))
       | Some h \<Rightarrow> returnS (d\<lparr>hd_handlers := hd_handlers d @ [h]\<rparr>))))"

fun init_components ::
  "config \<Rightarrow> (string \<Rightarrow> ('s, 'c option) st) \<Rightarrow> ('c \<Rightarrow> 'h option) \<Rightarrow> string list \<Rightarrow> ('r, 'h) handler_description \<Rightarrow>
   ('s, ('r, 'h) handler_description) st" where
  "init_components cfg find_component as_handler [] d = returnS d"
| "init_components cfg find_component as_handler (c # cs) d =
     bindS (init_component cfg find_component as_handler c d) (init_components cfg find_component as_handler cs)"

definition init_handler ::
  "'r regex_lib \<Rightarrow> config \<Rightarrow> (string \<Rightarrow> ('s, 'c option) st) \<Rightarrow> ('c \<Rightarrow> 'h option) \<Rightarrow> string \<Rightarrow>
   ('s, ('r, 'h) handler_description) st" where
  "init_handler R cfg find_component as_handler k =
     bindS (liftS (cfg_asString cfg (k @ ''/@pool''))) (\<lambda>pool.
     bindS (liftS (cfg_asString_or cfg (k @ ''/@id'') [])) (\<lambda>i.
     bindS (liftS (init_filters R cfg k \<lparr>hd_filters = [], hd_handlers = [], hd_poolName = pool, hd_id = i\<rparr>)) (\<lambda>d.
     bindS (liftS (cfg_subKeys cfg (k @ ''/param''))) (\<lambda>q.
     bindS (liftS (foldE (init_param R cfg) q d)) (\<lambda>d.
     bindS (liftS (cfg_subKeys cfg (k @ ''/component''))) (\<lambda>components.
     init_components cfg find_component as_handler components d))))))"

fun init_handlers ::
  "'r regex_lib \<Rightarrow> config \<Rightarrow> (string \<Rightarrow> ('s, 'c option) st) \<Rightarrow> ('c \<Rightarrow> 'h option) \<Rightarrow> string list \<Rightarrow>
   ('r, 'h) handler_description list \<Rightarrow> ('s, ('r, 'h) handler_description list) st" where
  "init_handlers R cfg find_component as_handler [] ds = returnS ds"
| "init_handlers R cfg find_component as_handler (k # ks) ds =
     bindS (init_handler R cfg find_component as_handler k) (\<lambda>d. init_handlers R cfg find_component as_handler ks (ds @ [d]))"

definition HandlerSet_init ::
  "'r regex_lib \<Rightarrow> config \<Rightarrow> (string \<Rightarrow> ('s, 'c option) st) \<Rightarrow> ('c \<Rightarrow> 'h option) \<Rightarrow>
   ('s, ('r, 'h) handler_description list) st" where
  "HandlerSet_init R cfg find_component as_handler =
     bindS (liftS (cfg_subKeys cfg ''/fastcgi/handlers/handler'')) (\<lambda>v. init_handlers R cfg find_component as_handler v [])"

section \<open>Search\<close>

fun filters_match ::
  "'r regex_lib \<Rightarrow> boost \<Rightarrow> request_impl \<Rightarrow> (string \<times> 'r request_filter) list \<Rightarrow> bool result" where
  "filters_match R lib req [] = Inr True"
| "filters_match R lib req (f # fs) =
     (if fst f \<in> {''url'', ''host'', ''address'', ''port'', ''param''} then
        bindE (filter_check R lib (snd f) req) (\<lambda>ok. if ok then filters_match R lib req fs else Inr False)
      else filters_match R lib req fs)"

fun findURIHandler ::
  "'r regex_lib \<Rightarrow> boost \<Rightarrow> request_impl \<Rightarrow> ('r, 'h) handler_description list \<Rightarrow>
   ('r, 'h) handler_description option result" where
  "findURIHandler R lib req [] = Inr None"
| "findURIHandler R lib req (d # ds) =
     bindE (filters_match R lib req (hd_filters d)) (\<lambda>matched.
       if matched then Inr (Some d) else findURIHandler R lib req ds)"

definition findPoolHandlers :: "string \<Rightarrow> ('r, 'h) handler_description list \<Rightarrow> 'h set" where
  "findPoolHandlers pool ds = fold (\<lambda>d hs. if hd_poolName d = pool then hs \<union> set (hd_handlers d) else hs) ds {}"

definition getPoolsNeeded :: "('r, 'h) handler_description list \<Rightarrow> string list" where
  "getPoolsNeeded ds = fold (\<lambda>d pools. ss_insert pools (hd_poolName d)) ds []"

section \<open>What the search returns\<close>

text \<open>A filter is stored under the name of its kind.\<close>

fun filter_name :: "'r request_filter \<Rightarrow> string" where
  "filter_name (UrlFilter rx) = ''url''"
| "filter_name (HostFilter rx) = ''host''"
| "filter_name (PortFilter rx) = ''port''"
| "filter_name (AddressFilter rx) = ''address''"
| "filter_name (ParamFilter n rx) = ''param''"

definition description_ok :: "('r, 'h) handler_description \<Rightarrow> bool" where
  "description_ok d \<longleftrightarrow> (\<forall>f\<in>set (hd_filters d). fst f = filter_name (snd f))"

text \<open>
  What the filters of a description say of a request: all accept it, or the first one that does not accept it
  rejects it, or fails with an exception.
\<close>

definition accepts :: "'r regex_lib \<Rightarrow> boost \<Rightarrow> request_impl \<Rightarrow> ('r, 'h) handler_description \<Rightarrow> bool" where
  "accepts R lib req d \<longleftrightarrow> (\<forall>f\<in>set (hd_filters d). filter_check R lib (snd f) req = Inr True)"

definition stops_at ::
  "'r regex_lib \<Rightarrow> boost \<Rightarrow> request_impl \<Rightarrow> ('r, 'h) handler_description \<Rightarrow> bool result \<Rightarrow> bool" where
  "stops_at R lib req d res \<longleftrightarrow> (\<exists>fs f gs. hd_filters d = fs @ f # gs \<and>
     (\<forall>f\<in>set fs. filter_check R lib (snd f) req = Inr True) \<and> filter_check R lib (snd f) req = res)"

definition rejects :: "'r regex_lib \<Rightarrow> boost \<Rightarrow> request_impl \<Rightarrow> ('r, 'h) handler_description \<Rightarrow> bool" where
  "rejects R lib req d \<longleftrightarrow> stops_at R lib req d (Inr False)"

definition fails_on ::
  "'r regex_lib \<Rightarrow> boost \<Rightarrow> request_impl \<Rightarrow> ('r, 'h) handler_description \<Rightarrow> error \<Rightarrow> bool" where
  "fails_on R lib req d e \<longleftrightarrow> stops_at R lib req d (Inl e)"

lemma filter_name_known: "filter_name f \<in> {''url'', ''host'', ''address'', ''port'', ''param''}"
  by (cases f) simp_all

text \<open>A value at the first place where a test does not hold.\<close>

lemma first_Cons:
  "(\<exists>xs x ys. a # as = xs @ x # ys \<and> (\<forall>x\<in>set xs. P x) \<and> Q x) \<longleftrightarrow>
     Q a \<or> P a \<and> (\<exists>xs x ys. as = xs @ x # ys \<and> (\<forall>x\<in>set xs. P x) \<and> Q x)" (is "?l \<longleftrightarrow> ?r")
proof
  assume ?l
  then obtain xs x ys where x: "a # as = xs @ x # ys" "\<forall>x\<in>set xs. P x" "Q x" by blast
  then show ?r by (cases xs) auto
next
  assume ?r
  then show ?l
  proof
    assume "Q a"
    then show ?l by (intro exI[of _ "[]"] exI[of _ a] exI[of _ as]) simp
  next
    assume "P a \<and> (\<exists>xs x ys. as = xs @ x # ys \<and> (\<forall>x\<in>set xs. P x) \<and> Q x)"
    then obtain xs x ys where "P a" "as = xs @ x # ys" "\<forall>x\<in>set xs. P x" "Q x" by blast
    then show ?l by (intro exI[of _ "a # xs"] exI[of _ x] exI[of _ ys]) simp
  qed
qed

lemma filters_match_step:
  "fst f = filter_name (snd f) \<Longrightarrow> filters_match R lib req (f # fs) =
     bindE (filter_check R lib (snd f) req) (\<lambda>ok. if ok then filters_match R lib req fs else Inr False)"
  using filter_name_known[of "snd f"] by simp

lemma filters_match_accepts:
  assumes "\<forall>f\<in>set fs. fst f = filter_name (snd f)"
  shows "filters_match R lib req fs = Inr True \<longleftrightarrow> (\<forall>f\<in>set fs. filter_check R lib (snd f) req = Inr True)"
  using assms
proof (induction fs)
  case (Cons f fs)
  then have "fst f = filter_name (snd f)" by simp
  from filters_match_step[OF this] show ?case
    using Cons by (cases "filter_check R lib (snd f) req") (auto simp del: filters_match.simps)
qed simp

lemma filters_match_stops:
  assumes "\<forall>f\<in>set fs. fst f = filter_name (snd f)" "res \<noteq> Inr True"
  shows "filters_match R lib req fs = res \<longleftrightarrow> (\<exists>gs f hs. fs = gs @ f # hs \<and>
    (\<forall>f\<in>set gs. filter_check R lib (snd f) req = Inr True) \<and> filter_check R lib (snd f) req = res)"
  using assms(1)
proof (induction fs)
  case (Cons f fs)
  then have f: "fst f = filter_name (snd f)" and fs: "\<forall>f\<in>set fs. fst f = filter_name (snd f)" by simp_all
  show ?case
    unfolding filters_match_step[OF f] first_Cons Cons.IH[OF fs, symmetric] using assms(2)
    by (cases "filter_check R lib (snd f) req") auto
qed (use assms(2) in auto)

lemma filters_match_description:
  assumes "description_ok d"
  shows "filters_match R lib req (hd_filters d) = Inr True \<longleftrightarrow> accepts R lib req d"
    "filters_match R lib req (hd_filters d) = Inr False \<longleftrightarrow> rejects R lib req d"
    "filters_match R lib req (hd_filters d) = Inl e \<longleftrightarrow> fails_on R lib req d e"
  using assms filters_match_accepts[of "hd_filters d" R lib req] filters_match_stops[of "hd_filters d" "Inr False" R lib req]
    filters_match_stops[of "hd_filters d" "Inl e" R lib req]
  by (simp_all add: description_ok_def accepts_def rejects_def fails_on_def stops_at_def)

lemma findURIHandler_iff:
  assumes "\<forall>d\<in>set ds. description_ok d"
  shows "findURIHandler R lib req ds = Inr (Some d) \<longleftrightarrow>
      (\<exists>ds1 ds2. ds = ds1 @ d # ds2 \<and> (\<forall>c\<in>set ds1. rejects R lib req c) \<and> accepts R lib req d)" (is ?found)
    and "findURIHandler R lib req ds = Inr None \<longleftrightarrow> (\<forall>c\<in>set ds. rejects R lib req c)" (is ?none)
    and "findURIHandler R lib req ds = Inl e \<longleftrightarrow>
      (\<exists>ds1 d ds2. ds = ds1 @ d # ds2 \<and> (\<forall>c\<in>set ds1. rejects R lib req c) \<and> fails_on R lib req d e)" (is ?fails)
proof -
  have "(findURIHandler R lib req ds = Inr (Some d) \<longleftrightarrow>
      (\<exists>ds1 c ds2. ds = ds1 @ c # ds2 \<and> (\<forall>c\<in>set ds1. rejects R lib req c) \<and> c = d \<and> accepts R lib req d)) \<and> ?none \<and> ?fails"
    using assms
  proof (induction ds)
    case (Cons c ds)
    note m = filters_match_description[of c R lib req]
    have c: "description_ok c" and ds: "\<forall>d\<in>set ds. description_ok d" using Cons.prems by auto
    show ?case
      unfolding first_Cons using Cons.IH[OF ds] m(1,2)[OF c] m(3)[OF c]
      by (cases "filters_match R lib req (hd_filters c)") (auto simp: bindE_def)
  qed simp
  then show ?found ?none ?fails by blast+
qed

lemma findURIHandler_find:
  assumes "\<forall>d\<in>set ds. description_ok d" "findURIHandler R lib req ds = Inr found"
  shows "found = find (accepts R lib req) ds"
  using assms
proof (induction ds)
  case (Cons d ds)
  then show ?case
    using filters_match_description(1)[of d R lib req]
    by (cases "filters_match R lib req (hd_filters d) = Inr True") (auto split: if_splits)
qed simp

lemma getPoolsNeeded_set: "set (getPoolsNeeded ds) = hd_poolName ` set ds"
proof -
  have "set (fold (\<lambda>d pools. ss_insert pools (hd_poolName d)) ds ps) = set ps \<union> hd_poolName ` set ds" for ps
    by (induction ds arbitrary: ps) (auto simp: ss_insert_set)
  then show ?thesis by (simp add: getPoolsNeeded_def)
qed

lemma findPoolHandlers_set: "findPoolHandlers pool ds = (\<Union>d\<in>{d \<in> set ds. hd_poolName d = pool}. set (hd_handlers d))"
proof -
  have "fold (\<lambda>d hs. if hd_poolName d = pool then hs \<union> set (hd_handlers d) else hs) ds hs =
      hs \<union> (\<Union>d\<in>{d \<in> set ds. hd_poolName d = pool}. set (hd_handlers d))" for hs
    by (induction ds arbitrary: hs) auto
  then show ?thesis by (simp add: findPoolHandlers_def)
qed

section \<open>What initialisation builds\<close>

lemma add_filter_ok:
  assumes "add_filter R nam mk regex d = Inr d'" "\<And>rx. filter_name (mk rx) = nam" "description_ok d"
  shows "description_ok d'"
  using assms by (auto simp: add_filter_def description_ok_def split: if_splits)

lemma init_filters_ok: "init_filters R cfg k d = Inr d' \<Longrightarrow> description_ok d \<Longrightarrow> description_ok d'"
  unfolding init_filters_def by (auto dest!: add_filter_ok)

lemma init_params_ok: "foldE (init_param R cfg) q d = Inr d' \<Longrightarrow> description_ok d \<Longrightarrow> description_ok d'"
proof (induction q arbitrary: d)
  case (Cons it q)
  then obtain e where e: "init_param R cfg it d = Inr e" "foldE (init_param R cfg) q e = Inr d'" by auto
  have "description_ok e"
    using e(1) Cons.prems(2) unfolding init_param_def by (auto split: if_splits dest: add_filter_ok)
  then show ?case using Cons.IH[OF e(2)] by simp
qed simp

lemma init_component_ok:
  "init_component cfg find_component as_handler c d s = (Inr d', s') \<Longrightarrow> \<exists>h. d' = d\<lparr>hd_handlers := hd_handlers d @ [h]\<rparr>"
  unfolding init_component_def
  by (auto simp: st_defs elim!: bindS_InrE split: option.splits)

lemma init_components_ok:
  "init_components cfg find_component as_handler cs d s = (Inr d', s') \<Longrightarrow>
     hd_filters d' = hd_filters d \<and> length (hd_handlers d') = length (hd_handlers d) + length cs"
proof (induction cs arbitrary: d s)
  case (Cons c cs)
  then obtain e t where "init_component cfg find_component as_handler c d s = (Inr e, t)"
    "init_components cfg find_component as_handler cs e t = (Inr d', s')"
    by (auto elim: bindS_InrE)
  then show ?case using Cons.IH init_component_ok by fastforce
qed (simp add: returnS_def)

lemma init_handler_ok:
  "init_handler R cfg find_component as_handler k s = (Inr d, s') \<Longrightarrow> description_ok d"
proof -
  assume i: "init_handler R cfg find_component as_handler k s = (Inr d, s')"
  then obtain pool i0 d1 d2 cs t where
    1: "init_filters R cfg k \<lparr>hd_filters = [], hd_handlers = [], hd_poolName = pool, hd_id = i0\<rparr> = Inr d1"
    and 2: "\<exists>q. foldE (init_param R cfg) q d1 = Inr d2"
    and 3: "init_components cfg find_component as_handler cs d2 t = (Inr d, s')"
    unfolding init_handler_def by (elim bindS_InrE) (simp only: liftS_def prod.inject, blast)
  have "description_ok d1" using init_filters_ok[OF 1] by (simp add: description_ok_def)
  then have "description_ok d2" using 2 init_params_ok by blast
  then show ?thesis using init_components_ok[OF 3] by (simp add: description_ok_def)
qed

lemma init_handlers_ok:
  "init_handlers R cfg find_component as_handler ks ds s = (Inr ds', s') \<Longrightarrow> \<forall>d\<in>set ds. description_ok d \<Longrightarrow>
     (\<forall>d\<in>set ds'. description_ok d) \<and> length ds' = length ds + length ks"
proof (induction ks arbitrary: ds s)
  case (Cons k ks)
  from Cons.prems(1) have "bindS (init_handler R cfg find_component as_handler k)
      (\<lambda>d. init_handlers R cfg find_component as_handler ks (ds @ [d])) s = (Inr ds', s')" by simp
  then obtain d t where d: "init_handler R cfg find_component as_handler k s = (Inr d, t)"
    "init_handlers R cfg find_component as_handler ks (ds @ [d]) t = (Inr ds', s')"
    by (rule bindS_InrE)
  then show ?case using Cons.IH[OF d(2)] Cons.prems(2) init_handler_ok[OF d(1)] by auto
qed (simp add: returnS_def)

lemma HandlerSet_init_ok:
  "HandlerSet_init R cfg find_component as_handler s = (Inr ds, s') \<Longrightarrow> \<forall>d\<in>set ds. description_ok d"
  unfolding HandlerSet_init_def by (elim bindS_InrE) (auto dest: init_handlers_ok)

section \<open>Properties\<close>

text \<open>
  C25. For handlers set up from a configuration, the search returns a handler exactly when all its filters accept the
  request and every handler before it, in the order of the configuration, rejects it; it returns none exactly when
  every handler rejects the request; and it fails exactly when a handler fails whose predecessors all reject the
  request. A handler rejects a request when the first of its filters, in their order, that does not accept it says
  no, and fails when that filter throws: a port that is no number, or a match that is too complex. What comes after
  the filter or handler that decides is not looked at.
\<close>

theorem findURIHandler_first:
  assumes "HandlerSet_init R cfg find_component as_handler s = (Inr ds, s')"
  shows "(findURIHandler R lib req ds = Inr (Some d) \<longleftrightarrow>
      (\<exists>ds1 ds2. ds = ds1 @ d # ds2 \<and> (\<forall>c\<in>set ds1. rejects R lib req c) \<and> accepts R lib req d)) \<and>
    (findURIHandler R lib req ds = Inr None \<longleftrightarrow> (\<forall>c\<in>set ds. rejects R lib req c)) \<and>
    (findURIHandler R lib req ds = Inl e \<longleftrightarrow>
      (\<exists>ds1 c ds2. ds = ds1 @ c # ds2 \<and> (\<forall>c\<in>set ds1. rejects R lib req c) \<and> fails_on R lib req c e))"
  by (intro conjI findURIHandler_iff[OF HandlerSet_init_ok[OF assms]])

text \<open>A configuration with two handlers, by url and by argument, on exact matches.\<close>

definition exact_regex :: "string regex_lib" where
  "exact_regex = \<lparr>rx_compile = Inr, rx_match = (\<lambda>r s. Inr (r = s))\<rparr>"

definition example_values :: "string \<Rightarrow> string option" where
  "example_values = map_of [(''h1/@pool'', ''main''), (''h1/@url'', ''/a''), (''h2/@pool'', ''aux''),
     (''p/@name'', ''x''), (''p'', ''1''), (''c/@name'', ''comp'')]"

definition example_config :: config where
  "example_config = \<lparr>cfg_asInt = (\<lambda>k. Inl BadLexicalCast), cfg_asInt_or = (\<lambda>k d. Inr d),
     cfg_asString = (\<lambda>k. case example_values k of Some v \<Rightarrow> Inr v | None \<Rightarrow> Inl (RuntimeError k)),
     cfg_asString_or = (\<lambda>k d. Inr (case example_values k of Some v \<Rightarrow> v | None \<Rightarrow> d)),
     cfg_subKeys = (\<lambda>k. Inr (if k = ''/fastcgi/handlers/handler'' then [''h1'', ''h2'']
        else if k = ''h2/param'' then [''p''] else if k = ''h1/component'' then [''c''] else []))\<rparr>"

definition example_handlers :: "(string, nat) handler_description list" where
  "example_handlers =
     [\<lparr>hd_filters = [(''url'', UrlFilter ''/a'')], hd_handlers = [7], hd_poolName = ''main'', hd_id = []\<rparr>,
      \<lparr>hd_filters = [(''param'', ParamFilter ''x'' ''1'')], hd_handlers = [], hd_poolName = ''aux'', hd_id = []\<rparr>]"

lemma example_init:
  "HandlerSet_init exact_regex example_config (\<lambda>n s. (Inr (Some n), s)) (\<lambda>c. Some 7) () = (Inr example_handlers, ())"
  by code_simp

theorem findURIHandler_first_witness:
  "findURIHandler exact_regex \<lparr>lexical_cast_ushort = \<lambda>s. Inl BadLexicalCast, lexical_cast_streamsize = \<lambda>s. Inl BadLexicalCast,
      lexical_cast_string = \<lambda>n. []\<rparr>
     ((RequestImpl_new None)\<lparr>rq_args := [(''x'', ''1'')]\<rparr>) example_handlers = Inr (Some (example_handlers ! 1))"
proof -
  let ?lib = "\<lparr>lexical_cast_ushort = \<lambda>s. Inl BadLexicalCast, lexical_cast_streamsize = \<lambda>s. Inl BadLexicalCast,
      lexical_cast_string = \<lambda>n. []\<rparr>" and ?r = "(RequestImpl_new None)\<lparr>rq_args := [(''x'', ''1'')]\<rparr>"
  have "filters_match exact_regex ?lib ?r (hd_filters (hd example_handlers)) = Inr False" by code_simp
  then have "rejects exact_regex ?lib ?r (hd example_handlers)"
    using filters_match_description(2)[of "hd example_handlers"] by (simp add: description_ok_def example_handlers_def)
  moreover have "accepts exact_regex ?lib ?r (example_handlers ! 1)"
    by (simp add: example_handlers_def accepts_def RegexFilter_check_def exact_regex_def hasArg_def getArg_def RequestImpl_new_def rq_reset_def)
  ultimately have "\<exists>ds1 ds2. example_handlers = ds1 @ example_handlers ! 1 # ds2 \<and>
      (\<forall>c\<in>set ds1. rejects exact_regex ?lib ?r c) \<and> accepts exact_regex ?lib ?r (example_handlers ! 1)"
    by (intro exI[of _ "[hd example_handlers]"] exI[of _ "[]"]) (simp add: example_handlers_def)
  then show ?thesis
    by (rule conjunct1[OF findURIHandler_first[OF example_init, of ?lib ?r "example_handlers ! 1" BadLexicalCast], THEN iffD2])
qed

end
