(* ===== verification/Globals.thy ===== *)
theory Globals
  imports Handler_Set Request_Thread_Pool
begin

text \<open>
  The pools of the daemon (\<^verbatim>\<open>library/globals.cpp\<close>) and the dispatch of requests to them
  (\<^verbatim>\<open>library/server.cpp\<close>). Numbers of threads and queue lengths are \<^verbatim>\<open>int\<close> in the configuration, their sum is
  an \<^verbatim>\<open>unsigned\<close>, and a pool takes them as \<^verbatim>\<open>unsigned\<close>: the conversions are written out, and a signed sum
  that overflows is undefined behaviour.

  With numbers that are not negative, all pools together have at most 65535 threads and places
  (\<open>initPools_bounds\<close>); a negative number passes the check and becomes a huge pool
  (\<open>negative_pool_accepted\<close>). The pools that are set up always have different names,
  hold a pool for every name that is needed, and are as their constructor makes them (\<open>initPools_initial\<close>). A request
  is queued in the pool of its handler, or answered with 404 or 503; whatever happens, at most one pool changes, by
  one call of \<^verbatim>\<open>addTask\<close> (\<open>dispatch_pools\<close>).
\<close>

section \<open>Pools\<close>

record 'h request_task =
  task_request :: request_impl
  task_handlers :: "'h list"

type_synonym 'h pools = "(string, 'h request_task thread_pool) entries"

definition int_plus :: "int \<Rightarrow> int \<Rightarrow> int result" where
  "int_plus a b = (if - (2 ^ 31) \<le> a + b \<and> a + b < 2 ^ 31 then Inr (a + b) else Inl UndefinedBehaviour)"

definition init_pool :: "config \<Rightarrow> string list \<Rightarrow> string \<Rightarrow> 32 word \<times> 'h pools \<Rightarrow> (32 word \<times> 'h pools) result" where
  "init_pool cfg poolsNeeded p acc = (case acc of (counter, pools) \<Rightarrow>
     bindE (cfg_asString cfg (p @ ''/@name'')) (\<lambda>poolName.
     bindE (cfg_asInt cfg (p @ ''/@threads'')) (\<lambda>threadsNumber.
     bindE (cfg_asInt cfg (p @ ''/@queue'')) (\<lambda>queueLength.
     bindE (int_plus threadsNumber queueLength) (\<lambda>sum.
       let counter = counter + word_of_int sum in
       if counter > 65535 then
         Inl (RuntimeError ''The sum of all threads and queue attributes must be not more than 65535'')
       else if sm_find pools poolName \<noteq> None then
         Inl (RuntimeError (poolName @ '': pool names must be unique''))
       else if poolName \<notin> set poolsNeeded then Inr (counter, pools)
       else Inr (counter, sm_insert pools poolName
         (ThreadPool_new (word_of_int threadsNumber) (word_of_int queueLength))))))))"

definition check_pool :: "'h pools \<Rightarrow> string \<Rightarrow> unit \<Rightarrow> unit result" where
  "check_pool pools i u = (if sm_find pools i = None then Inl (RuntimeError (''cannot find pool '' @ i)) else Inr ())"

definition initPools :: "config \<Rightarrow> string list \<Rightarrow> 'h pools result" where
  "initPools cfg poolsNeeded =
     bindE (cfg_subKeys cfg ''/fastcgi/pools/pool'') (\<lambda>poolSubkeys.
     bindE (foldE (init_pool cfg poolsNeeded) poolSubkeys (0, [])) (\<lambda>(counter, pools).
     bindE (foldE (check_pool pools) poolsNeeded ()) (\<lambda>_. Inr pools)))"

definition startThreadPools :: "'h pools \<Rightarrow> 'h pools" where
  "startThreadPools pools = map (\<lambda>(n, p). (n, pool_start p)) pools"

definition stopThreadPools :: "'h pools \<Rightarrow> 'h pools" where
  "stopThreadPools pools = map (\<lambda>(n, p). (n, pool_stop p)) pools"

text \<open>\<^verbatim>\<open>joinThreadPools\<close> returns in this state and blocks in every other.\<close>

definition joinThreadPools :: "'h pools \<Rightarrow> bool" where
  "joinThreadPools pools = list_all (\<lambda>(n, p). pool_joins p) pools"

text \<open>Which component is the logger: \<open>as_logger\<close> is the cast to the interface of a logger.\<close>

definition initLogger :: "config \<Rightarrow> (string \<Rightarrow> ('s, 'c option) st) \<Rightarrow> ('c \<Rightarrow> 'l option) \<Rightarrow> ('s, 'l) st" where
  "initLogger cfg find_component as_logger =
     bindS (liftS (cfg_asString cfg ''/fastcgi/daemon[count(logger)=1]/logger/@component'')) (\<lambda>loggerComponentName.
     bindS (find_component loggerComponentName) (\<lambda>component.
     case component of None \<Rightarrow> throwS (RuntimeError ''Daemon logger does not exist'')
     | Some c \<Rightarrow> (case as_logger c of
         None \<Rightarrow> throwS (RuntimeError (''Component '' @ loggerComponentName @ '' does not implement Logger interface''))
       | Some l \<Rightarrow> returnS l)))"

section \<open>Dispatch\<close>

definition replace_pool :: "'h pools \<Rightarrow> string \<Rightarrow> 'h request_task thread_pool \<Rightarrow> 'h pools" where
  "replace_pool pools n p = map (\<lambda>(m, q). if m = n then (m, p) else (m, q)) pools"

text \<open>The way the call ends, the request as the caller sees it, the pools, and the lines logged.\<close>

definition handleRequestInternal ::
  "boost \<Rightarrow> (error \<Rightarrow> string) \<Rightarrow> ('r, 'h) handler_description option \<Rightarrow> 'h request_task \<Rightarrow> 'h pools \<Rightarrow>
   unit result \<times> request_impl \<times> 'h pools \<times> string list" where
  "handleRequestInternal lib what handler task pools =
     (case handler of
        None \<Rightarrow> (case sendError lib 404 (task_request task) of (res, r) \<Rightarrow> (res, r, pools, []))
      | Some d \<Rightarrow>
          if hd_handlers d = [] then (case sendError lib 404 (task_request task) of (res, r) \<Rightarrow> (res, r, pools, []))
          else (case sm_find pools (hd_poolName d) of
            None \<Rightarrow> (Inl UndefinedBehaviour, task_request task, pools, [])
          | Some p \<Rightarrow>
              (case addTask (lexical_cast_string lib) (task\<lparr>task_handlers := hd_handlers d\<rparr>) p of
                 (None, p') \<Rightarrow> (Inr (), task_request task, replace_pool pools (hd_poolName d) p', [])
               | (Some e, p') \<Rightarrow>
                   (case sendError lib 503 (task_request task) of
                      (Inl e', r) \<Rightarrow> (Inl e', r, replace_pool pools (hd_poolName d) p', [])
                    | (Inr _, r) \<Rightarrow> (Inr (), r, replace_pool pools (hd_poolName d) p',
                        [''cannot add request to pool: '' @ what e])))))"

definition Server_handleRequest ::
  "'r regex_lib \<Rightarrow> boost \<Rightarrow> (error \<Rightarrow> string) \<Rightarrow> ('r, 'h) handler_description list \<Rightarrow> 'h request_task \<Rightarrow> 'h pools \<Rightarrow>
   unit result \<times> request_impl \<times> 'h pools \<times> string list" where
  "Server_handleRequest R lib what ds task pools =
     (case findURIHandler R lib (task_request task) ds of
        Inl e \<Rightarrow> (Inl e, task_request task, pools, [])
      | Inr handler \<Rightarrow> handleRequestInternal lib what handler task pools)"

section \<open>What initialisation of the pools accepts\<close>

definition pool_size :: "'t thread_pool \<Rightarrow> nat" where
  "pool_size p = unat (pi_threadsNumber (tp_info p)) + unat (pi_queueLength (tp_info p))"

definition pools_size :: "'h pools \<Rightarrow> nat" where
  "pools_size pools = sum_list (map (\<lambda>(n, p). pool_size p) pools)"

definition natural_sizes :: "config \<Rightarrow> bool" where
  "natural_sizes cfg \<longleftrightarrow> (\<forall>k n. cfg_asInt cfg k = Inr n \<longrightarrow> 0 \<le> n)"

lemma unat_ucast_int: "0 \<le> n \<Longrightarrow> n < 2 ^ 31 \<Longrightarrow> unat (ucast (word_of_int n :: 32 word) :: 64 word) = nat n"
  by (simp add: unsigned_ucast_eq unsigned_of_int take_bit_eq_mod take_bit_of_nat)

lemma pool_size_new:
  assumes "0 \<le> t" "0 \<le> q" "t + q < 2 ^ 31"
  shows "pool_size (ThreadPool_new (word_of_int t) (word_of_int q)) = nat (t + q)"
  using unat_ucast_int[of t] unat_ucast_int[of q] assms by (simp add: pool_size_def ThreadPool_new_def)

lemma pools_size_insert: "sm_find pools n = None \<Longrightarrow> pools_size (sm_insert pools n p) = pools_size pools + pool_size p"
  by (induction pools n p rule: sm_insert.induct) (auto simp: pools_size_def sm_find_def split: if_splits)

definition init_ok :: "string list \<Rightarrow> 32 word \<times> 'h pools \<Rightarrow> bool" where
  "init_ok poolsNeeded acc = (case acc of (counter, pools) \<Rightarrow> sm_sorted pools \<and> pools_size pools \<le> unat counter \<and>
     unat counter \<le> 65535 \<and> fst ` set pools \<subseteq> set poolsNeeded \<and> (\<forall>e\<in>set pools. pool_initial (snd e)))"

lemma counter_add:
  fixes c :: "32 word"
  assumes "unat c \<le> 65535" "0 \<le> s" "s < 2 ^ 31"
  shows "unat (c + word_of_int s) = unat c + nat s"
proof -
  have "unat (word_of_int s :: 32 word) = nat s"
    using assms(2,3) by (simp add: unsigned_of_int take_bit_eq_mod)
  then show ?thesis using assms by (simp add: unat_word_ariths(1))
qed

lemma sm_insert_entry: "e \<in> set (sm_insert m k v) \<Longrightarrow> e = (k, v) \<or> e \<in> set m"
  by (induction m k v rule: sm_insert.induct) (auto split: if_splits)

lemma init_pool_step:
  fixes acc :: "32 word \<times> 'h pools"
  assumes "natural_sizes cfg" "init_ok ns acc" "init_pool cfg ns p acc = Inr acc'"
  shows "init_ok ns acc'"
proof -
  obtain c pools where acc: "acc = (c, pools)" by (cases acc)
  obtain nam t q s where cfg: "cfg_asInt cfg (p @ ''/@threads'') = Inr t" "cfg_asInt cfg (p @ ''/@queue'') = Inr q"
    and s: "int_plus t q = Inr s" and c: "\<not> c + word_of_int s > 65535"
    and r: "sm_find pools nam = None" "acc' = (if nam \<in> set ns
      then (c + word_of_int s, sm_insert pools nam (ThreadPool_new (word_of_int t) (word_of_int q))) else (c + word_of_int s, pools))"
    using assms(3) by (auto simp: acc init_pool_def Let_def split: if_splits)
  have n: "0 \<le> t" "0 \<le> q" "s = t + q" "s < 2 ^ 31"
    using assms(1) cfg s by (auto simp: natural_sizes_def int_plus_def split: if_splits)
  have ok: "sm_sorted pools" "pools_size pools \<le> unat c" "unat c \<le> 65535" "fst ` set pools \<subseteq> set ns"
    "\<forall>e\<in>set pools. pool_initial (snd e)" using assms(2) by (auto simp: acc init_ok_def)
  have sz: "unat (c + word_of_int s) = unat c + nat s" using counter_add[OF ok(3) _ n(4)] n(1-3) by linarith
  have bound: "unat (c + word_of_int s) \<le> 65535" using c by (simp add: word_less_nat_alt not_less)
  let ?p = "ThreadPool_new (word_of_int t) (word_of_int q) :: 'h request_task thread_pool"
  have "pool_size ?p = nat (t + q)" using n by (intro pool_size_new) simp_all
  note new = this
  have ini: "pool_initial ?p" unfolding pool_initial_def by blast
  show ?thesis
  proof (cases "nam \<in> set ns")
    case False
    then show ?thesis using ok sz bound r(2) by (simp add: init_ok_def)
  next
    case True
    let ?m = "sm_insert pools nam ?p"
    have "pools_size ?m \<le> unat (c + word_of_int s)"
      using pools_size_insert[OF r(1), of ?p] ok(2) sz new n(3) by linarith
    moreover have "fst ` set ?m \<subseteq> set ns" using sm_insert_keys[of pools nam ?p] ok(4) True by auto
    moreover have "pool_initial (snd e)" if "e \<in> set ?m" for e
      using sm_insert_entry[OF that] ok(5) ini by auto
    ultimately show ?thesis
      using sm_sorted_insert[OF ok(1), of nam ?p] bound r(2) True by (simp add: init_ok_def)
  qed
qed

lemma init_pools_loop:
  "foldE (init_pool cfg ns) ps acc = Inr acc' \<Longrightarrow> natural_sizes cfg \<Longrightarrow> init_ok ns acc \<Longrightarrow> init_ok ns acc'"
  by (induction ps arbitrary: acc) (auto dest: init_pool_step)

lemma check_pools: "foldE (check_pool pools) ns () = Inr () \<Longrightarrow> n \<in> set ns \<Longrightarrow> \<exists>p. sm_find pools n = Some p"
  by (induction ns) (auto simp: check_pool_def split: if_splits)

lemma initPools_needed: "initPools cfg ns = Inr pools \<Longrightarrow> n \<in> set ns \<Longrightarrow> \<exists>p. sm_find pools n = Some p"
  by (auto simp: initPools_def intro: check_pools)

lemma init_pool_initial:
  assumes "init_pool cfg ns p (c, pools) = Inr (c', pools')" "sm_sorted pools" "\<forall>e\<in>set pools. pool_initial (snd e)"
  shows "sm_sorted pools' \<and> (\<forall>e\<in>set pools'. pool_initial (snd e))"
proof -
  obtain nam n q where "pools' = pools \<or> pools' = sm_insert pools nam (ThreadPool_new n q)"
    using assms(1) by (auto simp: init_pool_def Let_def split: if_splits)
  moreover have "pool_initial (ThreadPool_new n q)" unfolding pool_initial_def by blast
  ultimately show ?thesis
    using assms(2,3) sm_sorted_insert[OF assms(2)] by (auto dest: sm_insert_entry)
qed

text \<open>Whatever the numbers are, every pool is as its constructor makes it, and has a name of its own.\<close>

lemma initPools_initial:
  assumes "initPools cfg ns = Inr pools"
  shows "distinct (map fst pools) \<and> (\<forall>e\<in>set pools. pool_initial (snd e))"
proof -
  have "foldE (init_pool cfg ns) ps (c, m) = Inr (c', pools) \<Longrightarrow> sm_sorted m \<Longrightarrow> \<forall>e\<in>set m. pool_initial (snd e) \<Longrightarrow>
      sm_sorted pools \<and> (\<forall>e\<in>set pools. pool_initial (snd e))" for ps c m c'
  proof (induction ps arbitrary: c m)
    case (Cons p ps)
    then obtain c1 m1 where "init_pool cfg ns p (c, m) = Inr (c1, m1)" "foldE (init_pool cfg ns) ps (c1, m1) = Inr (c', pools)"
      by auto
    then show ?case using Cons.IH[of c1 m1] init_pool_initial Cons.prems(2,3) by blast
  qed simp
  moreover have "sm_sorted []" by (simp add: sm_sorted_def)
  ultimately show ?thesis
    using assms strict_sorted_iff[of "map fst pools"] by (fastforce simp: initPools_def sm_sorted_def)
qed

lemma sm_find_dom: "sm_find m k = Some v \<Longrightarrow> k \<in> fst ` set m"
  by (force simp: sm_find_def dest: map_of_SomeD)

section \<open>Properties\<close>

text \<open>
  C30. When the numbers of the configuration are not negative and the pools are set up, there is exactly one
  pool for every name that a handler needs, each as its constructor makes it, and all pools together have at
  most 65535 threads and places in queues.
\<close>

theorem initPools_bounds:
  assumes "natural_sizes cfg" "initPools cfg ns = Inr pools"
  shows "fst ` set pools = set ns \<and> distinct (map fst pools) \<and> (\<forall>e\<in>set pools. pool_initial (snd e)) \<and>
    sum_list (map (\<lambda>(n, p). unat (pi_threadsNumber (tp_info p)) + unat (pi_queueLength (tp_info p))) pools) \<le> 65535"
proof -
  obtain ps c where l: "foldE (init_pool cfg ns) ps (0, []) = Inr (c, pools)" "foldE (check_pool pools) ns () = Inr ()"
    using assms(2) by (auto simp: initPools_def)
  have "init_ok ns (0, [])" by (simp add: init_ok_def sm_sorted_def pools_size_def)
  then have ok: "init_ok ns (c, pools)" using init_pools_loop[OF l(1) assms(1)] by blast
  moreover have "set ns \<subseteq> fst ` set pools" using check_pools[OF l(2)] sm_find_dom by fastforce
  moreover have "distinct (map fst pools)"
    using ok strict_sorted_iff[of "map fst pools"] by (simp add: init_ok_def sm_sorted_def)
  ultimately show ?thesis by (auto simp: init_ok_def pools_size_def pool_size_def)
qed

definition pool_config :: "int \<Rightarrow> int \<Rightarrow> config" where
  "pool_config threads queue = \<lparr>cfg_asInt = (\<lambda>k. if k = ''p/@threads'' then Inr threads
       else if k = ''p/@queue'' then Inr queue else Inl BadLexicalCast),
     cfg_asInt_or = (\<lambda>k d. Inr d), cfg_asString = (\<lambda>k. Inr ''main''), cfg_asString_or = (\<lambda>k d. Inr d),
     cfg_subKeys = (\<lambda>k. Inr [''p''])\<rparr>"

lemma pool_config_init:
  assumes "int_plus t q = Inr s" "(word_of_int s :: 32 word) \<le> 65535"
  shows "initPools (pool_config t q) [''main''] = Inr [(''main'', ThreadPool_new (word_of_int t) (word_of_int q))]"
  using assms by (simp add: initPools_def pool_config_def init_pool_def sm_find_def check_pool_def Let_def not_less)

theorem initPools_bounds_witness:
  "\<exists>pools. initPools (pool_config 4 100) [''main''] = Inr pools \<and> fst ` set (pools :: nat pools) = {''main''} \<and>
     sum_list (map (\<lambda>(n, p). unat (pi_threadsNumber (tp_info p)) + unat (pi_queueLength (tp_info p))) pools) \<le> 65535"
proof -
  have p: "initPools (pool_config 4 100) [''main''] = Inr [(''main'', ThreadPool_new (word_of_int 4) (word_of_int 100) :: nat request_task thread_pool)]"
    by (rule pool_config_init[of 4 100 104]) (simp_all add: int_plus_def)
  have "natural_sizes (pool_config 4 100)" by (auto simp: natural_sizes_def pool_config_def split: if_splits)
  from initPools_bounds[OF this p] p show ?thesis by auto
qed

text \<open>
  A negative number of threads is not refused: with one place more than threads are missing the sum is
  small again, and the pool is set up with more than four thousand million threads.
\<close>

theorem negative_pool_accepted:
  assumes "0 < n" "n \<le> 65535"
  shows "\<exists>p. initPools (pool_config (- n) n) [''main''] = Inr [(''main'', p :: 'h request_task thread_pool)] \<and>
    unat (pi_threadsNumber (tp_info p)) = 2 ^ 32 - nat n"
proof -
  have "initPools (pool_config (- n) n) [''main''] =
      Inr [(''main'', ThreadPool_new (word_of_int (- n)) (word_of_int n) :: 'h request_task thread_pool)]"
    by (rule pool_config_init[of "- n" n 0]) (simp_all add: int_plus_def)
  moreover have "unat (ucast (word_of_int (- n) :: 32 word) :: 64 word) = 2 ^ 32 - nat n"
  proof -
    have "(- n) mod 2 ^ 32 = 2 ^ 32 - n"
      using assms by (simp add: zmod_zminus1_eq_if)
    then have "uint (word_of_int (- n) :: 32 word) = 2 ^ 32 - n"
      by (simp add: unsigned_of_int take_bit_eq_mod del: of_int_minus)
    moreover have "take_bit 64 (2 ^ 32 - n) = 2 ^ 32 - n" using assms by (intro take_bit_int_eq_self) simp_all
    ultimately show ?thesis using assms by (simp add: unsigned_ucast_eq unat_eq_nat_uint nat_diff_distrib)
  qed
  ultimately show ?thesis by (simp add: ThreadPool_new_def)
qed

theorem negative_pool_accepted_witness:
  "\<exists>p. initPools (pool_config (- 1) 1) [''main''] = Inr [(''main'', p :: nat request_task thread_pool)] \<and>
    unat (pi_threadsNumber (tp_info p)) = 4294967295"
  using negative_pool_accepted[of 1] by simp

lemma replace_pool_find: "sm_find (replace_pool pools n p) m = (if m = n then map_option (\<lambda>_. p) (sm_find pools m) else sm_find pools m)"
  by (induction pools) (auto simp: replace_pool_def sm_find_def)

text \<open>The pool of a handler is found, in whatever state the pools are by now.\<close>

lemma handler_pool_found:
  assumes "initPools cfg (getPoolsNeeded ds) = Inr pools0" "map fst pools = map fst (pools0 :: 'h pools)" "d \<in> set ds"
  shows "\<exists>p. sm_find pools (hd_poolName d) = Some p"
proof -
  have "hd_poolName d \<in> set (getPoolsNeeded ds)" using assms(3) by (auto simp: getPoolsNeeded_set)
  then have "hd_poolName d \<in> fst ` set pools"
    using initPools_needed[OF assms(1)] sm_find_dom assms(2) by (metis list.set_map)
  then show ?thesis by (cases "sm_find pools (hd_poolName d)") (auto simp: sm_find_def map_of_eq_None_iff)
qed

text \<open>Whatever becomes of a request, at most one pool changes, by one call of \<^verbatim>\<open>addTask\<close>.\<close>

definition one_task :: "(nat \<Rightarrow> string) \<Rightarrow> 'h pools \<Rightarrow> 'h pools \<Rightarrow> bool" where
  "one_task lcast pools pools' \<longleftrightarrow> pools' = pools \<or>
     (\<exists>n p t e p'. sm_find pools n = Some p \<and> addTask lcast t p = (e, p') \<and> pools' = replace_pool pools n p')"

lemma dispatch_pools:
  "handleRequestInternal lib what handler task pools = (res, r, pools', lines) \<Longrightarrow> one_task (lexical_cast_string lib) pools pools'"
  unfolding one_task_def
  by (auto simp: handleRequestInternal_def split: option.splits if_splits prod.splits sum.splits) blast+

lemma Server_handleRequest_pools:
  "Server_handleRequest R lib what ds task pools = (res, r, pools', lines) \<Longrightarrow> one_task (lexical_cast_string lib) pools pools'"
  by (auto simp: Server_handleRequest_def split: sum.splits intro: dispatch_pools) (simp add: one_task_def)

definition daemon_config :: config where
  "daemon_config = \<lparr>cfg_asInt = (\<lambda>k. Inr 1), cfg_asInt_or = (\<lambda>k d. Inr d), cfg_asString = (\<lambda>k. Inr ''main''),
     cfg_asString_or = (\<lambda>k d. Inr d),
     cfg_subKeys = (\<lambda>k. Inr (if k = ''/fastcgi/handlers/handler'' then [''h''] else if k = ''/fastcgi/pools/pool'' then [''p'']
        else if k = ''h/component'' then [''c''] else []))\<rparr>"

definition daemon_handlers :: "(string, nat) handler_description list" where
  "daemon_handlers = [\<lparr>hd_filters = [], hd_handlers = [7], hd_poolName = ''main'', hd_id = []\<rparr>]"

definition daemon_pools :: "nat pools" where
  "daemon_pools = [(''main'', ThreadPool_new 1 1)]"

lemma daemon_init:
  "HandlerSet_init exact_regex daemon_config (\<lambda>n s. (Inr (Some n), s)) (\<lambda>c. Some 7) () = (Inr daemon_handlers, ())"
  by code_simp

lemma daemon_initPools: "initPools daemon_config (getPoolsNeeded daemon_handlers) = Inr daemon_pools"
  by (simp add: initPools_def daemon_config_def daemon_handlers_def daemon_pools_def getPoolsNeeded_def init_pool_def
    sm_find_def check_pool_def Let_def int_plus_def)

end
