(* ===== verification/Http_Date_Parse.thy ===== *)
theory Http_Date_Parse
  imports Http_Date
begin

text \<open>
  \<^verbatim>\<open>HttpDateUtils::parse\<close> (\<^verbatim>\<open>library/util.cpp\<close>), with what it uses of the C library: \<^verbatim>\<open>strptime\<close> in the "C" locale for the
  directives of its three formats, and \<^verbatim>\<open>mktime\<close> for any time zone. The fields are those of Greenwich, but \<^verbatim>\<open>mktime\<close> takes
  them for local time, with the offset that was in force at that date, and the program takes back the offset of the
  variable \<^verbatim>\<open>timezone\<close>, which is the one of today. So a date that \<^verbatim>\<open>HttpDateUtils::format\<close> has written is read back as the
  same time stamp exactly where both are the same (\<open>date_roundtrip\<close>).
\<close>

section \<open>Definitions\<close>

datatype directive = Lit char | Blank | WDay | MDay | Mon | Year4 | Year2 | Hour | Minute | Second

definition full_wday_names :: "string list" where
  "full_wday_names = [''Sunday'', ''Monday'', ''Tuesday'', ''Wednesday'', ''Thursday'', ''Friday'', ''Saturday'']"

definition full_month_names :: "string list" where
  "full_month_names = [''January'', ''February'', ''March'', ''April'', ''May'', ''June'', ''July'', ''August'', ''September'',
     ''October'', ''November'', ''December'']"

definition digit :: "char \<Rightarrow> int" where
  "digit c = of_char c - 48"

text \<open>A number of at most \<open>n\<close> digits: a further digit is read while the number may still be within its limit.\<close>

fun number_loop :: "nat \<Rightarrow> int \<Rightarrow> int \<Rightarrow> string \<Rightarrow> int \<times> string" where
  "number_loop (Suc n) upper v (c # s) =
     (if v * 10 \<le> upper \<and> isdigit c then number_loop n upper (v * 10 + digit c) s else (v, c # s))"
| "number_loop n upper v s = (v, s)"

definition get_number :: "int \<Rightarrow> int \<Rightarrow> nat \<Rightarrow> string \<Rightarrow> (int \<times> string) option" where
  "get_number lower upper n s = (case dropWhile (\<lambda>c. c = CHR '' '') s of
     [] \<Rightarrow> None
   | c # cs \<Rightarrow> if \<not> isdigit c then None
       else (case number_loop (n - 1) upper (digit c) cs of (v, rest) \<Rightarrow> if lower \<le> v \<and> v \<le> upper then Some (v, rest) else None))"

text \<open>Of each name first the full and then the short form is tried, without regard to case.\<close>

fun match_name :: "string list \<Rightarrow> string list \<Rightarrow> string \<Rightarrow> (nat \<times> string) option" where
  "match_name (f # fs) (a # as) s =
     (if strncasecmp (length f) s f = 0 then Some (0, drop (length f) s)
      else if strncasecmp (length a) s a = 0 then Some (0, drop (length a) s)
      else map_option (\<lambda>(i, rest). (Suc i, rest)) (match_name fs as s))"
| "match_name fs as s = None"

definition put_number :: "(int \<Rightarrow> tm \<Rightarrow> tm) \<Rightarrow> (int \<times> string) option \<Rightarrow> tm \<Rightarrow> string option \<times> tm" where
  "put_number f r ts = (case r of None \<Rightarrow> (None, ts) | Some (v, rest) \<Rightarrow> (Some rest, f v ts))"

definition put_name :: "(nat \<Rightarrow> tm \<Rightarrow> tm) \<Rightarrow> (nat \<times> string) option \<Rightarrow> tm \<Rightarrow> string option \<times> tm" where
  "put_name f r ts = (case r of None \<Rightarrow> (None, ts) | Some (i, rest) \<Rightarrow> (Some rest, f i ts))"

text \<open>What is left of the text, if the directive matches, and the fields.\<close>

fun directive_step :: "directive \<Rightarrow> string \<Rightarrow> tm \<Rightarrow> string option \<times> tm" where
  "directive_step (Lit c) s ts = (case s of [] \<Rightarrow> (None, ts) | d # rest \<Rightarrow> (if c = d then Some rest else None, ts))"
| "directive_step Blank s ts = (Some (dropWhile isspace s), ts)"
| "directive_step WDay s ts = put_name (\<lambda>i ts. ts\<lparr>tm_wday := i\<rparr>) (match_name full_wday_names wday_names s) ts"
| "directive_step Mon s ts = put_name (\<lambda>i ts. ts\<lparr>tm_mon := i\<rparr>) (match_name full_month_names month_names s) ts"
| "directive_step MDay s ts = put_number (\<lambda>v ts. ts\<lparr>tm_mday := v\<rparr>) (get_number 1 31 2 s) ts"
| "directive_step Year4 s ts = put_number (\<lambda>v ts. ts\<lparr>tm_year := v - 1900\<rparr>) (get_number 0 9999 4 s) ts"
| "directive_step Year2 s ts = put_number (\<lambda>v ts. ts\<lparr>tm_year := if v \<ge> 69 then v else v + 100\<rparr>) (get_number 0 99 2 s) ts"
| "directive_step Hour s ts = put_number (\<lambda>v ts. ts\<lparr>tm_hour := v\<rparr>) (get_number 0 23 2 s) ts"
| "directive_step Minute s ts = put_number (\<lambda>v ts. ts\<lparr>tm_min := v\<rparr>) (get_number 0 59 2 s) ts"
| "directive_step Second s ts = put_number (\<lambda>v ts. ts\<lparr>tm_sec := v\<rparr>) (get_number 0 61 2 s) ts"

fun strptime :: "directive list \<Rightarrow> string \<Rightarrow> tm \<Rightarrow> string option \<times> tm" where
  "strptime [] s ts = (Some s, ts)"
| "strptime (d # ds) s ts = (case directive_step d s ts of (None, ts') \<Rightarrow> (None, ts') | (Some rest, ts') \<Rightarrow> strptime ds rest ts')"

text \<open>\<^verbatim>\<open>%T\<close> stands for \<^verbatim>\<open>%H:%M:%S\<close>.\<close>

definition time_format :: "directive list" where
  "time_format = [Hour, Lit (CHR '':''), Minute, Lit (CHR '':''), Second]"

definition date_formats :: "directive list list" where
  "date_formats = [
     [WDay, Lit (CHR '',''), Blank, MDay, Blank, Mon, Blank, Year4, Blank] @ time_format @ [Blank, Lit (CHR ''G''), Lit (CHR ''M''), Lit (CHR ''T'')],
     [WDay, Lit (CHR '',''), Blank, MDay, Lit (CHR ''-''), Mon, Lit (CHR ''-''), Year2, Blank] @ time_format @
       [Blank, Lit (CHR ''G''), Lit (CHR ''M''), Lit (CHR ''T'')],
     [WDay, Blank, Mon, Blank, MDay, Blank] @ time_format @ [Blank, Year4]]"

text \<open>
  \<open>zone\<close> is the time zone, from its database: for a reading of the clock, as the seconds that the fields make when they
  are taken for Greenwich, by how many seconds the standard time in force is west of Greenwich. Standard time is what the
  cleared field \<^verbatim>\<open>tm_isdst\<close> asks for. \<open>timezone\<close> is the variable of that name, one number for the whole zone.
\<close>

definition clock_reading :: "tm \<Rightarrow> int" where
  "clock_reading ts = day_number (tm_year ts + 1900) (tm_mon ts) (tm_mday ts) * 86400 +
     tm_hour ts * 3600 + tm_min ts * 60 + tm_sec ts"

definition mktime :: "(int \<Rightarrow> int) \<Rightarrow> tm \<Rightarrow> int" where
  "mktime zone ts = clock_reading ts + zone (clock_reading ts)"

fun try_formats :: "(int \<Rightarrow> int) \<Rightarrow> int \<Rightarrow> string \<Rightarrow> directive list list \<Rightarrow> tm \<Rightarrow> int" where
  "try_formats zone timezone val [] ts = 0"
| "try_formats zone timezone val (f # fs) ts = (case strptime f val ts of
     (Some _, ts') \<Rightarrow> mktime zone ts' - timezone
   | (None, ts') \<Rightarrow> try_formats zone timezone val fs ts')"

definition HttpDate_parse :: "(int \<Rightarrow> int) \<Rightarrow> int \<Rightarrow> string \<Rightarrow> int" where
  "HttpDate_parse zone timezone val = try_formats zone timezone val date_formats
     \<lparr>tm_sec = 0, tm_min = 0, tm_hour = 0, tm_mday = 0, tm_mon = 0, tm_year = 0, tm_wday = 0\<rparr>"

section \<open>Names\<close>

text \<open>
  The name that is written is the one that is found: the short names differ in their first three characters, and a full
  name that is longer does not go on as the text does.
\<close>

lemma match_name_index:
  assumes "i < length as" "length fs = length as" "s = as ! i @ sep # rest"
    and "\<forall>a\<in>set as. length a = 3 \<and> NUL \<notin> set a" "distinct (map (map tolower) as)"
    and "\<forall>j<length as. (4 \<le> length (fs ! j) \<and> NUL \<notin> set (fs ! j) \<and> tolower (fs ! j ! 3) \<noteq> tolower sep) \<or> fs ! j = as ! j"
  shows "match_name fs as s = Some (i, sep # rest)"
proof -
  have l: "length (as ! i) = 3" using assms(1,4) by simp
  have short: "strncasecmp (length (as ! j)) s (as ! j) = 0 \<longleftrightarrow> j = i" if "j < length as" for j
  proof -
    have "length (as ! j) = 3" "NUL \<notin> set (as ! j)" using assms(4) that by simp_all
    then have "strncasecmp (length (as ! j)) s (as ! j) = 0 \<longleftrightarrow> map tolower (as ! i) = map tolower (as ! j)"
      using strncasecmp_prefix[of "as ! j" 3 s] l assms(3) by (simp del: strncasecmp.simps)
    then show ?thesis using nth_eq_iff_index_eq[OF assms(5), of i j] assms(1) that by auto
  qed
  have full: "j = i \<and> length (fs ! j) = 3" if j: "j < length as" "strncasecmp (length (fs ! j)) s (fs ! j) = 0" for j
  proof (cases "fs ! j = as ! j")
    case True
    then show ?thesis using short[OF j(1)] j assms(4) by simp
  next
    case False
    then have f: "4 \<le> length (fs ! j)" "NUL \<notin> set (fs ! j)" "tolower (fs ! j ! 3) \<noteq> tolower sep" using assms(6) j(1) by auto
    from strncasecmp_prefix[OF f(2) order_refl, of s] j(2) have "map tolower (take (length (fs ! j)) s) = map tolower (fs ! j)" by simp
    then have "map tolower (take (length (fs ! j)) s) ! 3 = map tolower (fs ! j) ! 3" by simp
    moreover have "s ! 3 = sep" "3 < length s" using assms(3) l by (simp_all add: nth_append)
    ultimately show ?thesis using f(1,3) by simp
  qed
  have "match_name (drop k fs) (drop k as) s = Some (i - k, sep # rest)" if "k \<le> i" for k
    using that
  proof (induction k rule: inc_induct)
    case base
    have d: "drop i fs = fs ! i # drop (Suc i) fs" "drop i as = as ! i # drop (Suc i) as" using assms(1,2) by (simp_all add: Cons_nth_drop_Suc)
    have "drop 3 s = sep # rest" using assms(3) l by simp
    then show ?case unfolding d using short[OF assms(1)] full[OF assms(1)] l by (auto simp del: strncasecmp.simps)
  next
    case (step k)
    then have k: "k < length as" "k \<noteq> i" using assms(1) by simp_all
    have d: "drop k fs = fs ! k # drop (Suc k) fs" "drop k as = as ! k # drop (Suc k) as" using k assms(2) by (simp_all add: Cons_nth_drop_Suc)
    have "i - k = Suc (i - Suc k)" using step by simp
    then show ?case unfolding d using short[OF k(1)] full[OF k(1)] k(2) step.IH by (auto simp del: strncasecmp.simps)
  qed
  from this[of 0] show ?thesis by simp
qed

lemma name_lengths: "length wday_names = 7" "length full_wday_names = 7" "length month_names = 12" "length full_month_names = 12"
  by (simp_all add: wday_names_def full_wday_names_def month_names_def full_month_names_def)

lemma wday_read:
  assumes "i < 7"
  shows "match_name full_wday_names wday_names (wday_names ! i @ CHR '','' # rest) = Some (i, CHR '','' # rest)"
proof (rule match_name_index[OF _ _ refl])
  show "distinct (map (map tolower) wday_names)" "\<forall>a\<in>set wday_names. length a = 3 \<and> NUL \<notin> set a" by code_simp+
  have "list_all (\<lambda>f. 4 \<le> length f \<and> NUL \<notin> set f \<and> tolower (f ! 3) \<noteq> tolower CHR '','') full_wday_names" by code_simp
  then show "\<forall>j<length wday_names. (4 \<le> length (full_wday_names ! j) \<and> NUL \<notin> set (full_wday_names ! j) \<and>
      tolower (full_wday_names ! j ! 3) \<noteq> tolower CHR '','') \<or> full_wday_names ! j = wday_names ! j"
    by (simp add: list_all_length name_lengths)
qed (use assms in \<open>simp_all add: name_lengths\<close>)

lemma month_read:
  assumes "i < 12"
  shows "match_name full_month_names month_names (month_names ! i @ CHR '' '' # rest) = Some (i, CHR '' '' # rest)"
proof (rule match_name_index[OF _ _ refl])
  show "distinct (map (map tolower) month_names)" "\<forall>a\<in>set month_names. length a = 3 \<and> NUL \<notin> set a" by code_simp+
  have "list_all (\<lambda>(f, a). (4 \<le> length f \<and> NUL \<notin> set f \<and> tolower (f ! 3) \<noteq> tolower CHR '' '') \<or> f = a) (zip full_month_names month_names)"
    by code_simp
  then show "\<forall>j<length month_names. (4 \<le> length (full_month_names ! j) \<and> NUL \<notin> set (full_month_names ! j) \<and>
      tolower (full_month_names ! j ! 3) \<noteq> tolower CHR '' '') \<or> full_month_names ! j = month_names ! j"
    by (simp add: list_all_length name_lengths)
qed (use assms in \<open>simp_all add: name_lengths\<close>)

section \<open>Numbers\<close>

lemma decimal_digit:
  assumes "k < 10"
  shows "isdigit (char_of (48 + k)) \<and> digit (char_of (48 + k)) = int k \<and> char_of (48 + k) \<noteq> CHR '' '' \<and> \<not> isspace (char_of (48 + k))"
proof -
  have "\<forall>k<10. isdigit (char_of (48 + k)) \<and> digit (char_of (48 + k)) = int k \<and> char_of (48 + k) \<noteq> CHR '' '' \<and> \<not> isspace (char_of (48 + k))"
    by code_simp
  then show ?thesis using assms by blast
qed

lemma two_digits_read:
  assumes "lower \<le> v" "v \<le> upper" "0 \<le> v" "v < 100"
  shows "get_number lower upper 2 (two_digits v @ rest) = Some (v, rest)"
proof -
  have "nat v div 10 < 10" "nat v mod 10 < 10" using assms by auto
  note d = decimal_digit[OF this(1)] decimal_digit[OF this(2)]
  have v: "int (nat v div 10) * 10 + int (nat v mod 10) = v" using assms(3) by (simp add: zdiv_int zmod_int)
  then have "int (nat v div 10) * 10 \<le> upper" using assms(2) by linarith
  then show ?thesis using d v assms(1,2) by (simp add: get_number_def two_digits_def numeral_2_eq_2)
qed

definition dec_value :: "int \<Rightarrow> string \<Rightarrow> int" where
  "dec_value v s = foldl (\<lambda>v c. v * 10 + digit c) v s"

lemma dec_value_mono: "list_all isdigit s \<Longrightarrow> 0 \<le> v \<Longrightarrow> v \<le> dec_value v s"
proof (induction s arbitrary: v)
  case (Cons c s)
  have "\<forall>c. isdigit c \<longrightarrow> 0 \<le> digit c" by code_simp
  then have "0 \<le> digit c" using Cons.prems(1) by simp
  then show ?case using Cons.IH[of "v * 10 + digit c"] Cons.prems by (simp add: dec_value_def)
qed (simp add: dec_value_def)

lemma number_loop_digits:
  assumes "list_all isdigit s" "length s \<le> n" "0 \<le> v" "dec_value v s \<le> upper" "rest \<noteq> [] \<longrightarrow> \<not> isdigit (hd rest)"
  shows "number_loop n upper v (s @ rest) = (dec_value v s, rest)"
  using assms
proof (induction s arbitrary: n v)
  case Nil
  then show ?case by (cases n; cases rest) (simp_all add: dec_value_def)
next
  case (Cons c s)
  obtain k where n: "n = Suc k" "length s \<le> k" using Cons.prems(2) by (cases n) auto
  have "\<forall>c. isdigit c \<longrightarrow> 0 \<le> digit c" by code_simp
  then have d: "0 \<le> digit c" "isdigit c" using Cons.prems(1) by simp_all
  have "v * 10 + digit c \<le> upper"
    using dec_value_mono[of s "v * 10 + digit c"] Cons.prems(1,3,4) d by (simp add: dec_value_def)
  then show ?case using Cons.IH[OF _ n(2), of "v * 10 + digit c"] Cons.prems n d by (simp add: dec_value_def)
qed

lemma show_nat_decimal:
  "list_all isdigit (show_nat n) \<and> show_nat n \<noteq> [] \<and> dec_value 0 (show_nat n) = int n"
proof (induction n rule: show_nat.induct)
  case (1 n)
  have "n mod 10 < 10" by simp
  note d = decimal_digit[OF this]
  show ?case
  proof (cases "n < 10")
    case True
    then show ?thesis using decimal_digit[OF True] by (subst (1 2 3) show_nat.simps) (simp add: dec_value_def)
  next
    case False
    then show ?thesis using 1[OF False] d by (subst (1 2 3) show_nat.simps) (simp add: dec_value_def zdiv_int zmod_int)
  qed
qed

lemma show_nat_length: "n < 10 ^ k \<Longrightarrow> 0 < k \<Longrightarrow> length (show_nat n) \<le> k"
proof (induction k arbitrary: n)
  case (Suc k)
  show ?case
  proof (cases "n < 10")
    case False
    then have "0 < k" "n div 10 < 10 ^ k" using Suc.prems(1) by (cases k; simp)+
    then show ?thesis using Suc.IH[of "n div 10"] False by (subst show_nat.simps) simp
  qed (subst show_nat.simps, simp)
qed simp

lemma year_read:
  assumes "0 \<le> y" "y \<le> 9999" "rest \<noteq> [] \<longrightarrow> \<not> isdigit (hd rest)"
  shows "get_number 0 9999 4 (show_int y @ rest) = Some (y, rest)"
proof -
  let ?s = "show_nat (nat y)"
  have s: "list_all isdigit ?s" "?s \<noteq> []" "dec_value 0 ?s = y" using show_nat_decimal[of "nat y"] assms(1) by simp_all
  have "length ?s \<le> 4" using assms(1,2) by (intro show_nat_length) simp_all
  then obtain c cs where c: "?s = c # cs" "length cs \<le> 3" using s(2) by (cases ?s) auto
  have "\<forall>c. isdigit c \<longrightarrow> 0 \<le> digit c \<and> c \<noteq> CHR '' ''" by code_simp
  then have d: "0 \<le> digit c" "c \<noteq> CHR '' ''" "isdigit c" using s(1) c(1) by simp_all
  have v: "dec_value (digit c) cs = y" using s(3) c(1) by (simp add: dec_value_def)
  have "number_loop 3 9999 (digit c) (cs @ rest) = (y, rest)"
    using number_loop_digits[of cs 3 "digit c" 9999 rest] s(1) c d v assms(2,3) by simp
  then show ?thesis using c(1) d assms(1,2) by (simp add: get_number_def show_int_def)
qed

section \<open>Years of four digits\<close>

lemma year_start_mono: "y \<le> z \<Longrightarrow> year_start y \<le> year_start z"
proof (induction z rule: int_ge_induct)
  case (step z)
  then show ?case using year_start_Suc[of z] by (simp add: year_length_def split: if_splits)
qed simp

lemma day_in_year:
  assumes "m < 12" "1 \<le> d" "d \<le> month_lengths y ! m"
  shows "year_start y \<le> day_number y m d \<and> day_number y m d < year_start (y + 1)"
proof -
  let ?ls = "month_lengths y"
  have n: "\<forall>l\<in>set ?ls. 0 \<le> l" by (simp add: month_lengths_def)
  have "m < length ?ls" using assms(1) by (simp add: month_lengths_def)
  from id_take_nth_drop[OF this] have "sum_list ?ls = sum_list (take m ?ls @ ?ls ! m # drop (Suc m) ?ls)" by (rule arg_cong)
  then have "sum_list (take m ?ls) + ?ls ! m + sum_list (drop (Suc m) ?ls) = year_length y"
    by (simp add: sum_month_lengths)
  moreover have "0 \<le> sum_list (take m ?ls)" "0 \<le> sum_list (drop (Suc m) ?ls)"
    using n by (auto intro!: sum_list_nonneg dest: in_set_takeD in_set_dropD)
  ultimately show ?thesis using assms(2,3) year_start_Suc[of y] by (simp add: day_number_def)
qed

lemma gmtime_year:
  assumes "- 62167219200 \<le> t" "t < 253402300800"
  obtains ts where "gmtime_r t = Some ts" "0 \<le> tm_year ts + 1900" "tm_year ts + 1900 \<le> 9999" "tm_wday ts < 7"
proof -
  obtain y m d where c: "civil (t div 86400) = (y, m, d)" using prod_cases3 by blast
  note n = civil_day_number[OF c]
  have b: "year_start y \<le> t div 86400" "t div 86400 < year_start (y + 1)" using day_in_year[of m d y] n by auto
  have "year_start 10000 = 2932897" "year_start 0 = - 719528" by (simp_all add: year_start_def)
  moreover have "- 719528 \<le> t div 86400" "t div 86400 < 2932897" using assms by linarith+
  ultimately have y: "0 \<le> y" "y \<le> 9999"
    using b year_start_mono[of 10000 y] year_start_mono[of "y + 1" 0] by (force intro: leI)+
  have "nat ((t div 86400 + 4) mod 7) < 7" by simp
  then show ?thesis using c y that by (simp add: gmtime_r_def)
qed

section \<open>Reading what was written\<close>

lemma blank_stays:
  "v < 100 \<Longrightarrow> dropWhile isspace (two_digits v @ rest) = two_digits v @ rest"
  "i < 12 \<Longrightarrow> dropWhile isspace (month_names ! i @ rest) = month_names ! i @ rest"
  "0 \<le> y \<Longrightarrow> dropWhile isspace (show_int y @ rest) = show_int y @ rest"
proof -
  have stays: "dropWhile isspace (s @ rest) = s @ rest" if "s \<noteq> []" "\<not> isspace (hd s)" for s
    using that by (cases s) simp_all
  show "v < 100 \<Longrightarrow> dropWhile isspace (two_digits v @ rest) = two_digits v @ rest"
    using decimal_digit[of "nat v div 10"] by (intro stays) (auto simp: two_digits_def)
  have m: "list_all (\<lambda>n. n \<noteq> [] \<and> \<not> isspace (hd n)) month_names" by code_simp
  show "i < 12 \<Longrightarrow> dropWhile isspace (month_names ! i @ rest) = month_names ! i @ rest"
    using m by (intro stays) (simp_all add: list_all_length name_lengths)
  have "\<forall>c. isdigit c \<longrightarrow> \<not> isspace c" by code_simp
  moreover obtain c cs where "show_nat (nat y) = c # cs" "isdigit c"
    using show_nat_decimal[of "nat y"] by (cases "show_nat (nat y)") auto
  ultimately show "0 \<le> y \<Longrightarrow> dropWhile isspace (show_int y @ rest) = show_int y @ rest"
    by (intro stays) (auto simp: show_int_def)
qed

lemma strptime_http:
  assumes "tm_wday ts < 7" "1 \<le> tm_mday ts" "tm_mday ts \<le> 31" "tm_mon ts < 12" "0 \<le> tm_year ts + 1900" "tm_year ts + 1900 \<le> 9999"
    and "0 \<le> tm_hour ts" "tm_hour ts < 24" "0 \<le> tm_min ts" "tm_min ts < 60" "0 \<le> tm_sec ts" "tm_sec ts < 60"
  shows "strptime (hd date_formats) (strftime_http ts) ts0 = (Some [], ts)"
proof -
  have c: "isspace (CHR '' '')" "\<not> isspace (CHR ''G'')" "\<not> isdigit (CHR '' '')" by code_simp+
  have year: "get_number 0 9999 4 (show_int (tm_year ts + 1900) @ CHR '' '' # rest) = Some (tm_year ts + 1900, CHR '' '' # rest)" for rest
    using assms(5,6) c(3) by (intro year_read) simp_all
  note reads = wday_read[OF assms(1)] month_read[OF assms(4)] year two_digits_read blank_stays
  have f: "hd date_formats = [WDay, Lit (CHR '',''), Blank, MDay, Blank, Mon, Blank, Year4, Blank, Hour, Lit (CHR '':''), Minute,
      Lit (CHR '':''), Second, Blank, Lit (CHR ''G''), Lit (CHR ''M''), Lit (CHR ''T'')]"
    by (simp add: date_formats_def time_format_def)
  have "strptime (hd date_formats) (strftime_http ts) ts0 = (Some [], ts0\<lparr>tm_wday := tm_wday ts, tm_mday := tm_mday ts, tm_mon := tm_mon ts,
      tm_year := tm_year ts, tm_hour := tm_hour ts, tm_min := tm_min ts, tm_sec := tm_sec ts\<rparr>)"
    unfolding f strftime_http_def using assms c
    by (simp add: reads put_name_def put_number_def)
  then show ?thesis by simp
qed

section \<open>Properties\<close>

text \<open>
  C33. Every time stamp of the years 0 to 9999 is written as a date. When this date is read in a time zone, the result is
  the time stamp, moved by the difference between the offset that was in force at that date and the one of the variable
  \<^verbatim>\<open>timezone\<close>: it is read back exactly if and only if these are the same, as in every zone that has always kept its
  standard time.
\<close>

theorem date_roundtrip:
  assumes "- 62167219200 \<le> t" "t < 253402300800"
  shows "\<exists>s. HttpDate_format t = Inr s \<and> HttpDate_parse zone timezone s = t + (zone t - timezone) \<and>
    (HttpDate_parse zone timezone s = t \<longleftrightarrow> zone t = timezone)"
proof -
  obtain ts where g: "gmtime_r t = Some ts" and y: "0 \<le> tm_year ts + 1900" "tm_year ts + 1900 \<le> 9999" "tm_wday ts < 7"
    by (rule gmtime_year[OF assms])
  note v = gmtime_time[OF g]
  have "list_all (\<lambda>l. l \<le> 31) (month_lengths (tm_year ts + 1900))" by (simp add: month_lengths_def)
  then have "month_lengths (tm_year ts + 1900) ! tm_mon ts \<le> 31" using v(2) by (simp add: list_all_length) (simp add: month_lengths_def)
  then have p: "strptime (hd date_formats) (strftime_http ts) ts0 = (Some [], ts)" for ts0
    using v y by (intro strptime_http) simp_all
  have "HttpDate_parse zone timezone (strftime_http ts) = mktime zone ts - timezone"
    using p by (simp add: HttpDate_parse_def date_formats_def)
  moreover have "clock_reading ts = t" using v(1) by (simp add: clock_reading_def)
  ultimately show ?thesis using g by (simp add: HttpDate_format_def mktime_def)
qed

text \<open>
  Moscow was four hours ahead of Greenwich until the 26th of October 2014 and is three hours ahead since: a date of 2012 is
  read back an hour too early, one of 2020 as it was.
\<close>

definition moscow :: "int \<Rightarrow> int" where
  "moscow clock = (if clock < 1414288800 then - 14400 else - 10800)"

theorem date_roundtrip_witness:
  "(\<exists>s. HttpDate_format 1330000000 = Inr s \<and> HttpDate_parse moscow (- 10800) s = 1329996400) \<and>
   (\<exists>s. HttpDate_format 1600000000 = Inr s \<and> HttpDate_parse moscow (- 10800) s = 1600000000)"
  using date_roundtrip[of 1330000000 moscow "- 10800"] date_roundtrip[of 1600000000 moscow "- 10800"]
  by (auto simp: moscow_def)

end
