(* ===== verification/File_Cache.thy ===== *)
theory File_Cache
  imports Request_Attach Request_Thread_Pool Config_Xml
begin

text \<open>
  The cache of requests that are to be handled again (\<^verbatim>\<open>request-cache/file_cache.cpp\<close>, \<^verbatim>\<open>file_cache.h\<close>, and
  \<^verbatim>\<open>FileHolder\<close> of \<^verbatim>\<open>file_buffer.h\<close>). A request that asks to be tried again is kept in a file of the cache
  directory, under a new name, until its time has come; a thread then reads it back and hands it to the
  server.

  The directory maps the path of a file to the storage, on the heap of the buffers, that has its bytes. Opening
  a file makes a new storage with the same bytes, and all names of the file then refer to it; a write through
  a buffer that was opened before is not seen by the new one, which is enough because the code writes a file
  only between its creation and the first link to it. The destructor of a buffer, which removes the file name it
  was opened with, is written out where the code destroys the last buffer on a file.

  The environment (\<open>cache_env\<close>) is a parameter: the digest \<^verbatim>\<open>HashUtils::hexMD5\<close>, the values that successive calls of
  \<^verbatim>\<open>time\<close> return, and the outcome of the system calls. The operations of a thread take its \<^verbatim>\<open>pthread_self\<close>. The key that
  a thread keeps in thread-specific storage is an entry for this number: that the storage is released when a thread
  ends, and the number given to a new thread in the same second, is not represented. In \<open>cache_step\<close> the operations
  \<^verbatim>\<open>save\<close>, \<^verbatim>\<open>create\<close> and a round of \<^verbatim>\<open>handle\<close> are one step each, although the code takes the locks of the two maps one
  after the other; another thread between them is not represented.
\<close>

section \<open>Keys\<close>

record key_id =
  ki_id :: nat
  ki_last :: int

definition le_bytes :: "nat \<Rightarrow> nat \<Rightarrow> string" where
  "le_bytes n v = map (\<lambda>i. char_of (v div 256 ^ i mod 256)) [0..<n]"

definition KeyId_new :: "int \<Rightarrow> key_id" where
  "KeyId_new now = \<lparr>ki_id = 0, ki_last = now\<rparr>"

text \<open>\<^verbatim>\<open>id\<close> is a signed 32-bit number, whose increment must not overflow.\<close>

definition KeyId_get :: "(string \<Rightarrow> string) \<Rightarrow> nat \<Rightarrow> int \<Rightarrow> key_id \<Rightarrow> (string \<times> key_id) result" where
  "KeyId_get md5 thread_id now k =
     bindE (if now = ki_last k then
              (if ki_id k = 2147483647 then Inl UndefinedBehaviour else Inr (k\<lparr>ki_id := ki_id k + 1\<rparr>))
            else Inr (k\<lparr>ki_last := now, ki_id := 0\<rparr>)) (\<lambda>k.
       Inr (md5 (le_bytes 4 (ki_id k) @ '':'' @ le_bytes 8 (nat (ki_last k mod 2 ^ 64)) @ '':'' @ le_bytes 8 thread_id), k))"

section \<open>State\<close>

record delay_task =
  dt_key :: string
  dt_retries :: int

record file_cache =
  fc_cache_dir :: string
  fc_window :: nat
  fc_max_retries :: nat
  fc_min_post_size :: nat

record cache_state =
  fc_heap :: heap
  fc_disk :: "string \<rightharpoonup> nat"
  fc_holder :: "nat \<rightharpoonup> key_id"   \<comment> \<open>\<^verbatim>\<open>key_id_holder\<close>, by thread\<close>
  fc_reads :: nat   \<comment> \<open>how often \<^verbatim>\<open>time\<close> has been called\<close>
  fc_waiting :: "(int \<times> delay_task) list"
  fc_active :: "(string, int) entries"
  fc_stopped :: bool
  fc_log :: "string list"

record cache_env =
  ce_md5 :: "string \<Rightarrow> string"
  ce_clock :: "nat \<Rightarrow> int"
  ce_sys :: "string \<Rightarrow> syscalls"
  ce_link_ok :: "string \<Rightarrow> string \<Rightarrow> bool"
  ce_strerror :: string

section \<open>Operations\<close>

definition FileRequestCache_new :: "bool \<Rightarrow> config \<Rightarrow> string \<Rightarrow> file_cache result" where
  "FileRequestCache_new is_context_impl cfg xpath =
     (if \<not> is_context_impl then Inl (RuntimeError ''cannot fetch globals in request cache'')
      else bindE (cfg_asString_or cfg (xpath @ ''/cache-dir'') ''/var/cache/fastcgi-daemon/request-cache/'') (\<lambda>dir.
        if dir = [] then Inl (RuntimeError ''Empty cache directory'')
        else bindE (cfg_asInt_or cfg (xpath @ ''/file-window'') 1048576) (\<lambda>window.
          bindE (cfg_asInt_or cfg (xpath @ ''/max-retries'') 2) (\<lambda>retries.
          bindE (cfg_asInt_or cfg (xpath @ ''/min-post-size'') 1048576) (\<lambda>post.
            Inr \<lparr>fc_cache_dir = (if last dir \<noteq> CHR ''/'' then dir @ ''/'' else dir), fc_window = nat (window mod 2 ^ 64),
              fc_max_retries = nat (retries mod 2 ^ 32), fc_min_post_size = nat (post mod 2 ^ 32)\<rparr>)))))"

definition time_now :: "cache_env \<Rightarrow> (cache_state, int) st" where
  "time_now E = (\<lambda>s. (Inr (ce_clock E (fc_reads s)), s\<lparr>fc_reads := Suc (fc_reads s)\<rparr>))"

text \<open>The lines of the log; their level is left out.\<close>

definition log_error :: "string \<Rightarrow> (cache_state, unit) st" where
  "log_error msg = modifyS (\<lambda>s. s\<lparr>fc_log := fc_log s @ [msg]\<rparr>)"

definition generateUniqueKey :: "cache_env \<Rightarrow> nat \<Rightarrow> (cache_state, string) st" where
  "generateUniqueKey E tid = bindS getS (\<lambda>s.
     bindS (case fc_holder s tid of
              None \<Rightarrow> bindS (time_now E) (\<lambda>now. returnS (KeyId_new now))
            | Some k \<Rightarrow> returnS k) (\<lambda>k.
     bindS (time_now E) (\<lambda>now.
     bindS (liftS (KeyId_get (ce_md5 E) tid now k)) (\<lambda>(key, k).
     bindS (modifyS (\<lambda>s. s\<lparr>fc_holder := (fc_holder s)(tid \<mapsto> k)\<rparr>)) (\<lambda>_. returnS key)))))"

subsection \<open>Files\<close>

definition disk_bytes :: "cache_state \<Rightarrow> string \<Rightarrow> string" where
  "disk_bytes s path = (case fc_disk s path of None \<Rightarrow> [] | Some a \<Rightarrow> impl_bytes (fc_heap s ! a))"

text \<open>The names of a file refer to its newest storage.\<close>

definition disk_reopen :: "(string \<rightharpoonup> nat) \<Rightarrow> string \<Rightarrow> nat \<Rightarrow> string \<rightharpoonup> nat" where
  "disk_reopen disk path a = (\<lambda>p. if p = path \<or> disk path \<noteq> None \<and> disk p = disk path then Some a else disk p)"

definition sys_for :: "cache_env \<Rightarrow> cache_state \<Rightarrow> string \<Rightarrow> syscalls" where
  "sys_for E s path = (let S = ce_sys E path in
     S\<lparr>fstat_size := map_option (\<lambda>_. length (disk_bytes s path)) (fstat_size S)\<rparr>)"

text \<open>
  \<^verbatim>\<open>new FileBuffer(path, window)\<close>: the file is opened, and created when it does not exist, and mapped. When the
  mapping fails the file stays, because its holder has not been made yet.
\<close>

definition blank_mmap :: mmap_file where
  "blank_mmap = \<lparr>mm_pointer = Null, mm_size = 0, mm_read_only = False, mm_window = 0, mm_segment_start = 0,
     mm_segment_len = 0, mm_page_size = 0\<rparr>"

definition createFileBuffer :: "file_cache \<Rightarrow> cache_env \<Rightarrow> string \<Rightarrow> (cache_state, data_buffer) st" where
  "createFileBuffer c E key = (\<lambda>s.
     let path = fc_cache_dir c @ key in
     case MMapFile_new (sys_for E s path) (fc_window c) False blank_mmap of
       (res, f) \<Rightarrow>
         (case db_create_impl (fc_heap s)
             (FileBuffer \<lparr>fb_name = path, fb_bytes = disk_bytes s path, fb_window = mm_window f\<rparr>) of
            (h, buffer) \<Rightarrow>
              (let s' = s\<lparr>fc_heap := h, fc_disk := disk_reopen (fc_disk s) path (length (fc_heap s))\<rparr> in
               case res of
                 Inr _ \<Rightarrow> (Inr buffer, s')
               | Inl e \<Rightarrow> (Inl e, if open_ok (sys_for E s path) then s' else s))))"

text \<open>The destructor of the holder.\<close>

definition unlink_file :: "string \<Rightarrow> (cache_state, unit) st" where
  "unlink_file path = modifyS (\<lambda>s. s\<lparr>fc_disk := (fc_disk s)(path := None)\<rparr>)"

definition rc_create_op :: "file_cache \<Rightarrow> cache_env \<Rightarrow> nat \<Rightarrow> (cache_state, data_buffer) st" where
  "rc_create_op c E tid = bindS (generateUniqueKey E tid) (\<lambda>key.
     bindS (createFileBuffer c E key) (\<lambda>buffer.
     bindS (if \<not> db_isNil buffer then modifyS (\<lambda>s. s\<lparr>fc_active := sm_insert (fc_active s) key 0\<rparr>) else returnS ())
       (\<lambda>_. returnS buffer)))"

text \<open>\<^verbatim>\<open>dynamic_cast<FileBuffer*>(body.impl())\<close> and its file name; the empty name when the body is not in a file.\<close>

definition body_filename :: "heap \<Rightarrow> request_impl \<Rightarrow> string" where
  "body_filename h r = (case db_data (rq_body r) of None \<Rightarrow> [] | Some a \<Rightarrow> impl_filename (h ! a))"

definition in_cache_dir :: "file_cache \<Rightarrow> string \<Rightarrow> bool" where
  "in_cache_dir c filename \<longleftrightarrow> filename \<noteq> [] \<and> take (length (fc_cache_dir c)) filename = fc_cache_dir c"

definition getStoredKey :: "file_cache \<Rightarrow> heap \<Rightarrow> request_impl \<Rightarrow> string" where
  "getStoredKey c h r = (let filename = body_filename h r in
     if in_cache_dir c filename then drop (length (fc_cache_dir c)) filename else [])"

definition getKey :: "file_cache \<Rightarrow> cache_env \<Rightarrow> nat \<Rightarrow> request_impl \<Rightarrow> (cache_state, string) st" where
  "getKey c E tid r = bindS getS (\<lambda>s. let key = getStoredKey c (fc_heap s) r in
     if key = [] then generateUniqueKey E tid else returnS key)"

text \<open>\<^verbatim>\<open>link\<close> fails when the file does not exist, when the new name does, or for a reason of its own.\<close>

definition link_file :: "cache_env \<Rightarrow> string \<Rightarrow> string \<Rightarrow> cache_state \<Rightarrow> cache_state option" where
  "link_file E path new_path s =
     (if fc_disk s path \<noteq> None \<and> fc_disk s new_path = None \<and> ce_link_ok E path new_path
      then Some (s\<lparr>fc_disk := (fc_disk s)(new_path := fc_disk s path)\<rparr>) else None)"

definition createHardLink :: "file_cache \<Rightarrow> cache_env \<Rightarrow> nat \<Rightarrow> string \<Rightarrow> (cache_state, string) st" where
  "createHardLink c E tid key = (let path = fc_cache_dir c @ key in
     bindS (generateUniqueKey E tid) (\<lambda>new_key.
     bindS getS (\<lambda>s.
     case link_file E path (fc_cache_dir c @ new_key) s of
       None \<Rightarrow> bindS (log_error (''Cannot link file '' @ path @ '': '' @ ce_strerror E)) (\<lambda>_. returnS [])
     | Some s' \<Rightarrow> bindS (modifyS (\<lambda>_. s')) (\<lambda>_. returnS new_key))))"

text \<open>
  A request whose body is not in a file of the cache is written to a new one. The buffer on it is destroyed when
  the function ends, and with it the name \<open>key\<close>; the link keeps the file. The result is the new key, which is
  empty when the request cannot be saved. \<^verbatim>\<open>createFileBuffer\<close> never returns a nil buffer.
\<close>

definition serialize_to_file :: "request_impl \<Rightarrow> data_buffer \<Rightarrow> (cache_state, unit) st" where
  "serialize_to_file r buffer = (\<lambda>s.
     case rq_serialize r (fc_heap s) buffer of
       Inl e \<Rightarrow> (Inl e, s)
     | Inr (h, _) \<Rightarrow> (Inr (), s\<lparr>fc_heap := h\<rparr>))"

definition finallyS :: "('s, 'a) st \<Rightarrow> ('s, unit) st \<Rightarrow> ('s, 'a) st" where
  "finallyS m f = (\<lambda>s. case m s of (res, s') \<Rightarrow> (res, snd (f s')))"

definition saveRequest :: "file_cache \<Rightarrow> cache_env \<Rightarrow> nat \<Rightarrow> request_impl \<Rightarrow> string \<Rightarrow> (cache_state, string) st" where
  "saveRequest c E tid r key = bindS getS (\<lambda>s.
     if in_cache_dir c (body_filename (fc_heap s) r) then createHardLink c E tid key
     else bindS (createFileBuffer c E key) (\<lambda>buffer.
       if db_isNil buffer then returnS []
       else finallyS (bindS (serialize_to_file r buffer) (\<lambda>_. createHardLink c E tid key))
         (unlink_file (fc_cache_dir c @ key))))"

subsection \<open>The queue\<close>

definition eraseActive :: "string \<Rightarrow> (cache_state, unit) st" where
  "eraseActive key = modifyS (\<lambda>s. s\<lparr>fc_active := filter (\<lambda>e. fst e \<noteq> key) (fc_active s)\<rparr>)"

text \<open>\<^verbatim>\<open>multimap::insert\<close> puts an entry behind those with the same key.\<close>

fun mm_insert :: "('k::linorder \<times> 'v) list \<Rightarrow> 'k \<Rightarrow> 'v \<Rightarrow> ('k \<times> 'v) list" where
  "mm_insert [] k v = [(k, v)]"
| "mm_insert ((k', v') # m) k v = (if k < k' then (k, v) # (k', v') # m else (k', v') # mm_insert m k v)"

definition insertWaiting :: "cache_env \<Rightarrow> int \<Rightarrow> string \<Rightarrow> int \<Rightarrow> (cache_state, unit) st" where
  "insertWaiting E delay key retries = bindS (time_now E) (\<lambda>now.
     modifyS (\<lambda>s. s\<lparr>fc_waiting := mm_insert (fc_waiting s) (delay + now) \<lparr>dt_key = key, dt_retries = retries\<rparr>\<rparr>))"

text \<open>\<^verbatim>\<open>unsigned int retries = it->second\<close>, and back to the signed number of a task.\<close>

definition unsigned_int :: "int \<Rightarrow> nat" where
  "unsigned_int i = nat (i mod 2 ^ 32)"

definition signed_int :: "nat \<Rightarrow> int" where
  "signed_int n = (let v = int (n mod 2 ^ 32) in if v < 2 ^ 31 then v else v - 2 ^ 32)"

definition save_failed :: "request_impl \<Rightarrow> (cache_state, unit) st" where
  "save_failed r = log_error (''Cannot save request for '' @ getScriptName r)"

definition cache_save :: "file_cache \<Rightarrow> cache_env \<Rightarrow> nat \<Rightarrow> request_impl \<Rightarrow> int \<Rightarrow> (cache_state, unit) st" where
  "cache_save c E tid r delay = bindS getS (\<lambda>s.
     if delay = 0 \<or> fc_max_retries c \<le> 0 then
       (let key = getStoredKey c (fc_heap s) r in if key \<noteq> [] then eraseActive key else returnS ())
     else bindS (getKey c E tid r) (\<lambda>key.
       bindS getS (\<lambda>s.
       case sm_find (fc_active s) key of
         None \<Rightarrow>
           bindS (saveRequest c E tid r key) (\<lambda>new_key.
           if new_key = [] then save_failed r else insertWaiting E delay new_key 1)
       | Some n \<Rightarrow>
           (let retries = unsigned_int n in
            if retries \<ge> fc_max_retries c then
              bindS (log_error (''Max retries reach for '' @ getScriptName r)) (\<lambda>_. eraseActive key)
            else bindS (saveRequest c E tid r key) (\<lambda>new_key.
              if new_key = [] then bindS (save_failed r) (\<lambda>_. eraseActive key)
              else bindS (eraseActive key) (\<lambda>_. insertWaiting E delay new_key (signed_int (retries + 1))))))))"

text \<open>
  \<^verbatim>\<open>Request::~Request\<close> saves the request and then destroys its buffers; a body in a file takes its name away.
  \<^verbatim>\<open>saveToCache\<close> does nothing for a request without a cache.
\<close>

definition saveToCache :: "file_cache \<Rightarrow> cache_env \<Rightarrow> nat \<Rightarrow> request_impl \<Rightarrow> (cache_state, unit) st" where
  "saveToCache c E tid r = (if rq_cache r \<noteq> None then cache_save c E tid r (rq_delay r) else returnS ())"

definition Request_destroy :: "file_cache \<Rightarrow> cache_env \<Rightarrow> nat \<Rightarrow> request_impl \<Rightarrow> (cache_state, unit) st" where
  "Request_destroy c E tid r = bindS getS (\<lambda>s.
     let filename = body_filename (fc_heap s) r in
     finallyS (saveToCache c E tid r) (if filename \<noteq> [] then unlink_file filename else returnS ()))"

definition cache_stop :: "(cache_state, unit) st" where
  "cache_stop = modifyS (\<lambda>s. s\<lparr>fc_stopped := True\<rparr>)"

subsection \<open>The thread\<close>

text \<open>
  A round of \<^verbatim>\<open>handle\<close>: it returns, waits for a second, hands a request to \<^verbatim>\<open>handleRequest\<close>, or fails with an
  exception that is logged. A request that cannot be read is destroyed, with its buffer.
\<close>

datatype round = RoundStops | RoundWaits | RoundServes request_impl | RoundFails

definition round_failed :: "(error \<Rightarrow> string) \<Rightarrow> error \<Rightarrow> (cache_state, round) st" where
  "round_failed what e =
     (if is_exception e then
        bindS (log_error (if is_std_exception e then ''caught exception while handling request: '' @ what e
          else ''caught unknown exception while handling request'')) (\<lambda>_. returnS RoundFails)
      else throwS e)"

definition read_request ::
  "file_cache \<Rightarrow> cache_env \<Rightarrow> nat \<Rightarrow> request_cache \<Rightarrow> (error \<Rightarrow> string) \<Rightarrow> delay_task \<Rightarrow> (cache_state, round) st" where
  "read_request c E tid rc what task = catchS
     (bindS (createFileBuffer c E (dt_key task)) (\<lambda>buffer.
      bindS (if db_isNil buffer then log_error (''Cannot load file '' @ dt_key task)
             else modifyS (\<lambda>s. s\<lparr>fc_active := sm_insert (fc_active s) (dt_key task) (dt_retries task)\<rparr>)) (\<lambda>_.
      bindS getS (\<lambda>s.
      case rq_parse (fc_heap s) buffer (RequestImpl_new (Some rc)) of
        (Inr _, r) \<Rightarrow> returnS (RoundServes r)
      | (Inl e, r) \<Rightarrow> finallyS (bindS (saveToCache c E tid r) (\<lambda>_. throwS e))
          (unlink_file (fc_cache_dir c @ dt_key task))))))
     (round_failed what)"

definition handle_round ::
  "file_cache \<Rightarrow> cache_env \<Rightarrow> nat \<Rightarrow> request_cache \<Rightarrow> (error \<Rightarrow> string) \<Rightarrow> (cache_state, round) st" where
  "handle_round c E tid rc what = bindS getS (\<lambda>s.
     if fc_stopped s then returnS RoundStops
     else (case fc_waiting s of
       [] \<Rightarrow> returnS RoundWaits
     | (due, task) # rest \<Rightarrow>
         bindS (time_now E) (\<lambda>now.
         if due > now then returnS RoundWaits
         else bindS (modifyS (\<lambda>s. s\<lparr>fc_waiting := rest\<rparr>)) (\<lambda>_. read_request c E tid rc what task))))"

section \<open>Files and keys\<close>

lemmas gen_key_defs = generateUniqueKey_def time_now_def monad_simps

text \<open>Making a key uses the clock and the counter of the thread, and nothing else of the state.\<close>

lemma generateUniqueKey_frame:
  assumes "generateUniqueKey E tid s = (res, s1)"
  shows "s1 = s\<lparr>fc_holder := fc_holder s1, fc_reads := fc_reads s1\<rparr>"
    and "fc_holder t = fc_holder s \<Longrightarrow> fc_reads t = fc_reads s \<Longrightarrow>
      generateUniqueKey E tid t = (res, t\<lparr>fc_holder := fc_holder s1, fc_reads := fc_reads s1\<rparr>)"
  using assms by (auto simp: gen_key_defs split: option.splits sum.splits prod.splits)

lemma createFileBuffer_opens:
  assumes "syscalls_succeed (ce_sys E (fc_cache_dir c @ key))" "length (disk_bytes s (fc_cache_dir c @ key)) < two64"
  obtains f where "createFileBuffer c E key s =
      (Inr \<lparr>db_data = Some (length (fc_heap s)), db_begin = 0, db_end = length (disk_bytes s (fc_cache_dir c @ key))\<rparr>,
       s\<lparr>fc_heap := fc_heap s @ [FileBuffer f],
         fc_disk := disk_reopen (fc_disk s) (fc_cache_dir c @ key) (length (fc_heap s))\<rparr>)"
    "fb_name f = fc_cache_dir c @ key" "fb_bytes f = disk_bytes s (fc_cache_dir c @ key)" "fb_ok f"
proof -
  let ?path = "fc_cache_dir c @ key"
  have S: "syscalls_succeed (sys_for E s ?path)" "fstat_size (sys_for E s ?path) = Some (length (disk_bytes s ?path))"
    using assms(1) by (auto simp: sys_for_def syscalls_succeed_def Let_def)
  obtain m where m: "MMapFile_new (sys_for E s ?path) (fc_window c) False blank_mmap = (Inr (), m)" "mm_ok m"
    using MMapFile_new_ok[OF S] by blast
  show ?thesis
  proof
    show "createFileBuffer c E key s =
      (Inr \<lparr>db_data = Some (length (fc_heap s)), db_begin = 0, db_end = length (disk_bytes s ?path)\<rparr>,
       s\<lparr>fc_heap := fc_heap s @ [FileBuffer \<lparr>fb_name = ?path, fb_bytes = disk_bytes s ?path, fb_window = mm_window m\<rparr>],
         fc_disk := disk_reopen (fc_disk s) ?path (length (fc_heap s))\<rparr>)"
      using m(1) by (simp add: createFileBuffer_def db_create_impl_def impl_size_def Let_def)
    show "fb_ok \<lparr>fb_name = ?path, fb_bytes = disk_bytes s ?path, fb_window = mm_window m\<rparr>"
      using m(2) assms(2) by (simp add: fb_ok_def mm_ok_def)
  qed simp_all
qed

lemma whole_file:
  assumes "fb_ok f"
  shows "whole_buffer (h @ [FileBuffer f]) \<lparr>db_data = Some (length h), db_begin = 0, db_end = length (fb_bytes f)\<rparr>"
    and "content (h @ [FileBuffer f]) \<lparr>db_data = Some (length h), db_begin = 0, db_end = length (fb_bytes f)\<rparr> = fb_bytes f"
  using assms by (simp_all add: whole_buffer_def db_ok_def impl_ok_def heap_bytes_def content_def fb_ok_def)

lemma whole_content: "whole_buffer h d \<Longrightarrow> content h d = heap_bytes h d"
  unfolding whole_buffer_def content_def by (elim conjE) (simp only: between_whole)

lemma disk_reopen_simps [simp]:
  "disk_reopen disk path a path = Some a"
  "disk path = None \<Longrightarrow> disk_reopen disk path a = disk(path \<mapsto> a)"
  by (auto simp: disk_reopen_def)

lemma db_ok_append: "db_ok h d \<Longrightarrow> db_ok (h @ h') d" "db_ok h d \<Longrightarrow> content (h @ h') d = content h d"
  by (auto simp: db_ok_def content_def heap_bytes_def nth_append split: option.splits)

lemma request_image_append: "db_ok h (rq_body r) \<Longrightarrow> request_image (h @ h') r = request_image h r"
  by (simp add: request_image_def db_ok_append)

section \<open>A request that is stored is served\<close>

text \<open>What a stored request must be like, and when two requests are the same.\<close>

definition storable :: "heap \<Rightarrow> request_impl \<Rightarrow> bool" where
  "storable h r \<longleftrightarrow> rq_wf r \<and> db_ok h (rq_body r) \<and> (\<forall>x\<in>set (rq_files r). file_ok (rq_body r) (snd x)) \<and>
     length (request_image h r) \<le> string_max_size"

definition files_shown :: "heap \<Rightarrow> request_impl \<Rightarrow> (string \<times> string \<times> string \<times> string) list" where
  "files_shown h r = map (\<lambda>x. (fst x, file_name (snd x), file_type (snd x), content h (file_data (snd x)))) (rq_files r)"

definition same_request :: "heap \<Rightarrow> request_impl \<Rightarrow> heap \<Rightarrow> request_impl \<Rightarrow> bool" where
  "same_request h' r' h r \<longleftrightarrow> rq_headers r' = rq_headers r \<and> rq_cookies r' = rq_cookies r \<and> rq_vars r' = rq_vars r \<and>
     rq_args r' = rq_args r \<and> content h' (rq_body r') = content h (rq_body r) \<and> files_shown h' r' = files_shown h r"

lemma storable_size: "storable h r \<Longrightarrow> length (request_image h r) < two64"
  by (simp add: storable_def string_max_size_def two64_def)

lemma rebuilt_same:
  assumes "whole_buffer h' d" "content h' d = request_image h r" "storable h r"
  shows "same_request h' (rebuilt rc d r) h r"
proof -
  have r: "db_ok h (rq_body r)" "\<forall>x\<in>set (rq_files r). file_ok (rq_body r) (snd x)"
    using assms(3) by (simp_all add: storable_def)
  have len: "length (content h (rq_body r)) = db_end (rq_body r) - db_begin (rq_body r)"
    using db_ok_bounds[OF r(1)] by (simp add: content_def)
  have "content h' (rq_body (rebuilt rc d r)) = content h (rq_body r)"
    using image_body(1)[OF assms(1,2) r(1), of 0 "db_end (rq_body r) - db_begin (rq_body r)"] len
    by (simp add: rebuilt_def Let_def)
  moreover have "files_shown h' (rebuilt rc d r) = files_shown h r"
    using relocated_file[OF assms(1,2) r(1)] r(2)
    by (simp add: rebuilt_def Let_def relocate_all_def relocate_def files_shown_def)
  ultimately show ?thesis by (simp add: same_request_def) (simp add: rebuilt_def Let_def)
qed

text \<open>The file of a task holds a request.\<close>

definition stores :: "file_cache \<Rightarrow> cache_state \<Rightarrow> string \<Rightarrow> string \<Rightarrow> bool" where
  "stores c s key img \<longleftrightarrow> fc_disk s (fc_cache_dir c @ key) \<noteq> None \<and> disk_bytes s (fc_cache_dir c @ key) = img"

lemma stores_cong: "fc_disk s' = fc_disk s \<Longrightarrow> fc_heap s' = fc_heap s \<Longrightarrow> stores c s' = stores c s"
  by (intro ext) (simp add: stores_def disk_bytes_def split: option.split)

lemma read_request_serves:
  assumes "stores c s (dt_key task) (request_image h r)" "storable h r"
    and "syscalls_succeed (ce_sys E (fc_cache_dir c @ dt_key task))"
  obtains s' r' where "read_request c E tid rc what task s = (Inr (RoundServes r'), s')"
    "same_request (fc_heap s') r' h r" "body_filename (fc_heap s') r' = fc_cache_dir c @ dt_key task"
    "fc_active s' = sm_insert (fc_active s) (dt_key task) (dt_retries task)" "stores c s' (dt_key task) (request_image h r)"
    "fc_waiting s' = fc_waiting s" "fc_reads s' = fc_reads s" "fc_holder s' = fc_holder s" "fc_log s' = fc_log s"
    "rq_cache r' = Some rc"
proof -
  let ?path = "fc_cache_dir c @ dt_key task"
  have b: "disk_bytes s ?path = request_image h r" using assms(1) by (simp add: stores_def)
  then have "length (disk_bytes s ?path) < two64" using storable_size[OF assms(2)] by simp
  from createFileBuffer_opens[OF assms(3) this] obtain f where f: "createFileBuffer c E (dt_key task) s =
      (Inr \<lparr>db_data = Some (length (fc_heap s)), db_begin = 0, db_end = length (disk_bytes s ?path)\<rparr>,
       s\<lparr>fc_heap := fc_heap s @ [FileBuffer f], fc_disk := disk_reopen (fc_disk s) ?path (length (fc_heap s))\<rparr>)"
    "fb_name f = ?path" "fb_bytes f = disk_bytes s ?path" "fb_ok f" .
  let ?d = "\<lparr>db_data = Some (length (fc_heap s)), db_begin = 0, db_end = length (disk_bytes s ?path)\<rparr>"
  let ?h = "fc_heap s @ [FileBuffer f]"
  note w = whole_file[OF f(4), of "fc_heap s", unfolded f(3)]
  have p: "rq_parse ?h ?d (RequestImpl_new (Some rc)) = (Inr (), rebuilt (Some rc) ?d r)"
    using parse_image[OF w(1)] w(2) assms(2) by (simp add: storable_def b)
  let ?s' = "s\<lparr>fc_heap := ?h, fc_disk := disk_reopen (fc_disk s) ?path (length (fc_heap s)),
    fc_active := sm_insert (fc_active s) (dt_key task) (dt_retries task)\<rparr>"
  have d: "rq_body (rebuilt (Some rc) ?d r) = view ?d (length (env_image r) + 8) (db_end (rq_body r) - db_begin (rq_body r))"
    "rq_cache (rebuilt (Some rc) ?d r) = Some rc"
    by (simp_all add: rebuilt_def Let_def RequestImpl_new_def rq_reset_def)
  show ?thesis
  proof
    show "read_request c E tid rc what task s = (Inr (RoundServes (rebuilt (Some rc) ?d r)), ?s')"
      using f(1) p by (simp add: read_request_def monad_simps db_isNil_def)
    show "same_request (fc_heap ?s') (rebuilt (Some rc) ?d r) h r"
      using rebuilt_same[OF w(1) _ assms(2)] w(2) b by simp
    show "body_filename (fc_heap ?s') (rebuilt (Some rc) ?d r) = ?path"
      by (simp add: body_filename_def d view_def f(2))
    show "stores c ?s' (dt_key task) (request_image h r)"
      using b f(3) by (simp add: stores_def disk_bytes_def)
  qed (simp_all add: d)
qed

text \<open>
  Two keys that the thread makes one after the other, and that are not in use: the first names the file that is
  written, the second one the link that stays.
\<close>

definition fresh_keys :: "file_cache \<Rightarrow> cache_env \<Rightarrow> nat \<Rightarrow> cache_state \<Rightarrow> string \<Rightarrow> string \<Rightarrow> cache_state \<Rightarrow> bool" where
  "fresh_keys c E tid s k1 k2 s2 \<longleftrightarrow> (\<exists>s1. generateUniqueKey E tid s = (Inr k1, s1) \<and> generateUniqueKey E tid s1 = (Inr k2, s2)) \<and>
     k1 \<noteq> k2 \<and> k1 \<noteq> [] \<and> k2 \<noteq> [] \<and> fc_disk s (fc_cache_dir c @ k1) = None \<and> fc_disk s (fc_cache_dir c @ k2) = None \<and>
     sm_find (fc_active s) k1 = None \<and> ce_link_ok E (fc_cache_dir c @ k1) (fc_cache_dir c @ k2)"

lemma createHardLink_links:
  assumes "generateUniqueKey E tid s = (Inr k2, s2)" "fc_disk s (fc_cache_dir c @ k1) = Some a"
    "fc_disk s (fc_cache_dir c @ k2) = None" "ce_link_ok E (fc_cache_dir c @ k1) (fc_cache_dir c @ k2)"
  shows "createHardLink c E tid k1 s = (Inr k2, s2\<lparr>fc_disk := (fc_disk s)(fc_cache_dir c @ k2 \<mapsto> a)\<rparr>)"
proof -
  have "fc_disk s2 = fc_disk s" using generateUniqueKey_frame(1)[OF assms(1)] by (metis cache_state.select_convs(2) cache_state.surjective cache_state.update_convs(3,4))
  then show ?thesis
    using assms by (simp add: createHardLink_def Let_def link_file_def monad_simps)
qed

lemma saveRequest_stores:
  assumes "generateUniqueKey E tid s = (Inr k2, s2)" "k1 \<noteq> k2"
    and "fc_disk s (fc_cache_dir c @ k1) = None" "fc_disk s (fc_cache_dir c @ k2) = None"
    and "ce_link_ok E (fc_cache_dir c @ k1) (fc_cache_dir c @ k2)" "syscalls_succeed (ce_sys E (fc_cache_dir c @ k1))"
    and "storable (fc_heap s) r" "\<not> in_cache_dir c (body_filename (fc_heap s) r)"
  obtains s' where "saveRequest c E tid r k1 s = (Inr k2, s')" "stores c s' k2 (request_image (fc_heap s) r)"
    "fc_disk s' (fc_cache_dir c @ k1) = None" "fc_waiting s' = fc_waiting s" "fc_active s' = fc_active s"
    "fc_stopped s' = fc_stopped s" "fc_log s' = fc_log s" "fc_reads s' = fc_reads s2" "fc_holder s' = fc_holder s2"
proof -
  let ?p1 = "fc_cache_dir c @ k1" and ?p2 = "fc_cache_dir c @ k2"
  have empty: "disk_bytes s ?p1 = []" using assms(3) by (simp add: disk_bytes_def)
  have "length (disk_bytes s ?p1) < two64" by (simp add: empty two64_def)
  from createFileBuffer_opens[OF assms(6) this] obtain f where f: "createFileBuffer c E k1 s =
      (Inr \<lparr>db_data = Some (length (fc_heap s)), db_begin = 0, db_end = 0\<rparr>,
       s\<lparr>fc_heap := fc_heap s @ [FileBuffer f], fc_disk := (fc_disk s)(?p1 \<mapsto> length (fc_heap s))\<rparr>)"
    "fb_bytes f = []" "fb_ok f"
    using empty assms(3) by auto
  let ?d = "\<lparr>db_data = Some (length (fc_heap s)), db_begin = 0, db_end = 0\<rparr>" and ?h = "fc_heap s @ [FileBuffer f]"
  have r: "db_ok (fc_heap s) (rq_body r)" using assms(7) by (simp add: storable_def)
  have other: "db_data (rq_body r) \<noteq> db_data ?d"
    using r by (auto simp: db_ok_def split: option.splits)
  have "whole_buffer ?h ?d" using whole_file(1)[OF f(3), of "fc_heap s"] f(2) by simp
  then obtain h' d' where h': "rq_serialize r ?h ?d = Inr (h', d')" "whole_buffer h' d'" "db_data d' = db_data ?d"
    "content h' d' = request_image ?h r"
    using serialize_content[of ?h ?d r] db_ok_append(1)[OF r] other storable_size[OF assms(7)] request_image_append[OF r]
    by auto
  have bytes: "impl_bytes (h' ! length (fc_heap s)) = request_image (fc_heap s) r"
  proof -
    have "content h' d' = heap_bytes h' d'" by (rule whole_content[OF h'(2)])
    moreover have "heap_bytes h' d' = impl_bytes (h' ! length (fc_heap s))" using h'(3) by (simp add: heap_bytes_def)
    ultimately show ?thesis using h'(4) request_image_append[OF r] by simp
  qed
  let ?s1 = "s\<lparr>fc_disk := (fc_disk s)(?p1 \<mapsto> length (fc_heap s)), fc_heap := h'\<rparr>"
  have k2: "generateUniqueKey E tid ?s1 = (Inr k2, ?s1\<lparr>fc_holder := fc_holder s2, fc_reads := fc_reads s2\<rparr>)"
    using generateUniqueKey_frame(2)[OF assms(1), of ?s1] by simp
  have l: "createHardLink c E tid k1 ?s1 = (Inr k2, ?s1\<lparr>fc_holder := fc_holder s2, fc_reads := fc_reads s2,
      fc_disk := (fc_disk s)(?p1 \<mapsto> length (fc_heap s), ?p2 \<mapsto> length (fc_heap s))\<rparr>)"
    using createHardLink_links[OF k2, of c k1 "length (fc_heap s)"] assms(2,4,5) by simp
  let ?s' = "s\<lparr>fc_heap := h', fc_holder := fc_holder s2, fc_reads := fc_reads s2,
    fc_disk := (fc_disk s)(?p2 \<mapsto> length (fc_heap s), ?p1 := None)\<rparr>"
  show ?thesis
  proof
    have "(fc_disk s)(?p1 \<mapsto> length (fc_heap s), ?p2 \<mapsto> length (fc_heap s), ?p1 := None) =
        (fc_disk s)(?p2 \<mapsto> length (fc_heap s), ?p1 := None)"
      using assms(2) by (auto simp: fun_eq_iff)
    then show "saveRequest c E tid r k1 s = (Inr k2, ?s')"
      using f(1) h'(1) l assms(8)
      by (simp add: saveRequest_def monad_simps db_isNil_def finallyS_def serialize_to_file_def unlink_file_def)
    show "stores c ?s' k2 (request_image (fc_heap s) r)"
      using assms(2) bytes by (simp add: stores_def disk_bytes_def)
  qed simp_all
qed

lemma mm_insert_first: "\<forall>e\<in>set m. k < fst e \<Longrightarrow> mm_insert m k v = (k, v) # m"
  by (cases m) auto

lemma in_cache_dir_path: "k \<noteq> [] \<Longrightarrow> in_cache_dir c (fc_cache_dir c @ k)"
  by (simp add: in_cache_dir_def)

lemma getStoredKey_path: "body_filename h r = fc_cache_dir c @ k \<Longrightarrow> getStoredKey c h r = k"
  by (cases "k = []") (auto simp: getStoredKey_def in_cache_dir_def Let_def)

lemma getStoredKey_memory: "\<not> in_cache_dir c (body_filename h r) \<Longrightarrow> getStoredKey c h r = []"
  by (simp add: getStoredKey_def Let_def)

lemma cache_save_stores:
  assumes keys: "fresh_keys c E tid s k1 k2 s2" and r: "storable (fc_heap s) r" "\<not> in_cache_dir c (body_filename (fc_heap s) r)"
    and sys: "syscalls_succeed (ce_sys E (fc_cache_dir c @ k1))" and retry: "delay \<noteq> 0" "0 < fc_max_retries c"
  obtains s' where "cache_save c E tid r delay s = (Inr (), s')" "stores c s' k2 (request_image (fc_heap s) r)"
    "fc_waiting s' = mm_insert (fc_waiting s) (delay + ce_clock E (fc_reads s2)) \<lparr>dt_key = k2, dt_retries = 1\<rparr>"
    "fc_stopped s' = fc_stopped s" "fc_reads s' = Suc (fc_reads s2)" "fc_active s' = fc_active s"
proof -
  obtain s1 where k1: "generateUniqueKey E tid s = (Inr k1, s1)" and k2: "generateUniqueKey E tid s1 = (Inr k2, s2)"
    using keys by (auto simp: fresh_keys_def)
  have s1: "s1 = s\<lparr>fc_holder := fc_holder s1, fc_reads := fc_reads s1\<rparr>" by (rule generateUniqueKey_frame(1)[OF k1])
  have f: "fc_heap s1 = fc_heap s" "fc_disk s1 = fc_disk s" "fc_waiting s1 = fc_waiting s" "fc_active s1 = fc_active s"
    "fc_stopped s1 = fc_stopped s"
    by (subst s1, simp)+
  obtain s' where s': "saveRequest c E tid r k1 s1 = (Inr k2, s')" "stores c s' k2 (request_image (fc_heap s1) r)"
    "fc_waiting s' = fc_waiting s1" "fc_active s' = fc_active s1" "fc_stopped s' = fc_stopped s1" "fc_reads s' = fc_reads s2"
    using saveRequest_stores[OF k2, of k1 c r] keys r sys by (auto simp: fresh_keys_def f)
  have key: "getKey c E tid r s = (Inr k1, s1)"
    using k1 getStoredKey_memory[OF r(2)] by (simp add: getKey_def monad_simps Let_def)
  let ?w = "mm_insert (fc_waiting s) (delay + ce_clock E (fc_reads s2)) \<lparr>dt_key = k2, dt_retries = 1\<rparr>"
  show ?thesis
  proof
    show "stores c (s'\<lparr>fc_reads := Suc (fc_reads s2), fc_waiting := ?w\<rparr>) k2 (request_image (fc_heap s) r)"
      using s'(2) stores_cong[of "s'\<lparr>fc_reads := Suc (fc_reads s2), fc_waiting := ?w\<rparr>" s'] f(1) by simp
    show "cache_save c E tid r delay s = (Inr (), s'\<lparr>fc_reads := Suc (fc_reads s2),
        fc_waiting := ?w\<rparr>)"
      using keys retry key s' f
      by (simp add: cache_save_def monad_simps fresh_keys_def insertWaiting_def time_now_def)
  qed (use s' f in simp_all)
qed

lemma handle_round_due:
  assumes "\<not> fc_stopped s" "fc_waiting s = (due, task) # rest" "due \<le> ce_clock E (fc_reads s)"
  shows "handle_round c E tid rc what s =
    read_request c E tid rc what task (s\<lparr>fc_reads := Suc (fc_reads s), fc_waiting := rest\<rparr>)"
  using assms by (simp add: handle_round_def monad_simps time_now_def)

section \<open>Requests that are tried again\<close>

lemma unsigned_signed: "n < 2 ^ 32 \<Longrightarrow> unsigned_int (signed_int n) = n"
  by (auto simp: unsigned_int_def signed_int_def Let_def)

lemma generateUniqueKey_fields:
  assumes "generateUniqueKey E tid s = (res, s1)"
  shows "fc_heap s1 = fc_heap s" "fc_disk s1 = fc_disk s" "fc_waiting s1 = fc_waiting s" "fc_active s1 = fc_active s"
    "fc_stopped s1 = fc_stopped s" "fc_log s1 = fc_log s"
  by (subst generateUniqueKey_frame(1)[OF assms], simp)+

lemma sm_find_erase: "sm_find (filter (\<lambda>e. fst e \<noteq> k) m) k = None"
  by (induction m) (auto simp: sm_find_def)

text \<open>A request in a file of the cache that is destroyed and asks to be tried again.\<close>

lemma destroy_again:
  assumes body: "body_filename (fc_heap s) r = fc_cache_dir c @ k" "k \<noteq> []" and img: "stores c s k img"
    and act: "sm_find (fc_active s) k = Some n" and again: "rq_cache r \<noteq> None" "rq_delay r \<noteq> 0"
    and left: "unsigned_int n < fc_max_retries c"
    and key: "generateUniqueKey E tid s = (Inr k2, s2)" "k2 \<noteq> []" "k2 \<noteq> k" "fc_disk s (fc_cache_dir c @ k2) = None"
      "ce_link_ok E (fc_cache_dir c @ k) (fc_cache_dir c @ k2)"
    and eq: "Request_destroy c E tid r s = (res, s')"
  shows "fc_waiting s' = mm_insert (fc_waiting s) (rq_delay r + ce_clock E (fc_reads s2))
      \<lparr>dt_key = k2, dt_retries = signed_int (unsigned_int n + 1)\<rparr> \<and> stores c s' k2 img \<and>
    sm_find (fc_active s') k = None \<and> fc_disk s' (fc_cache_dir c @ k) = None"
proof -
  obtain a where a: "fc_disk s (fc_cache_dir c @ k) = Some a" "impl_bytes (fc_heap s ! a) = img"
    using img by (auto simp: stores_def disk_bytes_def)
  note f = generateUniqueKey_fields[OF key(1)]
  have key_k: "getKey c E tid r s = (Inr k, s)"
    using getStoredKey_path[OF body(1)] body(2) by (simp add: getKey_def monad_simps Let_def)
  have sv: "saveRequest c E tid r k s = (Inr k2, s2\<lparr>fc_disk := (fc_disk s)(fc_cache_dir c @ k2 \<mapsto> a)\<rparr>)"
    using createHardLink_links[OF key(1) a(1) key(4,5)] in_cache_dir_path[OF body(2), of c] body(1)
    by (simp add: saveRequest_def monad_simps)
  have max: "0 < fc_max_retries c" using left by simp
  have "fc_disk s' = (fc_disk s)(fc_cache_dir c @ k2 \<mapsto> a, fc_cache_dir c @ k := None) \<and> fc_heap s' = fc_heap s \<and>
      fc_active s' = filter (\<lambda>e. fst e \<noteq> k) (fc_active s) \<and>
      fc_waiting s' = mm_insert (fc_waiting s) (rq_delay r + ce_clock E (fc_reads s2))
        \<lparr>dt_key = k2, dt_retries = signed_int (unsigned_int n + 1)\<rparr>"
    using eq key_k sv act left max again key(2) body f
    by (auto simp: Request_destroy_def saveToCache_def cache_save_def monad_simps finallyS_def unlink_file_def
        eraseActive_def insertWaiting_def time_now_def Let_def)
  then show ?thesis
    using a(2) key(3) by (simp add: stores_def disk_bytes_def sm_find_erase)
qed

lemma destroy_last:
  assumes body: "body_filename (fc_heap s) r = fc_cache_dir c @ k" "k \<noteq> []"
    and act: "sm_find (fc_active s) k = Some n" and again: "rq_cache r \<noteq> None"
    and left: "rq_delay r = 0 \<or> fc_max_retries c \<le> unsigned_int n"
    and eq: "Request_destroy c E tid r s = (res, s')"
  shows "fc_waiting s' = fc_waiting s \<and> sm_find (fc_active s') k = None \<and> fc_disk s' = (fc_disk s)(fc_cache_dir c @ k := None)"
proof -
  have key_k: "getKey c E tid r s = (Inr k, s)" "getStoredKey c (fc_heap s) r = k"
    using getStoredKey_path[OF body(1)] body(2) by (simp_all add: getKey_def monad_simps Let_def)
  show ?thesis
    using eq key_k act left again body
    by (auto simp: Request_destroy_def saveToCache_def cache_save_def monad_simps finallyS_def unlink_file_def
        eraseActive_def log_error_def Let_def sm_find_erase split: if_splits)
qed

section \<open>The queue in every run\<close>

definition cache_inv :: "file_cache \<Rightarrow> cache_state \<Rightarrow> bool" where
  "cache_inv c s \<longleftrightarrow> sorted (map fst (fc_waiting s)) \<and>
     (\<forall>e\<in>set (fc_waiting s). 1 \<le> unsigned_int (dt_retries (snd e)) \<and> unsigned_int (dt_retries (snd e)) \<le> fc_max_retries c) \<and>
     (\<forall>e\<in>set (fc_active s). unsigned_int (snd e) \<le> fc_max_retries c)"

lemma keeps_get: "(\<And>s. P s \<Longrightarrow> P (snd (f s s))) \<Longrightarrow> keeps P (bindS getS f)"
  by (simp add: keeps_def monad_simps)

lemma keeps_finally [keeps_intros]: "keeps P m \<Longrightarrow> keeps P f \<Longrightarrow> keeps P (finallyS m f)"
  by (simp add: keeps_def finallyS_def split: prod.split) (metis snd_conv)

lemma keeps_catch [keeps_intros]: "keeps P m \<Longrightarrow> (\<And>e. keeps P (f e)) \<Longrightarrow> keeps P (catchS m f)"
  by (simp add: keeps_def catchS_def split: prod.split sum.split) (metis snd_conv)

lemma keeps_option [keeps_intros]:
  "(x = None \<Longrightarrow> keeps P m) \<Longrightarrow> (\<And>y. x = Some y \<Longrightarrow> keeps P (f y)) \<Longrightarrow> keeps P (case x of None \<Rightarrow> m | Some y \<Rightarrow> f y)"
  by (cases x) simp_all

lemma mm_insert_set: "set (mm_insert m k v) = insert (k, v) (set m)"
  by (induction m k v rule: mm_insert.induct) auto

lemma mm_insert_sorted: "sorted (map fst m) \<Longrightarrow> sorted (map fst (mm_insert m k v))"
  by (induction m k v rule: mm_insert.induct) (auto simp: mm_insert_set)

lemma sm_insert_set: "set (sm_insert m k v) \<subseteq> insert (k, v) (set m)"
  by (induction m k v rule: sm_insert.induct) auto

lemma cache_inv_fields:
  "cache_inv c s \<Longrightarrow> fc_waiting s' = fc_waiting s \<Longrightarrow> set (fc_active s') \<subseteq> set (fc_active s) \<Longrightarrow> cache_inv c s'"
  by (auto simp: cache_inv_def)

lemma cache_inv_active:
  assumes "cache_inv c s" "unsigned_int n \<le> fc_max_retries c"
  shows "cache_inv c (s\<lparr>fc_active := sm_insert (fc_active s) k n\<rparr>)"
  using assms sm_insert_set[of "fc_active s" k n] by (auto simp: cache_inv_def)

lemma cache_inv_waiting:
  assumes "cache_inv c s" "1 \<le> unsigned_int (dt_retries d)" "unsigned_int (dt_retries d) \<le> fc_max_retries c"
  shows "cache_inv c (s\<lparr>fc_waiting := mm_insert (fc_waiting s) t d\<rparr>)"
  using assms by (auto simp: cache_inv_def mm_insert_set mm_insert_sorted)

lemma keeps_cache_simple [keeps_intros]:
  "keeps (cache_inv c) (log_error msg)" "keeps (cache_inv c) (time_now E)" "keeps (cache_inv c) (unlink_file p)"
  "keeps (cache_inv c) (eraseActive k)" "keeps (cache_inv c) (serialize_to_file r d)" "keeps (cache_inv c) cache_stop"
  by (auto simp: keeps_def log_error_def time_now_def unlink_file_def eraseActive_def serialize_to_file_def cache_stop_def
      monad_simps split: sum.split elim!: cache_inv_fields)

lemma keeps_cache_key [keeps_intros]: "keeps (cache_inv c) (generateUniqueKey E tid)"
  unfolding keeps_def
proof (intro allI impI)
  fix s
  assume "cache_inv c s"
  moreover obtain res s1 where g: "generateUniqueKey E tid s = (res, s1)" by (cases "generateUniqueKey E tid s")
  ultimately show "cache_inv c (snd (generateUniqueKey E tid s))"
    using generateUniqueKey_fields[OF g] by (auto elim!: cache_inv_fields)
qed

lemma keeps_cache_open [keeps_intros]: "keeps (cache_inv c) (createFileBuffer c' E key)"
  by (auto simp: keeps_def createFileBuffer_def Let_def split: prod.split sum.split elim!: cache_inv_fields)

lemma keeps_cache_link [keeps_intros]: "keeps (cache_inv c) (createHardLink c' E tid key)"
  unfolding createHardLink_def Let_def
  by (intro keeps_intros keeps_get)
     (auto simp: monad_simps log_error_def link_file_def split: option.split elim!: cache_inv_fields)

lemma keeps_cache_saveRequest [keeps_intros]: "keeps (cache_inv c) (saveRequest c' E tid r key)"
  unfolding saveRequest_def by (intro keeps_intros)

lemma keeps_cache_getKey [keeps_intros]: "keeps (cache_inv c) (getKey c' E tid r)"
  unfolding getKey_def Let_def by (intro keeps_intros)

lemma keeps_cache_waiting:
  assumes "1 \<le> unsigned_int n" "unsigned_int n \<le> fc_max_retries c"
  shows "keeps (cache_inv c) (insertWaiting E delay key n)"
  unfolding insertWaiting_def using assms by (intro keeps_intros cache_inv_waiting) simp_all

lemma keeps_cache_save [keeps_intros]:
  assumes "fc_max_retries c < 2 ^ 32"
  shows "keeps (cache_inv c) (cache_save c E tid r delay)"
proof -
  have n: "unsigned_int (signed_int (k + 1)) = k + 1" if "\<not> fc_max_retries c \<le> k" for k
    using that assms by (intro unsigned_signed) simp
  show ?thesis
    unfolding cache_save_def save_failed_def Let_def using n
    by (intro keeps_intros keeps_cache_waiting) (auto simp: unsigned_int_def)
qed

lemma keeps_cache_destroy [keeps_intros]:
  "fc_max_retries c < 2 ^ 32 \<Longrightarrow> keeps (cache_inv c) (Request_destroy c E tid r)"
  unfolding Request_destroy_def saveToCache_def Let_def by (intro keeps_intros)

lemma keeps_cache_create [keeps_intros]: "keeps (cache_inv c) (rc_create_op c E tid)"
  unfolding rc_create_op_def by (intro keeps_intros cache_inv_active) (simp_all add: unsigned_int_def)

lemma keeps_cache_read:
  assumes "fc_max_retries c < 2 ^ 32" "unsigned_int (dt_retries task) \<le> fc_max_retries c"
  shows "keeps (cache_inv c) (read_request c E tid rc what task)"
  unfolding read_request_def round_failed_def saveToCache_def
  by (intro keeps_intros cache_inv_active assms)
     (use assms in \<open>auto intro!: keeps_intros split: sum.split\<close>)

lemma keeps_cache_round [keeps_intros]:
  assumes "fc_max_retries c < 2 ^ 32"
  shows "keeps (cache_inv c) (handle_round c E tid rc what)"
  unfolding handle_round_def
proof (rule keeps_get)
  fix s
  assume inv: "cache_inv c s"
  show "cache_inv c (snd ((if fc_stopped s then returnS RoundStops
     else (case fc_waiting s of [] \<Rightarrow> returnS RoundWaits
     | (due, task) # rest \<Rightarrow> bindS (time_now E) (\<lambda>now.
         if due > now then returnS RoundWaits
         else bindS (modifyS (\<lambda>s. s\<lparr>fc_waiting := rest\<rparr>)) (\<lambda>_. read_request c E tid rc what task)))) s))"
  proof (cases "fc_waiting s")
    case Nil
    then show ?thesis using inv by (simp add: monad_simps)
  next
    case (Cons e rest)
    obtain due task where e: "e = (due, task)" by (cases e)
    have "cache_inv c (s\<lparr>fc_reads := Suc (fc_reads s)\<rparr>)" "cache_inv c (s\<lparr>fc_reads := Suc (fc_reads s), fc_waiting := rest\<rparr>)"
      using inv Cons by (auto simp: cache_inv_def)
    moreover have "unsigned_int (dt_retries task) \<le> fc_max_retries c"
      using inv Cons by (simp add: cache_inv_def e)
    ultimately show ?thesis
      using inv Cons e keepsD[OF keeps_cache_read[OF assms], of task] by (simp add: monad_simps time_now_def)
  qed
qed

text \<open>Calls of the cache, one after the other, by any thread and for any request.\<close>

datatype cache_event = CacheCreate | CacheDestroy request_impl | CacheRound | CacheStop

inductive cache_step ::
  "file_cache \<Rightarrow> cache_env \<Rightarrow> request_cache \<Rightarrow> (error \<Rightarrow> string) \<Rightarrow> cache_state \<Rightarrow> cache_event \<Rightarrow> cache_state \<Rightarrow> bool"
  for c E rc what where
  step_create: "rc_create_op c E tid s = (res, s') \<Longrightarrow> cache_step c E rc what s CacheCreate s'"
| step_destroy: "Request_destroy c E tid r s = (res, s') \<Longrightarrow> cache_step c E rc what s (CacheDestroy r) s'"
| step_round: "handle_round c E tid rc what s = (res, s') \<Longrightarrow> cache_step c E rc what s CacheRound s'"
| step_stop: "cache_stop s = (res, s') \<Longrightarrow> cache_step c E rc what s CacheStop s'"

inductive_cases cache_stepE: "cache_step c E rc what s e s'"

lemma cache_step_inv:
  assumes "fc_max_retries c < 2 ^ 32" "cache_inv c s" "cache_step c E rc what s e s'"
  shows "cache_inv c s'"
proof -
  have k: "cache_inv c s'" if "keeps (cache_inv c) m" "m s = (res, s')" for m :: "(cache_state, 'b) st" and res
    using keepsD[OF that(1) assms(2)] that(2) by simp
  show ?thesis
    using assms(3)
    by cases (erule k[OF keeps_cache_create] k[OF keeps_cache_destroy[OF assms(1)]] k[OF keeps_cache_round[OF assms(1)]]
      k[OF keeps_cache_simple(6)])+
qed

definition cache_empty :: "cache_state \<Rightarrow> bool" where
  "cache_empty s \<longleftrightarrow> fc_waiting s = [] \<and> fc_active s = []"

interpretation cache: invariant_system cache_empty "cache_step c E rc what" "\<lambda>s. fc_max_retries c < 2 ^ 32 \<longrightarrow> cache_inv c s"
proof
  show "cache_empty s \<Longrightarrow> fc_max_retries c < 2 ^ 32 \<longrightarrow> cache_inv c s" for s
    by (simp add: cache_empty_def cache_inv_def)
  show "fc_max_retries c < 2 ^ 32 \<longrightarrow> cache_inv c s \<Longrightarrow> cache_step c E rc what s e s' \<Longrightarrow> fc_max_retries c < 2 ^ 32 \<longrightarrow> cache_inv c s'"
    for s e s' by (auto intro: cache_step_inv)
qed

section \<open>Keys are not used twice\<close>

text \<open>The text of which a key is the digest.\<close>

definition key_text :: "nat \<times> int \<times> nat \<Rightarrow> string" where
  "key_text = (\<lambda>(tid, now, n). le_bytes 4 n @ '':'' @ le_bytes 8 (nat (now mod 2 ^ 64)) @ '':'' @ le_bytes 8 tid)"

definition stamp_ok :: "nat \<times> int \<times> nat \<Rightarrow> bool" where
  "stamp_ok = (\<lambda>(tid, now, n). tid < 2 ^ 64 \<and> 0 \<le> now \<and> now < 2 ^ 63 \<and> n < 2 ^ 31)"

lemma le_bytes_value: "bytes_int (le_bytes n v) = v mod 256 ^ n"
  unfolding le_bytes_def by (rule bytes_int_digits)

lemma key_text_inj: "inj_on key_text {x. stamp_ok x}"
proof (rule inj_onI)
  fix x y
  assume xy: "x \<in> {x. stamp_ok x}" "y \<in> {x. stamp_ok x}" "key_text x = key_text y"
  obtain t l i t' l' i' where x: "x = (t, l, i)" and y: "y = (t', l', i')" by (cases x, cases y)
  have ok: "stamp_ok (t, l, i)" "stamp_ok (t', l', i')" and eq: "key_text (t, l, i) = key_text (t', l', i')"
    using xy by (simp_all add: x y)
  have "le_bytes 4 i = le_bytes 4 i'" "le_bytes 8 (nat (l mod 2 ^ 64)) = le_bytes 8 (nat (l' mod 2 ^ 64))" "le_bytes 8 t = le_bytes 8 t'"
    using eq by (auto simp: key_text_def le_bytes_def)
  then have "i mod 256 ^ 4 = i' mod 256 ^ 4" "nat (l mod 2 ^ 64) mod 256 ^ 8 = nat (l' mod 2 ^ 64) mod 256 ^ 8" "t mod 256 ^ 8 = t' mod 256 ^ 8"
    by (metis le_bytes_value)+
  moreover have "nat (l mod 2 ^ 64) = nat l" "nat (l' mod 2 ^ 64) = nat l'" "nat l < 256 ^ 8" "nat l' < 256 ^ 8"
    using ok by (auto simp: stamp_ok_def)
  ultimately show "x = y"
    using ok by (auto simp: stamp_ok_def x y)
qed

text \<open>
  The counters of the threads are behind every stamp that has been used, and the clock does not go back.
\<close>

definition stamps_inv :: "cache_env \<Rightarrow> (nat \<times> int \<times> nat) set \<Rightarrow> cache_state \<Rightarrow> bool" where
  "stamps_inv E T s \<longleftrightarrow>
     (\<forall>(t, l, i)\<in>T. \<exists>k. fc_holder s t = Some k \<and> (l < ki_last k \<or> l = ki_last k \<and> i \<le> ki_id k)) \<and>
     (\<forall>t k. fc_holder s t = Some k \<longrightarrow> ki_id k < 2 ^ 31 \<and> (\<forall>n \<ge> fc_reads s. ki_last k \<le> ce_clock E n))"

definition clock_ok :: "cache_env \<Rightarrow> bool" where
  "clock_ok E \<longleftrightarrow> mono (ce_clock E) \<and> (\<forall>n. 0 \<le> ce_clock E n \<and> ce_clock E n < 2 ^ 63)"

lemma KeyId_get_stamp:
  assumes "KeyId_get md5 tid now k = Inr (key, k')" "ki_last k \<le> now" "ki_id k < 2 ^ 31"
  shows "key = md5 (key_text (tid, ki_last k', ki_id k')) \<and> ki_last k' = now \<and> ki_id k' < 2 ^ 31 \<and>
    (ki_last k < now \<or> ki_last k = now \<and> ki_id k < ki_id k')"
  using assms by (auto simp: KeyId_get_def key_text_def split: if_splits)

lemma generateUniqueKey_stamp:
  assumes "generateUniqueKey E tid s = (Inr key, s')" "stamps_inv E T s" "clock_ok E" "tid < 2 ^ 64"
  obtains x where "key = ce_md5 E (key_text x)" "x \<notin> T" "stamp_ok x" "stamps_inv E (insert x T) s'"
proof -
  let ?C = "ce_clock E"
  have mono: "m \<le> n \<Longrightarrow> ?C m \<le> ?C n" and range: "0 \<le> ?C n" "?C n < 2 ^ 63" for m n
    using assms(3) by (auto simp: clock_ok_def monoD)
  obtain k n k' where k: "fc_reads s \<le> n" "KeyId_get (ce_md5 E) tid (?C n) k = Inr (key, k')"
    "fc_reads s' = Suc n" "fc_holder s' = (fc_holder s)(tid \<mapsto> k')"
    "ki_last k \<le> ?C n" "ki_id k < 2 ^ 31" "fc_holder s tid = None \<or> fc_holder s tid = Some k"
  proof (cases "fc_holder s tid")
    case None
    then have "\<exists>k'. KeyId_get (ce_md5 E) tid (?C (Suc (fc_reads s))) (KeyId_new (?C (fc_reads s))) = Inr (key, k') \<and>
      fc_reads s' = Suc (Suc (fc_reads s)) \<and> fc_holder s' = (fc_holder s)(tid \<mapsto> k')"
      using assms(1) by (auto simp: gen_key_defs split: sum.splits prod.splits)
    then show ?thesis
      using None mono[of "fc_reads s" "Suc (fc_reads s)"] that[of "Suc (fc_reads s)" "KeyId_new (?C (fc_reads s))"]
      by (auto simp: KeyId_new_def)
  next
    case (Some k)
    then have "\<exists>k'. KeyId_get (ce_md5 E) tid (?C (fc_reads s)) k = Inr (key, k') \<and>
      fc_reads s' = Suc (fc_reads s) \<and> fc_holder s' = (fc_holder s)(tid \<mapsto> k')"
      using assms(1) by (auto simp: gen_key_defs split: sum.splits prod.splits)
    then show ?thesis
      using Some assms(2) that[of "fc_reads s" k] by (auto simp: stamps_inv_def)
  qed
  note g = KeyId_get_stamp[OF k(2,5,6)]
  show ?thesis
  proof
    show "key = ce_md5 E (key_text (tid, ki_last k', ki_id k'))" using g by simp
    show "stamp_ok (tid, ki_last k', ki_id k')" using g assms(4) range by (simp add: stamp_ok_def)
    show "(tid, ki_last k', ki_id k') \<notin> T"
      using g k(7) assms(2) by (fastforce simp: stamps_inv_def)
    have holder: "fc_holder s' t = (if t = tid then Some k' else fc_holder s t)" for t
      by (simp add: k(4))
    show "stamps_inv E (insert (tid, ki_last k', ki_id k') T) s'"
      unfolding stamps_inv_def
    proof (intro conjI ballI allI impI)
      fix x
      assume "x \<in> insert (tid, ki_last k', ki_id k') T"
      then consider "x = (tid, ki_last k', ki_id k')" | "x \<in> T" by blast
      then show "case x of (t, l, i) \<Rightarrow> \<exists>k. fc_holder s' t = Some k \<and> (l < ki_last k \<or> l = ki_last k \<and> i \<le> ki_id k)"
      proof cases
        case 1
        then show ?thesis using holder by simp
      next
        case 2
        obtain t l i where x: "x = (t, l, i)" by (cases x)
        obtain kt where kt: "fc_holder s t = Some kt" "l < ki_last kt \<or> l = ki_last kt \<and> i \<le> ki_id kt"
          using 2 assms(2) by (auto simp: stamps_inv_def x)
        show ?thesis
          using kt g k(7) by (cases "t = tid") (auto simp: holder x)
      qed
    next
      fix t kt
      assume kt: "fc_holder s' t = Some kt"
      show "ki_id kt < 2 ^ 31" using kt g assms(2) by (auto simp: holder stamps_inv_def split: if_splits)
      fix m
      assume m: "fc_reads s' \<le> m"
      show "ki_last kt \<le> ?C m"
      proof (cases "t = tid")
        case True
        then show ?thesis using kt g m k(3) mono[of n m] by (simp add: holder)
      next
        case False
        then show ?thesis using kt assms(2) m k(1,3) by (simp add: holder stamps_inv_def)
      qed
    qed
  qed
qed

text \<open>Keys made one after the other, by the threads of a list.\<close>

fun make_keys :: "cache_env \<Rightarrow> nat list \<Rightarrow> (cache_state, string list) st" where
  "make_keys E [] = returnS []"
| "make_keys E (tid # tids) = bindS (generateUniqueKey E tid) (\<lambda>key. bindS (make_keys E tids) (\<lambda>keys. returnS (key # keys)))"

lemma make_keys_stamps:
  assumes "make_keys E tids s = (Inr ks, s')" "stamps_inv E T s" "clock_ok E" "list_all (\<lambda>t. t < 2 ^ 64) tids"
  shows "\<exists>xs. ks = map (ce_md5 E \<circ> key_text) xs \<and> distinct xs \<and> set xs \<inter> T = {} \<and> list_all stamp_ok xs"
  using assms
proof (induction tids arbitrary: ks s T)
  case Nil
  then show ?case by (simp add: monad_simps)
next
  case (Cons tid tids)
  obtain key s1 ks1 where k: "generateUniqueKey E tid s = (Inr key, s1)" "make_keys E tids s1 = (Inr ks1, s')" "ks = key # ks1"
    using Cons.prems(1) by (auto simp: returnS_def elim!: bindS_InrE)
  obtain x where x: "key = ce_md5 E (key_text x)" "x \<notin> T" "stamp_ok x" "stamps_inv E (insert x T) s1"
    using generateUniqueKey_stamp[OF k(1) Cons.prems(2,3)] Cons.prems(4) by auto
  have "list_all (\<lambda>t. t < 2 ^ 64) tids" using Cons.prems(4) by simp
  from Cons.IH[OF k(2) x(4) Cons.prems(3) this] obtain xs where "ks1 = map (ce_md5 E \<circ> key_text) xs" "distinct xs"
    "set xs \<inter> insert x T = {}" "list_all stamp_ok xs" by blast
  then show ?case
    using x k(3) by (intro exI[of _ "x # xs"]) auto
qed

section \<open>Properties\<close>

text \<open>
  C13. A request that is not in the cache yet and asks to be tried again is written to the cache directory and
  queued; when its time has come, and no other request is due before it, the thread of the cache hands a request
  to the server that is the same: headers, cookies, variables, arguments, the bytes of the body and the uploaded
  files. Its body is in the file of the cache, and it counts as tried once.
\<close>

theorem saved_request_served:
  assumes "fresh_keys c E tid s k1 k2 s2" "storable (fc_heap s) r" "\<not> in_cache_dir c (body_filename (fc_heap s) r)"
    and "syscalls_succeed (ce_sys E (fc_cache_dir c @ k1))" "syscalls_succeed (ce_sys E (fc_cache_dir c @ k2))"
    and "delay \<noteq> 0" "0 < fc_max_retries c" "\<not> fc_stopped s" "sm_sorted (fc_active s)" "sm_find (fc_active s) k2 = None"
    and "\<forall>e\<in>set (fc_waiting s). delay + ce_clock E (fc_reads s2) < fst e"
    and "delay + ce_clock E (fc_reads s2) \<le> ce_clock E (Suc (fc_reads s2))"
  shows "\<exists>s' s'' r'. cache_save c E tid r delay s = (Inr (), s') \<and>
    handle_round c E tid' rc what s' = (Inr (RoundServes r'), s'') \<and> same_request (fc_heap s'') r' (fc_heap s) r \<and>
    body_filename (fc_heap s'') r' = fc_cache_dir c @ k2 \<and> sm_find (fc_active s'') k2 = Some 1 \<and> fc_waiting s'' = fc_waiting s"
proof -
  let ?task = "\<lparr>dt_key = k2, dt_retries = 1\<rparr>" and ?img = "request_image (fc_heap s) r"
  obtain s' where s': "cache_save c E tid r delay s = (Inr (), s')" "stores c s' k2 ?img"
    "fc_waiting s' = (delay + ce_clock E (fc_reads s2), ?task) # fc_waiting s" "fc_stopped s' = fc_stopped s"
    "fc_reads s' = Suc (fc_reads s2)" "fc_active s' = fc_active s"
    using cache_save_stores[OF assms(1-4,6,7)] mm_insert_first[OF assms(11)] by metis
  let ?t = "s'\<lparr>fc_reads := Suc (fc_reads s'), fc_waiting := fc_waiting s\<rparr>"
  have due: "handle_round c E tid' rc what s' = read_request c E tid' rc what ?task ?t"
    using s' assms(8,12) by (intro handle_round_due) simp_all
  have t: "stores c ?t (dt_key ?task) ?img" using s'(2) stores_cong[of ?t s' c] by simp
  have sys: "syscalls_succeed (ce_sys E (fc_cache_dir c @ dt_key ?task))" using assms(5) by simp
  from read_request_serves[OF t assms(2) sys, of tid' rc what] obtain s'' r'
    where "read_request c E tid' rc what ?task ?t = (Inr (RoundServes r'), s'')"
    "same_request (fc_heap s'') r' (fc_heap s) r" "body_filename (fc_heap s'') r' = fc_cache_dir c @ dt_key ?task"
    "fc_active s'' = sm_insert (fc_active ?t) (dt_key ?task) (dt_retries ?task)" "fc_waiting s'' = fc_waiting ?t" by blast
  then show ?thesis
    using s'(1,6) due assms(9,10) by (auto simp: sm_find_insert)
qed

text \<open>An environment with a digest that is the text itself, and a clock that ticks at every reading up to 100.\<close>

definition example_sys :: syscalls where
  "example_sys = \<lparr>mmap_ok = \<lambda>n p. True, munmap_ok = \<lambda>n. True, ftruncate_ok = \<lambda>n. True, open_ok = True, fstat_size = Some 0,
     sys_page_size = 4096, sys_error = []\<rparr>"

definition example_env :: cache_env where
  "example_env = \<lparr>ce_md5 = \<lambda>x. x, ce_clock = \<lambda>n. min (int n) 100, ce_sys = \<lambda>p. example_sys, ce_link_ok = \<lambda>p q. True,
     ce_strerror = []\<rparr>"

definition example_cache :: file_cache where
  "example_cache = \<lparr>fc_cache_dir = ''/c/'', fc_window = 4096, fc_max_retries = 2, fc_min_post_size = 10\<rparr>"

definition example_state :: cache_state where
  "example_state = \<lparr>fc_heap = [StringBuffer ''<file>''], fc_disk = (\<lambda>p. None), fc_holder = (\<lambda>t. None), fc_reads = 0, fc_waiting = [],
     fc_active = [], fc_stopped = False, fc_log = []\<rparr>"

lemma example_sys_succeed: "syscalls_succeed (ce_sys example_env p)"
  by (simp add: syscalls_succeed_def example_env_def example_sys_def)

lemma example_storable: "storable (fc_heap example_state) upload_request"
proof -
  have c: "content [StringBuffer ''<file>''] (rq_body upload_request) = ''<file>''"
    by (simp add: content_def heap_bytes_def upload_request_def between_def)
  have "rq_wf upload_request"
    by (simp add: rq_wf_def upload_request_def RequestImpl_new_def rq_reset_def hm_distinct_def sm_sorted_def cset_sorted_def)
  moreover have "db_ok [StringBuffer ''<file>''] (rq_body upload_request)"
    by (simp add: upload_request_def db_ok_def impl_ok_def sb_ok_def two64_def)
  moreover have "\<forall>x\<in>set (rq_files upload_request). file_ok (rq_body upload_request) (snd x)"
    by (simp add: upload_request_def file_ok_def)
  moreover have "length (request_image [StringBuffer ''<file>''] upload_request) \<le> string_max_size"
    unfolding length_request_image c
    by (simp add: upload_request_def RequestImpl_new_def rq_reset_def enc_pairs_def enc_pair_def enc_files_def
        enc_file_def string_max_size_def)
  ultimately show ?thesis by (simp add: storable_def example_state_def)
qed

lemma example_keys:
  "generateUniqueKey example_env 7 example_state = (Inr (key_text (7, 1, 0)),
     example_state\<lparr>fc_reads := 2, fc_holder := [7 \<mapsto> \<lparr>ki_id = 0, ki_last = 1\<rparr>]\<rparr>)"
  "generateUniqueKey example_env 7 (example_state\<lparr>fc_reads := 2, fc_holder := [7 \<mapsto> \<lparr>ki_id = 0, ki_last = 1\<rparr>]\<rparr>) =
     (Inr (key_text (7, 2, 0)), example_state\<lparr>fc_reads := 3, fc_holder := [7 \<mapsto> \<lparr>ki_id = 0, ki_last = 2\<rparr>]\<rparr>)"
  by (simp_all add: gen_key_defs example_env_def example_state_def KeyId_get_def KeyId_new_def key_text_def)

lemma example_key_texts: "key_text (7, 1, 0) \<noteq> key_text (7, 2, 0)" "key_text x \<noteq> []"
proof -
  show "key_text (7, 1, 0) \<noteq> key_text (7, 2, 0)"
    using inj_onD[OF key_text_inj, of "(7, 1, 0)" "(7, 2, 0)"] by (auto simp: stamp_ok_def)
  show "key_text x \<noteq> []" by (auto simp: key_text_def split: prod.splits)
qed

lemma example_fresh:
  "fresh_keys example_cache example_env 7 example_state (key_text (7, 1, 0)) (key_text (7, 2, 0))
     (example_state\<lparr>fc_reads := 3, fc_holder := [7 \<mapsto> \<lparr>ki_id = 0, ki_last = 2\<rparr>]\<rparr>)"
  unfolding fresh_keys_def using example_keys example_key_texts
  by (auto simp: example_state_def sm_find_def example_env_def)

theorem saved_request_served_witness:
  "\<exists>s' s'' r'. cache_save example_cache example_env 7 upload_request 1 example_state = (Inr (), s') \<and>
    handle_round example_cache example_env 8 \<lparr>rc_minPostSize = 10, rc_create = \<lambda>h. (h, db_nil)\<rparr> (\<lambda>e. []) s' = (Inr (RoundServes r'), s'') \<and>
    content (fc_heap s'') (rq_body r') = ''<file>''"
proof -
  have "content (fc_heap example_state) (rq_body upload_request) = ''<file>''"
    by (simp add: content_def heap_bytes_def upload_request_def between_def example_state_def)
  moreover have "\<not> in_cache_dir example_cache (body_filename (fc_heap example_state) upload_request)"
    by (simp add: in_cache_dir_def body_filename_def upload_request_def example_state_def)
  ultimately show ?thesis
    using saved_request_served[OF example_fresh example_storable _ example_sys_succeed example_sys_succeed, of 1 8
        "\<lparr>rc_minPostSize = 10, rc_create = \<lambda>h. (h, db_nil)\<rparr>" "\<lambda>e. []"]
    by (auto simp: example_cache_def example_state_def example_env_def sm_sorted_def sm_find_def same_request_def)
qed

text \<open>
  C14. When a request that the cache has handed out is destroyed, it is counted: if it asks to be tried again and has
  been tried fewer times than allowed, it is queued under a new name for the same bytes, with its count one
  higher; otherwise nothing is queued. In every case its old name is gone from the directory and from the list
  of active requests, so that a request is handed out at most \<^verbatim>\<open>max-retries\<close> times.
\<close>

theorem retries_counted:
  assumes "body_filename (fc_heap s) r = fc_cache_dir c @ k" "k \<noteq> []" "stores c s k img" "sm_find (fc_active s) k = Some n"
    and "rq_cache r \<noteq> None" "Request_destroy c E tid r s = (res, s')"
    and "generateUniqueKey E tid s = (Inr k2, s2)" "k2 \<noteq> []" "k2 \<noteq> k" "fc_disk s (fc_cache_dir c @ k2) = None"
      "ce_link_ok E (fc_cache_dir c @ k) (fc_cache_dir c @ k2)"
  shows "sm_find (fc_active s') k = None \<and> fc_disk s' (fc_cache_dir c @ k) = None \<and>
    (if rq_delay r \<noteq> 0 \<and> unsigned_int n < fc_max_retries c
     then stores c s' k2 img \<and> fc_waiting s' = mm_insert (fc_waiting s) (rq_delay r + ce_clock E (fc_reads s2))
       \<lparr>dt_key = k2, dt_retries = signed_int (unsigned_int n + 1)\<rparr>
     else fc_waiting s' = fc_waiting s \<and> fc_disk s' = (fc_disk s)(fc_cache_dir c @ k := None))"
proof (cases "rq_delay r \<noteq> 0 \<and> unsigned_int n < fc_max_retries c")
  case True
  then show ?thesis
    using destroy_again[OF assms(1-5) _ _ assms(7-11,6)] by simp
next
  case False
  then show ?thesis
    using destroy_last[OF assms(1,2,4,5) _ assms(6)] by auto
qed

text \<open>A state in which the request of a file has been handed out for the first time.\<close>

definition served_state :: cache_state where
  "served_state = example_state\<lparr>fc_heap := [FileBuffer \<lparr>fb_name = ''/c/k'', fb_bytes = ''img'', fb_window = 4096\<rparr>],
     fc_disk := [''/c/k'' \<mapsto> 0], fc_active := [(''k'', 1)]\<rparr>"

definition served_request :: request_impl where
  "served_request = (RequestImpl_new (Some \<lparr>rc_minPostSize = 10, rc_create = \<lambda>h. (h, db_nil)\<rparr>))\<lparr>rq_delay := 5,
     rq_body := \<lparr>db_data = Some 0, db_begin = 0, db_end = 3\<rparr>\<rparr>"

lemma served_key:
  "generateUniqueKey example_env 7 served_state = (Inr (key_text (7, 1, 0)),
     served_state\<lparr>fc_reads := 2, fc_holder := [7 \<mapsto> \<lparr>ki_id = 0, ki_last = 1\<rparr>]\<rparr>)"
  by (simp add: gen_key_defs example_env_def served_state_def example_state_def KeyId_get_def KeyId_new_def key_text_def)

theorem retries_counted_witness:
  "stores example_cache (snd (Request_destroy example_cache example_env 7 served_request served_state)) (key_text (7, 1, 0)) ''img''"
proof -
  obtain res s' where d: "Request_destroy example_cache example_env 7 served_request served_state = (res, s')"
    by (cases "Request_destroy example_cache example_env 7 served_request served_state")
  have k: "key_text (7, 1, 0) \<noteq> ''k''" by (auto simp: key_text_def le_bytes_def upt_conv_Cons)
  have "stores example_cache s' (key_text (7, 1, 0)) ''img''"
    using retries_counted[of served_state served_request example_cache "''k''" "''img''" 1 example_env 7 res s', OF _ _ _ _ _ d served_key] k
      example_key_texts(2)[of "(7, 1, 0)"]
    by (simp add: served_state_def served_request_def example_state_def body_filename_def example_cache_def stores_def
        disk_bytes_def sm_find_def RequestImpl_new_def rq_reset_def unsigned_int_def example_env_def)
  then show ?thesis by (simp add: d)
qed

text \<open>
  C26. In every state that the cache reaches, whatever requests are destroyed and whenever the thread runs, the
  queue is ordered by the time at which a request is due, and every queued request has been counted at least
  once and at most \<^verbatim>\<open>max-retries\<close> times, as has every active one.
\<close>

theorem cache_queue_bounds:
  assumes "cache_empty s0" "run (cache_step c E rc what) s0 es s" "fc_max_retries c < 2 ^ 32"
  shows "sorted (map fst (fc_waiting s)) \<and>
    (\<forall>e\<in>set (fc_waiting s). 1 \<le> unsigned_int (dt_retries (snd e)) \<and> unsigned_int (dt_retries (snd e)) \<le> fc_max_retries c) \<and>
    (\<forall>e\<in>set (fc_active s). unsigned_int (snd e) \<le> fc_max_retries c)"
  using cache.reached_inv[OF assms(1,2)] assms(3) by (simp add: cache_inv_def)

theorem cache_queue_bounds_witness:
  "sorted (map fst (fc_waiting (snd (Request_destroy example_cache example_env 7 (upload_request\<lparr>rq_delay := 1\<rparr>) example_state))))"
proof -
  let ?r = "upload_request\<lparr>rq_delay := 1\<rparr>"
  have e: "cache_empty example_state" by (simp add: cache_empty_def example_state_def)
  have st: "cache_step example_cache example_env \<lparr>rc_minPostSize = 10, rc_create = \<lambda>h. (h, db_nil)\<rparr> (\<lambda>e. []) example_state
      (CacheDestroy ?r) (snd (Request_destroy example_cache example_env 7 ?r example_state))"
    by (rule step_destroy[of _ _ 7 _ _ "fst (Request_destroy example_cache example_env 7 ?r example_state)"]) simp
  have "fc_max_retries example_cache < 2 ^ 32" by (simp add: example_cache_def)
  from cache_queue_bounds[OF e run_single[of "cache_step _ _ _ _", OF st] this] show ?thesis by simp
qed

text \<open>
  No key is made twice, by whichever threads and in whatever order, as long as the clock does not go back and
  the digest has no collision on the texts of the keys.
\<close>

theorem keys_distinct:
  assumes "make_keys E tids s = (Inr ks, s')" "fc_holder s = (\<lambda>t. None)" "clock_ok E"
    and "list_all (\<lambda>t. t < 2 ^ 64) tids" "inj_on (ce_md5 E) (key_text ` {x. stamp_ok x})"
  shows "distinct ks \<and> length ks = length tids"
proof -
  have "stamps_inv E {} s" using assms(2) by (simp add: stamps_inv_def)
  then obtain xs where xs: "ks = map (ce_md5 E \<circ> key_text) xs" "distinct xs" "list_all stamp_ok xs"
    using make_keys_stamps[OF assms(1) _ assms(3,4)] by blast
  have "inj_on (ce_md5 E \<circ> key_text) (set xs)"
    using comp_inj_on[OF key_text_inj assms(5)] xs(3) by (auto simp: list_all_iff elim!: inj_on_subset)
  moreover have "length ks = length tids" using assms(1)
    by (induction tids arbitrary: ks s) (auto simp: returnS_def elim!: bindS_InrE)
  ultimately show ?thesis using xs by (simp add: distinct_map)
qed

theorem keys_distinct_witness:
  "distinct [key_text (7, 1, 0), key_text (7, 2, 0)]"
proof -
  have m: "make_keys example_env [7, 7] example_state =
      (Inr [key_text (7, 1, 0), key_text (7, 2, 0)], example_state\<lparr>fc_reads := 3, fc_holder := [7 \<mapsto> \<lparr>ki_id = 0, ki_last = 2\<rparr>]\<rparr>)"
    using example_keys by (simp add: bindS_def returnS_def)
  have "clock_ok example_env"
    by (auto simp: clock_ok_def example_env_def mono_def)
  then show ?thesis
    using keys_distinct[OF m] by (simp add: example_state_def example_env_def)
qed

end
