(* ===== verification/Hash_Utils.thy ===== *)
theory Hash_Utils
  imports File_Cache
begin

text \<open>
  \<^verbatim>\<open>HashUtils::hexMD5\<close> (\<^verbatim>\<open>library/util.cpp\<close>). The digest itself is computed by OpenSSL and is a parameter, of which the
  code relies on the length of 16 bytes. Its text has two digits for every byte, so that two digests with the same
  text are the same digest, and the keys that the file cache makes from it are names of files of its directory.
\<close>

unbundle bit_operations_syntax

section \<open>Definitions\<close>

definition alpha :: string where
  "alpha = ''0123456789abcdef''"

text \<open>The two characters of a byte: \<^verbatim>\<open>(c & 0xf0) >> 4\<close> and \<^verbatim>\<open>c & 0xf\<close> as indices of \<open>alpha\<close>; the byte is unsigned.\<close>

definition hex_byte :: "char \<Rightarrow> string" where
  "hex_byte c = [alpha ! nat ((of_char c AND (0xF0 :: int)) div 16), alpha ! nat (of_char c AND (0xF :: int))]"

definition hexMD5 :: "(string \<Rightarrow> string) \<Rightarrow> string \<Rightarrow> nat \<Rightarrow> string" where
  "hexMD5 md5 key len = (let md5buffer = md5 (take len key) in
     fold (\<lambda>i md5digest. md5digest @ hex_byte (md5buffer ! i)) [0..<16] [])"

text \<open>What the documentation of OpenSSL says of \<^verbatim>\<open>MD5_Final\<close>: it stores 16 bytes.\<close>

definition digest_size :: "(string \<Rightarrow> string) \<Rightarrow> bool" where
  "digest_size md5 \<longleftrightarrow> (\<forall>s. length (md5 s) = 16)"

section \<open>The text of a digest\<close>

text \<open>The two indices are the quotient and the remainder of the byte by 16.\<close>

lemma nibbles: "(b AND (0xF0 :: int)) div 16 = (b div 16) mod 16" "b AND (0xF :: int) = b mod 16"
proof -
  have low: "a AND (0xF :: int) = a mod 16" for a
    using take_bit_eq_mask[of 4 a] by (simp add: mask_eq_exp_minus_1 take_bit_eq_mod)
  then show "b AND (0xF :: int) = b mod 16" .
  have "drop_bit 4 (b AND (0xF0 :: int)) = drop_bit 4 b AND 0xF" by (simp add: drop_bit_and drop_bit_eq_div[of _ "0xF0 :: int"])
  then show "(b AND (0xF0 :: int)) div 16 = (b div 16) mod 16" by (simp add: drop_bit_eq_div low)
qed

lemma hex_byte_nibbles:
  "hex_byte c = [alpha ! (of_char c div 16), alpha ! (of_char c mod 16)]" "of_char c div 16 < (16 :: nat)"
proof -
  have lt: "of_char c < (256 :: nat)" by (metis of_char_mod_256 mod_less_divisor zero_less_numeral)
  have i: "(of_char c :: int) = int (of_char c)" using of_nat_of_char[of c, where ?'a = int] by simp
  have "nat (of_char c div 16 mod 16) = of_char c div 16" "nat (of_char c mod 16) = of_char c mod 16"
    using lt less_mult_imp_div_less[of "of_char c" 16 16] unfolding i by (simp_all add: nat_div_distrib nat_mod_distrib)
  then show "hex_byte c = [alpha ! (of_char c div 16), alpha ! (of_char c mod 16)]" by (simp add: hex_byte_def nibbles)
  show "of_char c div 16 < (16 :: nat)" using lt by (intro less_mult_imp_div_less) simp
qed

lemma hex_byte_digits: "length (hex_byte c) = 2" "set (hex_byte c) \<subseteq> set alpha"
proof -
  show "length (hex_byte c) = 2" by (simp add: hex_byte_def)
  have "length alpha = 16" by (simp add: alpha_def)
  then show "set (hex_byte c) \<subseteq> set alpha" using hex_byte_nibbles(2) by (simp add: hex_byte_nibbles(1))
qed

lemma hex_byte_inj: "inj hex_byte"
proof (rule injI)
  fix c d
  assume eq: "hex_byte c = hex_byte d"
  have "length alpha = 16" "distinct alpha" by (simp_all add: alpha_def)
  then have "of_char c div 16 = (of_char d div 16 :: nat)" "of_char c mod 16 = (of_char d mod 16 :: nat)"
    using eq hex_byte_nibbles(2) by (simp_all add: hex_byte_nibbles(1) nth_eq_iff_index_eq)
  then have "of_char c = (of_char d :: nat)" by (metis div_mult_mod_eq)
  then show "c = d" by simp
qed

lemma fold_append: "fold (\<lambda>i acc. acc @ f i) xs acc = acc @ concat (map f xs)"
  by (induction xs arbitrary: acc) simp_all

lemma hexMD5_concat: "digest_size md5 \<Longrightarrow> hexMD5 md5 key len = concat (map hex_byte (md5 (take len key)))"
proof -
  assume "digest_size md5"
  then have "map (\<lambda>i. hex_byte (md5 (take len key) ! i)) [0..<16] = map hex_byte (md5 (take len key))"
    by (intro nth_equalityI) (simp_all add: digest_size_def)
  then show ?thesis by (simp add: hexMD5_def fold_append Let_def)
qed

lemma hex_text_inj: "concat (map hex_byte xs) = concat (map hex_byte ys) \<Longrightarrow> length xs = length ys \<Longrightarrow> xs = ys"
proof (induction xs arbitrary: ys)
  case (Cons x xs)
  obtain y ys' where y: "ys = y # ys'" using Cons.prems(2) by (cases ys) simp_all
  have "hex_byte x = hex_byte y" "concat (map hex_byte xs) = concat (map hex_byte ys')"
    using Cons.prems(1) hex_byte_digits(1) by (simp_all add: y append_eq_append_conv)
  then show ?case using Cons hex_byte_inj by (simp add: y inj_eq)
qed simp

lemma hexMD5_inj:
  assumes "digest_size md5"
  shows "hexMD5 md5 key len = hexMD5 md5 key' len' \<longleftrightarrow> md5 (take len key) = md5 (take len' key')"
  using hex_text_inj[of "md5 (take len key)" "md5 (take len' key')"] assms
  by (auto simp: hexMD5_concat digest_size_def)

lemma hexMD5_digits:
  assumes "digest_size md5"
  shows "length (hexMD5 md5 key len) = 32" "set (hexMD5 md5 key len) \<subseteq> set alpha"
proof -
  have "length (md5 s) = 16" for s using assms by (simp add: digest_size_def)
  then show "length (hexMD5 md5 key len) = 32"
    by (simp add: hexMD5_concat[OF assms] length_concat comp_def hex_byte_digits(1) sum_list_triv)
  show "set (hexMD5 md5 key len) \<subseteq> set alpha"
    unfolding hexMD5_concat[OF assms] using hex_byte_digits(2) by fastforce
qed

section \<open>Properties\<close>

text \<open>
  C27. The names of the files that the cache makes, by whichever threads and in whatever order, with a digest of 16
  bytes and a clock that does not go back: every name has 32 hexadecimal digits, it is made from a text that is used for
  no other name, and a name is used twice exactly when the digest has a collision on two of these texts.
\<close>

theorem cache_file_names:
  assumes "make_keys E tids s = (Inr ks, s')" "fc_holder s = (\<lambda>t. None)" "clock_ok E" "list_all (\<lambda>t. t < 2 ^ 64) tids"
    and "ce_md5 E = (\<lambda>key. hexMD5 md5 key (length key))" "digest_size md5"
  shows "list_all (\<lambda>k. length k = 32 \<and> set k \<subseteq> set alpha) ks \<and> length ks = length tids \<and>
    (\<exists>xs. distinct (map key_text xs) \<and> ks = map (\<lambda>x. hexMD5 md5 (key_text x) (length (key_text x))) xs \<and>
      (distinct ks \<longleftrightarrow> inj_on md5 (key_text ` set xs)))"
proof -
  have "stamps_inv E {} s" using assms(2) by (simp add: stamps_inv_def)
  then obtain xs where xs: "ks = map (ce_md5 E \<circ> key_text) xs" "distinct xs" "list_all stamp_ok xs"
    using make_keys_stamps[OF assms(1) _ assms(3,4)] by blast
  have "set xs \<subseteq> {x. stamp_ok x}" using xs(3) by (auto simp: list_all_iff)
  then have texts: "distinct (map key_text xs)" using xs(2) inj_on_subset[OF key_text_inj] by (simp add: distinct_map)
  have ks: "ks = map (\<lambda>x. hexMD5 md5 (key_text x) (length (key_text x))) xs" using xs(1) by (simp add: assms(5))
  have "distinct ks \<longleftrightarrow> distinct (map md5 (map key_text xs))"
    using texts by (auto simp: ks distinct_map inj_on_def hexMD5_inj[OF assms(6)])
  then have "distinct ks \<longleftrightarrow> inj_on md5 (key_text ` set xs)" using texts by (simp only: distinct_map set_map) simp
  moreover have "list_all (\<lambda>k. length k = 32 \<and> set k \<subseteq> set alpha) ks"
    using hexMD5_digits[OF assms(6)] by (auto simp: ks list_all_iff)
  moreover have "length ks = length tids" using assms(1)
    by (induction tids arbitrary: ks s) (auto simp: returnS_def elim!: bindS_InrE)
  ultimately show ?thesis using texts ks by blast
qed

text \<open>For an example, the first 16 bytes of the text in the place of the digest.\<close>

definition first_bytes :: "string \<Rightarrow> string" where
  "first_bytes key = take 16 (key @ replicate 16 NUL)"

definition hash_env :: cache_env where
  "hash_env = example_env\<lparr>ce_md5 := \<lambda>key. hexMD5 first_bytes key (length key)\<rparr>"

theorem cache_file_names_witness:
  "\<exists>ks s' xs. make_keys hash_env [7, 7] example_state = (Inr ks, s') \<and> distinct (map key_text xs) \<and> length xs = 2 \<and>
    ks = map (\<lambda>x. hexMD5 first_bytes (key_text x) (length (key_text x))) xs \<and> (distinct ks \<longleftrightarrow> inj_on first_bytes (key_text ` set xs))"
proof -
  obtain ks s' where m: "make_keys hash_env [7, 7] example_state = (Inr ks, s')"
    by (simp add: gen_key_defs hash_env_def example_env_def example_state_def KeyId_get_def KeyId_new_def)
  have e: "fc_holder example_state = (\<lambda>t. None)" "clock_ok hash_env" "list_all (\<lambda>t. t < 2 ^ 64) [7, 7 :: nat]"
    "ce_md5 hash_env = (\<lambda>key. hexMD5 first_bytes key (length key))" "digest_size first_bytes"
    by (auto simp: example_state_def clock_ok_def hash_env_def example_env_def mono_def digest_size_def first_bytes_def)
  have "length ks = 2" using cache_file_names[OF m e] by simp
  moreover obtain xs where xs: "distinct (map key_text xs)" "ks = map (\<lambda>x. hexMD5 first_bytes (key_text x) (length (key_text x))) xs"
    "distinct ks \<longleftrightarrow> inj_on first_bytes (key_text ` set xs)"
    using cache_file_names[OF m e] by (elim conjE exE)
  ultimately have "length xs = 2" by simp
  then show ?thesis using m xs by (intro exI[of _ ks] exI[of _ s'] exI[of _ xs] conjI)
qed

end
