(* ===== verification/Component_Set.thy ===== *)
theory Component_Set
  imports Containers Config_Xml
begin

text \<open>
  The modules and the components of the daemon (\<^verbatim>\<open>library/loader.cpp\<close>, \<^verbatim>\<open>library/componentset.cpp\<close>). The code of
  a component is outside of the library. What it does when it is loaded is a parameter: a program that may
  ask the set for other components, which loads these first, and that ends normally or with an exception
  (\<open>load_prog\<close>); a lookup that throws ends it with this exception, so that a component which catches the exception inside
  its \<^verbatim>\<open>onLoad\<close> and goes on is not represented. The dynamic linker (\<open>open_module\<close>) and the factories are parameters too.

  Loading is recursive through the components. The fuel is the number of components plus one: every nested
  load marks another component as being loaded, and asking for one that is marked is an exception, so that
  loading ends, whatever the components ask for (\<open>loading_ends\<close>). When it succeeds, every component has been
  loaded, once (\<open>loading_ends\<close>), and no component ever sees one that is not loaded (\<open>found_is_loaded\<close>).
\<close>

section \<open>Modules\<close>

type_synonym 'f factory_map = "(string, 'f) entries"

text \<open>\<open>open_module path\<close> is \<^verbatim>\<open>dlopen\<close>, \<^verbatim>\<open>dlsym\<close> and the call of \<^verbatim>\<open>getFactoryMap\<close>: an error text or the factories.\<close>

definition Loader_load ::
  "(string \<Rightarrow> string + 'f factory_map) \<Rightarrow> string \<Rightarrow> string \<Rightarrow> 'f factory_map \<Rightarrow> 'f factory_map result" where
  "Loader_load open_module nam path factories =
     (case open_module path of
        Inl err \<Rightarrow> Inl (RuntimeError err)
      | Inr m \<Rightarrow> Inr (fold (\<lambda>(n, f) fs. sm_insert fs (nam @ '':'' @ n) f) m factories))"

definition Loader_init :: "config \<Rightarrow> (string \<Rightarrow> string + 'f factory_map) \<Rightarrow> 'f factory_map result" where
  "Loader_init cfg open_module =
     bindE (cfg_subKeys cfg ''/fastcgi/modules/module'') (\<lambda>v.
       foldE (\<lambda>i factories.
         bindE (cfg_asString cfg (i @ ''/@name'')) (\<lambda>nam.
         bindE (cfg_asString cfg (i @ ''/@path'')) (\<lambda>path. Loader_load open_module nam path factories))) v [])"

definition findComponentFactory :: "'f factory_map \<Rightarrow> string \<Rightarrow> 'f option" where
  "findComponentFactory factories type = sm_find factories type"

section \<open>Components\<close>

datatype 'c load_prog = Loaded | Throws error | Finds string "'c option \<Rightarrow> 'c load_prog"

record 'c container =
  ct_component :: 'c
  ct_isLoadingStarted :: bool

record 'c component_set =
  cs_components :: "(string, 'c container) entries"
  cs_loadingStack :: "string list"

definition isComponentLoaded :: "'c component_set \<Rightarrow> string \<Rightarrow> bool" where
  "isComponentLoaded cs nam \<longleftrightarrow> nam \<in> set (cs_loadingStack cs)"

definition mark_loading :: "string \<Rightarrow> 'c component_set \<Rightarrow> 'c component_set" where
  "mark_loading nam cs = cs\<lparr>cs_components :=
     map (\<lambda>(n, c). if n = nam then (n, c\<lparr>ct_isLoadingStarted := True\<rparr>) else (n, c)) (cs_components cs)\<rparr>"

primrec run_load :: "(string \<Rightarrow> ('s, 'c option) st) \<Rightarrow> 'c load_prog \<Rightarrow> ('s, unit) st" where
  "run_load find_component Loaded = returnS ()"
| "run_load find_component (Throws e) = throwS e"
| "run_load find_component (Finds nam k) = bindS (find_component nam) (\<lambda>c. run_load find_component (k c))"

text \<open>The two \<^verbatim>\<open>catch\<close> clauses that turn an exception of a component into a \<^verbatim>\<open>runtime_error\<close>.\<close>

definition rethrown :: "(error \<Rightarrow> string) \<Rightarrow> error \<Rightarrow> error" where
  "rethrown what e =
     (if is_std_exception e then RuntimeError (what e)
      else if e = UnknownException then RuntimeError ''Unknown exception caught'' else e)"

definition find_or_load ::
  "(string \<Rightarrow> ('c component_set, unit) st) \<Rightarrow> string \<Rightarrow> ('c component_set, 'c option) st" where
  "find_or_load load nam = (\<lambda>cs. case sm_find (cs_components cs) nam of
     None \<Rightarrow> (Inr None, cs)
   | Some cont \<Rightarrow>
       if isComponentLoaded cs nam then (Inr (Some (ct_component cont)), cs)
       else bindS (load nam) (\<lambda>_. returnS (Some (ct_component cont))) cs)"

fun sendOnLoad ::
  "nat \<Rightarrow> (error \<Rightarrow> string) \<Rightarrow> ('c \<Rightarrow> 'c load_prog) \<Rightarrow> string \<Rightarrow> ('c component_set, unit) st" where
  "sendOnLoad 0 what onLoad nam = throwS Diverges"
| "sendOnLoad (Suc n) what onLoad nam = (\<lambda>cs.
     if isComponentLoaded cs nam then (Inr (), cs)
     else (case sm_find (cs_components cs) nam of
       None \<Rightarrow> (Inl UndefinedBehaviour, cs)
     | Some cont \<Rightarrow>
         if ct_isLoadingStarted cont then (Inl (RuntimeError ''Cyclic component dependence found''), cs)
         else (case run_load (find_or_load (sendOnLoad n what onLoad)) (onLoad (ct_component cont)) (mark_loading nam cs) of
           (Inl e, cs') \<Rightarrow> (Inl (rethrown what e), cs')
         | (Inr _, cs') \<Rightarrow> (Inr (), cs'\<lparr>cs_loadingStack := cs_loadingStack cs' @ [nam]\<rparr>))))"

abbreviation load_fuel :: "'c component_set \<Rightarrow> nat" where
  "load_fuel cs \<equiv> Suc (length (cs_components cs))"

definition ComponentSet_find ::
  "(error \<Rightarrow> string) \<Rightarrow> ('c \<Rightarrow> 'c load_prog) \<Rightarrow> string \<Rightarrow> ('c component_set, 'c option) st" where
  "ComponentSet_find what onLoad nam = (\<lambda>cs. find_or_load (sendOnLoad (load_fuel cs) what onLoad) nam cs)"

text \<open>\<open>find_factory\<close> is \<open>findComponentFactory\<close> of the loader; a factory makes a component from its path in the configuration.\<close>

definition ComponentSet_add ::
  "(error \<Rightarrow> string) \<Rightarrow> (string \<Rightarrow> (string \<Rightarrow> 'c result) option) \<Rightarrow> string \<Rightarrow> string \<Rightarrow> string \<Rightarrow>
   ('c component_set, unit) st" where
  "ComponentSet_add what find_factory nam type path = (\<lambda>cs.
     case find_factory type of
       None \<Rightarrow> (Inl (RuntimeError (''Cannot find component factory for type: '' @ type)), cs)
     | Some create \<Rightarrow> (case create path of
         Inl e \<Rightarrow> (Inl (rethrown what e), cs)
       | Inr c \<Rightarrow> (Inr (), cs\<lparr>cs_components :=
           sm_insert (cs_components cs) nam \<lparr>ct_component = c, ct_isLoadingStarted = False\<rparr>\<rparr>)))"

definition sendOnLoadToComponents ::
  "(error \<Rightarrow> string) \<Rightarrow> ('c \<Rightarrow> 'c load_prog) \<Rightarrow> ('c component_set, unit) st" where
  "sendOnLoadToComponents what onLoad = (\<lambda>cs.
     foreachS (\<lambda>i. sendOnLoad (load_fuel cs) what onLoad (fst i)) (cs_components cs) cs)"

definition ComponentSet_init ::
  "config \<Rightarrow> (error \<Rightarrow> string) \<Rightarrow> (string \<Rightarrow> (string \<Rightarrow> 'c result) option) \<Rightarrow> ('c \<Rightarrow> 'c load_prog) \<Rightarrow>
   ('c component_set, unit) st" where
  "ComponentSet_init cfg what find_factory onLoad =
     bindS (liftS (cfg_subKeys cfg ''/fastcgi/components/component'')) (\<lambda>v.
     bindS (foreachS (\<lambda>i.
       bindS (liftS (cfg_asString cfg (i @ ''/@name''))) (\<lambda>nam.
       bindS (liftS (cfg_asString cfg (i @ ''/@type''))) (\<lambda>type.
       ComponentSet_add what find_factory nam type i))) v) (\<lambda>_.
     sendOnLoadToComponents what onLoad))"

text \<open>The components in the order in which they are unloaded; an exception of one is printed and ignored.\<close>

definition sendOnUnloadToComponents :: "'c component_set \<Rightarrow> 'c option list" where
  "sendOnUnloadToComponents cs = map (\<lambda>n. map_option ct_component (sm_find (cs_components cs) n)) (rev (cs_loadingStack cs))"

section \<open>Loading\<close>

text \<open>
  What loading keeps: the components themselves, with the marks, and what the stack lists, in its order; every component on
  the stack is in the set and marked, and listed once.
\<close>

definition marked :: "'c component_set \<Rightarrow> string set" where
  "marked cs = {n. \<exists>c. sm_find (cs_components cs) n = Some c \<and> ct_isLoadingStarted c}"

definition names :: "'c component_set \<Rightarrow> string set" where
  "names cs = fst ` set (cs_components cs)"

definition cs_wf :: "'c component_set \<Rightarrow> bool" where
  "cs_wf cs \<longleftrightarrow> sm_sorted (cs_components cs) \<and> distinct (cs_loadingStack cs) \<and> set (cs_loadingStack cs) \<subseteq> marked cs"

definition extends :: "'c component_set \<Rightarrow> 'c component_set \<Rightarrow> bool" where
  "extends cs cs' \<longleftrightarrow> cs_wf cs' \<and> map fst (cs_components cs') = map fst (cs_components cs) \<and> marked cs \<subseteq> marked cs' \<and>
     (\<exists>ns. cs_loadingStack cs' = cs_loadingStack cs @ ns \<and> set ns \<inter> marked cs = {})"

lemma extends_refl: "cs_wf cs \<Longrightarrow> extends cs cs"
  by (simp add: extends_def)

lemma extends_trans:
  assumes "extends a b" "extends b c"
  shows "extends a c"
proof -
  obtain ms ns where "cs_loadingStack b = cs_loadingStack a @ ms" "set ms \<inter> marked a = {}"
    "cs_loadingStack c = cs_loadingStack b @ ns" "set ns \<inter> marked b = {}"
    using assms by (auto simp: extends_def)
  then have "\<exists>ks. cs_loadingStack c = cs_loadingStack a @ ks \<and> set ks \<inter> marked a = {}"
    using assms by (intro exI[of _ "ms @ ns"]) (auto simp: extends_def)
  then show ?thesis using assms by (auto simp: extends_def)
qed

lemma extends_wf: "extends a b \<Longrightarrow> cs_wf b"
  by (simp add: extends_def)

lemma extends_names: "extends a b \<Longrightarrow> names b = names a"
  unfolding extends_def names_def by (metis list.set_map)

lemma find_names: "sm_find (cs_components cs) n = None \<longleftrightarrow> n \<notin> names cs"
  by (simp add: sm_find_def names_def map_of_eq_None_iff)

lemma mark_find:
  "sm_find (cs_components (mark_loading nam cs)) n =
     map_option (\<lambda>c. if n = nam then c\<lparr>ct_isLoadingStarted := True\<rparr> else c) (sm_find (cs_components cs) n)"
proof -
  have "map_of (map (\<lambda>(n, c). if n = nam then (n, c\<lparr>ct_isLoadingStarted := True\<rparr>) else (n, c)) m) n =
      map_option (\<lambda>c. if n = nam then c\<lparr>ct_isLoadingStarted := True\<rparr> else c) (map_of m n)" for m :: "(string, 'a container) entries"
    by (induction m) auto
  then show ?thesis by (simp add: mark_loading_def sm_find_def)
qed

lemma marked_mark: "marked (mark_loading nam cs) = marked cs \<union> (if nam \<in> names cs then {nam} else {})"
proof -
  have "n \<in> marked (mark_loading nam cs) \<longleftrightarrow> n \<in> marked cs \<or> n = nam \<and> nam \<in> names cs" for n
    using find_names[of cs n] by (cases "sm_find (cs_components cs) n") (auto simp: marked_def mark_find)
  then show ?thesis by auto
qed

lemma mark_keys: "map fst (cs_components (mark_loading nam cs)) = map fst (cs_components cs)"
  by (auto simp: mark_loading_def)

lemma mark_stack [simp]: "cs_loadingStack (mark_loading nam cs) = cs_loadingStack cs"
  by (simp add: mark_loading_def)

lemma mark_extends: "cs_wf cs \<Longrightarrow> extends cs (mark_loading nam cs)"
  using mark_keys[of nam cs] by (auto simp: extends_def cs_wf_def sm_sorted_def marked_mark)

lemma run_load_extends:
  assumes "\<And>nam cs. cs_wf cs \<Longrightarrow> extends cs (snd (f nam cs))"
  shows "cs_wf cs \<Longrightarrow> extends cs (snd (run_load f p cs))"
proof (induction p arbitrary: cs)
  case (Finds nam k)
  have e: "extends cs (snd (f nam cs))" using assms Finds.prems by blast
  show ?case
  proof (cases "f nam cs")
    case (Pair res cs')
    then show ?thesis
      using e Finds.IH[OF rangeI extends_wf[OF e]] by (cases res) (auto simp: bindS_def intro: extends_trans)
  qed
qed (auto simp: returnS_def throwS_def extends_refl)

lemma find_or_load_extends:
  assumes "\<And>nam cs. cs_wf cs \<Longrightarrow> extends cs (snd (load nam cs))" "cs_wf cs"
  shows "extends cs (snd (find_or_load load nam cs))"
  using assms(1)[OF assms(2), of nam] extends_refl[OF assms(2)]
  by (auto simp: find_or_load_def bindS_def returnS_def split: option.splits prod.splits sum.splits)

lemma sendOnLoad_extends:
  "cs_wf cs \<Longrightarrow> extends cs (snd (sendOnLoad n what onLoad nam cs)) \<and>
     (fst (sendOnLoad n what onLoad nam cs) = Inr () \<longrightarrow> nam \<in> set (cs_loadingStack (snd (sendOnLoad n what onLoad nam cs))))"
proof (induction n arbitrary: nam cs)
  case 0
  then show ?case by (simp add: throwS_def extends_refl)
next
  case (Suc n)
  show ?case
  proof (cases "isComponentLoaded cs nam")
    case True
    then show ?thesis using Suc.prems by (simp add: extends_refl isComponentLoaded_def)
  next
    case False
    show ?thesis
    proof (cases "sm_find (cs_components cs) nam")
      case None
      then show ?thesis using Suc.prems False by (simp add: extends_refl)
    next
      case (Some cont)
      show ?thesis
      proof (cases "ct_isLoadingStarted cont")
        case True
        then show ?thesis using Suc.prems False Some by (simp add: extends_refl)
      next
        case unstarted: False
        let ?cs = "mark_loading nam cs"
        obtain res cs' where r: "run_load (find_or_load (sendOnLoad n what onLoad)) (onLoad (ct_component cont)) ?cs = (res, cs')"
          by fastforce
        have m: "extends cs ?cs" using mark_extends[OF Suc.prems] .
        have "extends ?cs cs'"
          using run_load_extends[of "find_or_load (sendOnLoad n what onLoad)" ?cs "onLoad (ct_component cont)"]
            find_or_load_extends[of "sendOnLoad n what onLoad"] Suc.IH extends_wf[OF m] r by simp
        note e = this extends_trans[OF m this]
        have nam: "nam \<in> names cs" "nam \<notin> marked cs" "nam \<notin> set (cs_loadingStack cs)" "nam \<in> marked ?cs"
          using Some unstarted False find_names[of cs nam] by (auto simp: marked_def isComponentLoaded_def mark_find)
        then have new: "nam \<notin> set (cs_loadingStack cs')" using e(1) by (auto simp: extends_def)
        have "nam \<in> marked cs'" using nam(4) e(1) by (auto simp: extends_def)
        then have "extends cs (cs'\<lparr>cs_loadingStack := cs_loadingStack cs' @ [nam]\<rparr>)"
          using e(2) new nam(2) by (auto simp: extends_def cs_wf_def marked_def)
        then show ?thesis using False Some unstarted r e(2) by (cases res) (simp_all)
      qed
    qed
  qed
qed

section \<open>The end of loading\<close>

text \<open>Components whose code comes to an end.\<close>

primrec honest :: "'c load_prog \<Rightarrow> bool" where
  "honest Loaded = True"
| "honest (Throws e) = (e \<noteq> Diverges)"
| "honest (Finds nam k) = (\<forall>c. honest (k c))"

definition unmarked :: "'c component_set \<Rightarrow> nat" where
  "unmarked cs = card (names cs - marked cs)"

lemma unmarked_extends: "extends a b \<Longrightarrow> unmarked b \<le> unmarked a"
proof -
  assume e: "extends a b"
  have "finite (names a)" by (simp add: names_def)
  then show ?thesis
    unfolding unmarked_def extends_names[OF e] using e by (intro card_mono) (auto simp: extends_def)
qed

lemma unmarked_mark:
  "nam \<in> names cs \<Longrightarrow> nam \<notin> marked cs \<Longrightarrow> cs_wf cs \<Longrightarrow> unmarked (mark_loading nam cs) < unmarked cs"
proof -
  assume n: "nam \<in> names cs" "nam \<notin> marked cs" and wf: "cs_wf cs"
  have "finite (names cs)" by (simp add: names_def)
  then show ?thesis
    unfolding unmarked_def extends_names[OF mark_extends[OF wf]]
    using n by (intro psubset_card_mono) (auto simp: marked_mark)
qed

lemma run_load_ends:
  assumes ext: "\<And>nam cs. cs_wf cs \<Longrightarrow> extends cs (snd (f nam cs))"
    and ends: "\<And>nam cs. cs_wf cs \<Longrightarrow> unmarked cs < n \<Longrightarrow> fst (f nam cs) \<noteq> Inl Diverges"
  shows "cs_wf cs \<Longrightarrow> unmarked cs < n \<Longrightarrow> honest p \<Longrightarrow> fst (run_load f p cs) \<noteq> Inl Diverges"
proof (induction p arbitrary: cs)
  case (Finds nam k)
  have e: "extends cs (snd (f nam cs))" using ext Finds.prems by blast
  show ?case
  proof (cases "f nam cs")
    case (Pair res cs')
    have "fst (run_load f (k c) cs') \<noteq> Inl Diverges" for c
      using Finds.IH[OF rangeI, of cs' c] e Pair unmarked_extends[of cs cs'] extends_wf[of cs cs'] Finds.prems by auto
    then show ?thesis
      using ends[OF Finds.prems(1,2), of nam] Pair by (cases res) (auto simp: bindS_def)
  qed
qed (auto simp: returnS_def throwS_def)

lemma sendOnLoad_ends:
  assumes "\<And>c. honest (onLoad c)"
  shows "cs_wf cs \<Longrightarrow> unmarked cs < n \<Longrightarrow> fst (sendOnLoad n what onLoad nam cs) \<noteq> Inl Diverges"
proof (induction n arbitrary: nam cs)
  case (Suc n)
  let ?f = "find_or_load (sendOnLoad n what onLoad)"
  have ext: "cs_wf cs \<Longrightarrow> extends cs (snd (?f nam cs))" for nam cs
    using find_or_load_extends sendOnLoad_extends by blast
  have ends: "cs_wf cs \<Longrightarrow> unmarked cs < n \<Longrightarrow> fst (?f nam cs) \<noteq> Inl Diverges" for nam cs
    using Suc.IH[of cs nam]
    by (auto simp: find_or_load_def bindS_def returnS_def split: option.splits prod.splits sum.splits)
  have run: "fst (run_load ?f (onLoad c) (mark_loading nam cs)) \<noteq> Inl Diverges" if "nam \<in> names cs" "nam \<notin> marked cs" for c
    using unmarked_mark[OF that Suc.prems(1)] Suc.prems mark_extends[OF Suc.prems(1)]
    by (intro run_load_ends[OF ext ends]) (auto intro: extends_wf assms)
  have "rethrown what e = Diverges \<Longrightarrow> e = Diverges" for e by (auto simp: rethrown_def split: if_splits)
  note re = this
  show ?case
  proof (cases "sm_find (cs_components cs) nam")
    case None
    then show ?thesis by simp
  next
    case (Some cont)
    then have "nam \<in> names cs" using find_names[of cs nam] by auto
    obtain res cs' where r: "run_load ?f (onLoad (ct_component cont)) (mark_loading nam cs) = (res, cs')" by fastforce
    show ?thesis
    proof (cases "isComponentLoaded cs nam \<or> ct_isLoadingStarted cont")
      case True
      then show ?thesis using Some by auto
    next
      case False
      then have "res \<noteq> Inl Diverges"
        using run[of "ct_component cont"] r \<open>nam \<in> names cs\<close> Some by (simp add: marked_def)
      then show ?thesis using False Some r re by (cases res) auto
    qed
  qed
qed simp

lemma marked_names: "marked cs \<subseteq> names cs"
proof
  fix n assume "n \<in> marked cs"
  then have "sm_find (cs_components cs) n \<noteq> None" by (auto simp: marked_def)
  then show "n \<in> names cs" using find_names[of cs n] by simp
qed

lemma unmarked_fuel: "unmarked cs < load_fuel cs"
proof -
  have "card (names cs - marked cs) \<le> card (names cs)" by (intro card_mono) (auto simp: names_def)
  also have "\<dots> \<le> length (cs_components cs)" unfolding names_def using card_length[of "map fst (cs_components cs)"] by simp
  finally show ?thesis by (simp add: unmarked_def)
qed

lemma load_all:
  assumes "\<And>c. honest (onLoad c)" "\<forall>i\<in>set is. fst i \<in> names cs" "cs_wf cs" "unmarked cs < n"
    and "foreachS (\<lambda>i. sendOnLoad n what onLoad (fst i)) is cs = (res, cs')"
  shows "extends cs cs' \<and> res \<noteq> Inl Diverges \<and> (res = Inr () \<longrightarrow> fst ` set is \<subseteq> set (cs_loadingStack cs'))"
  using assms(2-)
proof (induction "is" arbitrary: cs)
  case Nil
  then show ?case by (auto simp: returnS_def extends_refl)
next
  case (Cons i "is")
  obtain r1 cs1 where s: "sendOnLoad n what onLoad (fst i) cs = (r1, cs1)" by fastforce
  have e: "extends cs cs1" "r1 = Inr () \<longrightarrow> fst i \<in> set (cs_loadingStack cs1)" "r1 \<noteq> Inl Diverges"
    using sendOnLoad_extends[OF Cons.prems(2), of n what onLoad "fst i"]
      sendOnLoad_ends[OF _ Cons.prems(2,3), where what = what and nam = "fst i" and onLoad = onLoad] assms(1) s by simp_all
  show ?case
  proof (cases r1)
    case (Inl e1)
    then show ?thesis using Cons.prems(4) s e by (auto simp: bindS_def)
  next
    case (Inr u)
    then have f: "foreachS (\<lambda>i. sendOnLoad n what onLoad (fst i)) is cs1 = (res, cs')"
      using Cons.prems(4) s by (simp add: bindS_def)
    have "extends cs1 cs' \<and> res \<noteq> Inl Diverges \<and> (res = Inr () \<longrightarrow> fst ` set is \<subseteq> set (cs_loadingStack cs'))"
      using Cons.prems e(1) unmarked_extends[OF e(1)] extends_names[OF e(1)] f
      by (intro Cons.IH) (auto intro: extends_wf)
    then show ?thesis
      using e Inr extends_trans[OF e(1), of cs'] by (auto simp: extends_def)
  qed
qed

section \<open>Properties\<close>

text \<open>
  C7. Loading the components ends, whatever they ask for while they are loaded, as long as their own code
  ends: with all of them loaded, or with an exception. When it succeeds, every component of the set is on
  the stack of loaded components exactly once, so that it is unloaded exactly once, in the reverse order.
\<close>

theorem loading_ends:
  assumes "\<And>c. honest (onLoad c)" "cs_wf cs" "sendOnLoadToComponents what onLoad cs = (res, cs')"
  shows "res \<noteq> Inl Diverges \<and> distinct (cs_loadingStack cs') \<and>
    (res = Inr () \<longrightarrow> set (cs_loadingStack cs') = fst ` set (cs_components cs') \<and>
       length (sendOnUnloadToComponents cs') = length (cs_components cs'))"
proof -
  have r: "extends cs cs' \<and> res \<noteq> Inl Diverges \<and> (res = Inr () \<longrightarrow> fst ` set (cs_components cs) \<subseteq> set (cs_loadingStack cs'))"
    using assms(3) unmarked_fuel[of cs] unfolding sendOnLoadToComponents_def
    by (intro load_all[OF assms(1) _ assms(2)]) (auto simp: names_def)
  then have wf: "cs_wf cs'" and n: "names cs' = names cs" using extends_wf extends_names by blast+
  have sub: "set (cs_loadingStack cs') \<subseteq> names cs'"
    using wf marked_names[of cs'] by (auto simp: cs_wf_def)
  have d: "distinct (map fst (cs_components cs'))"
    using wf strict_sorted_iff[of "map fst (cs_components cs')"] by (simp add: cs_wf_def sm_sorted_def)
  have eq: "res = Inr () \<Longrightarrow> set (cs_loadingStack cs') = set (map fst (cs_components cs'))"
    using r sub n by (auto simp: names_def)
  moreover have "res = Inr () \<Longrightarrow> length (cs_loadingStack cs') = length (map fst (cs_components cs'))"
    using distinct_card[OF d] distinct_card[of "cs_loadingStack cs'"] eq wf by (simp add: cs_wf_def)
  ultimately show ?thesis using r wf by (auto simp: cs_wf_def sendOnUnloadToComponents_def)
qed

text \<open>Two components, the first of which asks for the second while it is loaded.\<close>

definition example_set :: "nat component_set" where
  "example_set = \<lparr>cs_components = [(''a'', \<lparr>ct_component = 1, ct_isLoadingStarted = False\<rparr>),
     (''b'', \<lparr>ct_component = 2, ct_isLoadingStarted = False\<rparr>)], cs_loadingStack = []\<rparr>"

definition example_onLoad :: "nat \<Rightarrow> nat load_prog" where
  "example_onLoad c = (if c = 1 then Finds ''b'' (\<lambda>_. Loaded) else Loaded)"

lemma example_set_wf: "cs_wf example_set"
  by (simp add: cs_wf_def example_set_def sm_sorted_def)

lemma example_onLoad_honest: "honest (example_onLoad c)"
  by (simp add: example_onLoad_def)

theorem loading_ends_witness:
  "distinct (cs_loadingStack (snd (sendOnLoadToComponents (\<lambda>e. []) example_onLoad example_set)))"
proof -
  obtain res cs' where r: "sendOnLoadToComponents (\<lambda>e. []) example_onLoad example_set = (res, cs')" by fastforce
  from loading_ends[OF example_onLoad_honest example_set_wf this] show ?thesis using r by simp
qed

text \<open>
  A component that the set hands out, while others are being loaded or later, has itself been loaded:
  its \<^verbatim>\<open>onLoad\<close> has returned. Looking up a name changes no component and unloads none.
\<close>

theorem found_is_loaded:
  assumes "cs_wf cs" "ComponentSet_find what onLoad nam cs = (Inr (Some c), cs')"
  shows "nam \<in> set (cs_loadingStack cs') \<and> cs_wf cs' \<and> map fst (cs_components cs') = map fst (cs_components cs) \<and>
    prefix (cs_loadingStack cs) (cs_loadingStack cs')"
proof -
  let ?load = "sendOnLoad (load_fuel cs) what onLoad"
  have "extends cs (snd (find_or_load ?load nam cs))"
    by (rule find_or_load_extends[OF _ assms(1)]) (use sendOnLoad_extends in blast)
  then have e: "extends cs cs'"
    using assms(2) unfolding ComponentSet_find_def by (simp only: snd_conv)
  have "nam \<in> set (cs_loadingStack cs')"
  proof (cases "isComponentLoaded cs nam")
    case True
    then show ?thesis using e by (auto simp: isComponentLoaded_def extends_def)
  next
    case False
    then have "?load nam cs = (Inr (), cs')"
      using assms(2) unfolding ComponentSet_find_def find_or_load_def
      by (auto simp: bindS_def returnS_def simp del: sendOnLoad.simps split: option.splits prod.splits sum.splits)
    then show ?thesis using sendOnLoad_extends[OF assms(1), of "load_fuel cs" what onLoad nam] by simp
  qed
  then show ?thesis using e by (auto simp: extends_def)
qed

lemma example_find:
  "ComponentSet_find (\<lambda>e. []) example_onLoad ''a'' example_set = (Inr (Some 1),
     \<lparr>cs_components = [(''a'', \<lparr>ct_component = 1, ct_isLoadingStarted = True\<rparr>),
        (''b'', \<lparr>ct_component = 2, ct_isLoadingStarted = True\<rparr>)], cs_loadingStack = [''b'', ''a'']\<rparr>)"
  by (simp add: ComponentSet_find_def find_or_load_def example_set_def example_onLoad_def isComponentLoaded_def
    sm_find_def bindS_def returnS_def mark_loading_def)

theorem found_is_loaded_witness:
  "''a'' \<in> set (cs_loadingStack (snd (ComponentSet_find (\<lambda>e. []) example_onLoad ''a'' example_set)))"
  using found_is_loaded[OF example_set_wf example_find] example_find by simp

text \<open>
  Two components that ask for each other while they are loaded are found out: loading ends with the
  exception for a cyclic dependence, whichever of them comes first.
\<close>

theorem cyclic_components_refused:
  assumes "sm_sorted (cs_components cs)" "cs_loadingStack cs = []" "a \<noteq> b"
    and "sm_find (cs_components cs) a = Some ca" "sm_find (cs_components cs) b = Some cb"
    and "\<not> ct_isLoadingStarted ca" "\<not> ct_isLoadingStarted cb"
    and "onLoad (ct_component ca) = Finds b (\<lambda>_. Loaded)" "onLoad (ct_component cb) = Finds a (\<lambda>_. Loaded)"
  shows "fst (sendOnLoad (Suc (Suc (Suc n))) what onLoad a cs) =
    Inl (RuntimeError (what (RuntimeError (what (RuntimeError ''Cyclic component dependence found'')))))"
  using assms
  by (simp add: isComponentLoaded_def find_or_load_def mark_find bindS_def rethrown_def is_std_exception_def)

theorem cyclic_components_refused_witness:
  "fst (sendOnLoad 3 (\<lambda>e. case e of RuntimeError s \<Rightarrow> s | _ \<Rightarrow> [])
     (\<lambda>c. Finds (if c = 1 then ''b'' else ''a'') (\<lambda>_. Loaded)) ''a'' example_set) =
   Inl (RuntimeError ''Cyclic component dependence found'')"
  using cyclic_components_refused[of example_set "''a''" "''b''" "\<lparr>ct_component = 1, ct_isLoadingStarted = False\<rparr>"
      "\<lparr>ct_component = 2, ct_isLoadingStarted = False\<rparr>" "\<lambda>c. Finds (if c = 1 then ''b'' else ''a'') (\<lambda>_. Loaded)" 0
      "\<lambda>e. case e of RuntimeError s \<Rightarrow> s | _ \<Rightarrow> []"]
  by (simp add: example_set_def sm_sorted_def sm_find_def eval_nat_numeral)

end
