(* ===== verification/Statistics.thy ===== *)
theory Statistics
  imports Request_Impl
begin

text \<open>
  The response time statistics (\<^verbatim>\<open>statistics/response_time_handler.cpp\<close>): a counter per handler and status,
  with 64-bit sums, and the handler that prints them. The printing of a number of milliseconds and of a
  64-bit or status number belongs to \<^verbatim>\<open>std::ostream\<close> and is a parameter.

  A counter has the minimum, the maximum, the number and the mean of the times that were added to it
  (\<open>counter_summary\<close>), as long as their sum fits into 64 bits; every counter has seen exactly the times of
  its handler and status (\<open>statistics_by_key\<close>).
\<close>

section \<open>Counters\<close>

record counter_data =
  cd_min :: "64 word"
  cd_max :: "64 word"
  cd_total :: "64 word"
  cd_hits :: "64 word"

definition CounterData_new :: counter_data where
  "CounterData_new = \<lparr>cd_min = - 1, cd_max = 0, cd_total = 0, cd_hits = 0\<rparr>"

definition counter_add :: "64 word \<Rightarrow> counter_data \<Rightarrow> counter_data" where
  "counter_add time c = \<lparr>cd_min = min (cd_min c) time, cd_max = max (cd_max c) time,
     cd_total = cd_total c + time, cd_hits = cd_hits c + 1\<rparr>"

definition counter_avg :: "counter_data \<Rightarrow> 64 word" where
  "counter_avg c = (if cd_hits c \<noteq> 0 then cd_total c div cd_hits c else 0)"

section \<open>The handler\<close>

type_synonym counter_map = "(nat, counter_data) entries"
type_synonym statistics = "(string, counter_map) entries"

definition statistics_add :: "string \<Rightarrow> nat \<Rightarrow> 64 word \<Rightarrow> statistics \<Rightarrow> statistics" where
  "statistics_add handler status time data =
     (let handle = (case sm_find data handler of Some m \<Rightarrow> m | None \<Rightarrow> []) in
      sm_put data handler
        (case sm_find handle status of
           None \<Rightarrow> sm_insert handle status (counter_add time CounterData_new)
         | Some c \<Rightarrow> sm_put handle status (counter_add time c)))"

record printing =
  print_ms :: "64 word \<Rightarrow> string"
  print_u64 :: "64 word \<Rightarrow> string"
  print_status :: "nat \<Rightarrow> string"

definition quoted :: "string \<Rightarrow> string" where
  "quoted s = [CHR 0x22] @ s @ [CHR 0x22]"

definition print_counter :: "printing \<Rightarrow> nat \<times> counter_data \<Rightarrow> string" where
  "print_counter P e = (case e of (status, c) \<Rightarrow> ''<data status='' @ quoted (print_status P status) @
     '' avg='' @ quoted (print_ms P (counter_avg c)) @ '' min='' @ quoted (print_ms P (cd_min c)) @
     '' max='' @ quoted (print_ms P (cd_max c)) @ '' hits='' @ quoted (print_u64 P (cd_hits c)) @ ''/>'')"

definition print_handler :: "printing \<Rightarrow> string \<times> counter_map \<Rightarrow> string" where
  "print_handler P e = (case e of (handler, m) \<Rightarrow>
     ''<handler id='' @ quoted handler @ ''>'' @ concat (map (print_counter P) m) @ ''</handler>'')"

definition print_statistics :: "printing \<Rightarrow> statistics \<Rightarrow> string" where
  "print_statistics P data = ''<?xml version='' @ quoted ''1.0'' @ '' encoding='' @ quoted ''utf-8'' @ ''?>'' @
     ''<response-time>'' @ concat (map (print_handler P) data) @ ''</response-time>''"

definition statistics_handleRequest :: "boost \<Rightarrow> printing \<Rightarrow> statistics \<Rightarrow> (request_impl, unit) st" where
  "statistics_handleRequest lib P data =
     bindS (setStatus lib 200) (\<lambda>_. rq_write_buf (print_statistics P data))"

section \<open>Counters over a sequence of times\<close>

definition counter_of :: "64 word list \<Rightarrow> counter_data" where
  "counter_of ts = fold counter_add ts CounterData_new"

lemma counter_fold:
  "cd_min (fold counter_add ts c) = fold min ts (cd_min c)"
  "cd_max (fold counter_add ts c) = fold max ts (cd_max c)"
  "cd_total (fold counter_add ts c) = cd_total c + sum_list ts"
  "cd_hits (fold counter_add ts c) = cd_hits c + of_nat (length ts)"
  by (induction ts arbitrary: c) (simp_all add: counter_add_def min.commute max.commute ac_simps)

lemma counter_of_fields:
  assumes "ts \<noteq> []"
  shows "cd_min (counter_of ts) = Min (set ts)" "cd_max (counter_of ts) = Max (set ts)"
    "cd_total (counter_of ts) = sum_list ts" "cd_hits (counter_of ts) = of_nat (length ts)"
proof -
  have "fold min ts (- 1) = Min (insert (- 1) (set ts))" "fold max ts 0 = Max (insert 0 (set ts))"
    using Min.set_eq_fold[of "- 1" ts] Max.set_eq_fold[of 0 ts] by simp_all
  moreover have "Min (insert (- 1) (set ts)) = Min (set ts)" "Max (insert 0 (set ts)) = Max (set ts)"
    using assms by (simp_all add: min_absorb2 max_absorb2)
  ultimately show "cd_min (counter_of ts) = Min (set ts)" "cd_max (counter_of ts) = Max (set ts)"
    by (simp_all add: counter_of_def counter_fold CounterData_new_def)
  show "cd_total (counter_of ts) = sum_list ts" "cd_hits (counter_of ts) = of_nat (length ts)"
    by (simp_all add: counter_of_def counter_fold CounterData_new_def)
qed

lemma unat_sum_list: "sum_list (map unat ts) < 2 ^ 64 \<Longrightarrow> unat (sum_list ts) = sum_list (map unat ts)"
  for ts :: "64 word list"
proof (induction ts)
  case (Cons t ts)
  then have "unat (sum_list ts) = sum_list (map unat ts)" by simp
  then show ?case using Cons.prems by (simp add: unat_word_ariths(1))
qed simp

lemma counter_of_avg:
  assumes "ts \<noteq> []" "length ts < 2 ^ 64" "sum_list (map unat ts) < 2 ^ 64"
  shows "unat (counter_avg (counter_of ts)) = sum_list (map unat ts) div length ts"
proof -
  have "unat (of_nat (length ts) :: 64 word) = length ts" using assms(2) by (simp add: unat_of_nat)
  moreover from this have "(of_nat (length ts) :: 64 word) \<noteq> 0" using assms(1) by (metis length_0_conv unat_0)
  ultimately show ?thesis
    using unat_sum_list[OF assms(3)] by (simp add: counter_avg_def counter_of_fields[OF assms(1)] unat_div_distrib)
qed

lemma mean_bounds:
  fixes ns :: "nat list"
  assumes "ns \<noteq> []"
  shows "Min (set ns) \<le> sum_list ns div length ns" "sum_list ns div length ns \<le> Max (set ns)"
proof -
  have "length ns * Min (set ns) \<le> sum_list ns"
    using sum_list_mono[of ns "\<lambda>_. Min (set ns)" id] by (simp add: sum_list_triv)
  then show "Min (set ns) \<le> sum_list ns div length ns"
    using assms by (simp add: less_eq_div_iff_mult_less_eq mult.commute)
  have "sum_list ns \<le> Max (set ns) * length ns"
    using sum_list_mono[of ns id "\<lambda>_. Max (set ns)"] by (simp add: sum_list_triv mult.commute)
  then show "sum_list ns div length ns \<le> Max (set ns)"
    using assms by (metis div_le_mono length_0_conv nonzero_mult_div_cancel_right)
qed

section \<open>Counters by handler and status\<close>

definition statistics_find :: "statistics \<Rightarrow> string \<Rightarrow> nat \<Rightarrow> counter_data option" where
  "statistics_find data handler status = Option.bind (sm_find data handler) (\<lambda>m. sm_find m status)"

definition statistics_wf :: "statistics \<Rightarrow> bool" where
  "statistics_wf data \<longleftrightarrow> sm_sorted data \<and> (\<forall>h m. sm_find data h = Some m \<longrightarrow> sm_sorted m)"

lemma statistics_find_add:
  assumes "statistics_wf data"
  shows "statistics_wf (statistics_add h st t data)"
    and "statistics_find (statistics_add h st t data) h' st' =
      (if h = h' \<and> st = st' then Some (counter_add t (case statistics_find data h st of Some c \<Rightarrow> c | None \<Rightarrow> CounterData_new))
       else statistics_find data h' st')"
proof -
  let ?m = "case sm_find data h of Some m \<Rightarrow> m | None \<Rightarrow> []"
  let ?n = "case sm_find ?m st of None \<Rightarrow> sm_insert ?m st (counter_add t CounterData_new) | Some c \<Rightarrow> sm_put ?m st (counter_add t c)"
  have m: "sm_sorted ?m" using assms by (auto simp: statistics_wf_def sm_sorted_def split: option.splits)
  have n: "sm_sorted ?n" using m by (cases "sm_find ?m st") (simp_all add: sm_sorted_insert sm_sorted_put del: sm_insert.simps sm_put.simps)
  have f: "sm_find ?n st' = (if st = st' then Some (counter_add t (case sm_find ?m st of Some c \<Rightarrow> c | None \<Rightarrow> CounterData_new))
      else sm_find ?m st')"
    using m by (cases "sm_find ?m st") (auto simp: sm_find_insert sm_find_put simp del: sm_insert.simps sm_put.simps)
  have a: "statistics_add h st t data = sm_put data h ?n" by (simp add: statistics_add_def Let_def)
  have find: "sm_find (sm_put data h ?n) k = (if h = k then Some ?n else sm_find data k)" for k
    using assms by (auto simp: sm_find_put statistics_wf_def)
  show "statistics_wf (statistics_add h st t data)"
    unfolding a using assms n find sm_sorted_put by (auto simp: statistics_wf_def)
  show "statistics_find (statistics_add h st t data) h' st' =
      (if h = h' \<and> st = st' then Some (counter_add t (case statistics_find data h st of Some c \<Rightarrow> c | None \<Rightarrow> CounterData_new))
       else statistics_find data h' st')"
    unfolding statistics_find_def a find using f
    by (cases "sm_find data h") (auto simp: sm_find_def)
qed

definition times_of :: "string \<Rightarrow> nat \<Rightarrow> (string \<times> nat \<times> 64 word) list \<Rightarrow> 64 word list" where
  "times_of h st evs = map (\<lambda>(_, _, t). t) (filter (\<lambda>(h', st', _). h' = h \<and> st' = st) evs)"

definition statistics_of :: "(string \<times> nat \<times> 64 word) list \<Rightarrow> statistics" where
  "statistics_of evs = fold (\<lambda>(h, st, t). statistics_add h st t) evs []"

lemma statistics_fold:
  assumes "statistics_wf data"
  shows "statistics_find (fold (\<lambda>(h, st, t). statistics_add h st t) evs data) h st =
    (case times_of h st evs of [] \<Rightarrow> statistics_find data h st
     | ts \<Rightarrow> Some (fold counter_add ts (case statistics_find data h st of Some c \<Rightarrow> c | None \<Rightarrow> CounterData_new)))"
  using assms
proof (induction evs arbitrary: data)
  case Nil
  then show ?case by (simp add: times_of_def)
next
  case (Cons e evs)
  obtain h' st' t where e: "e = (h', st', t)" by (cases e)
  show ?case
    using Cons.IH[OF statistics_find_add(1)[OF Cons.prems, of h' st' t]] statistics_find_add(2)[OF Cons.prems, of h' st' t h st] e
    by (auto simp: times_of_def split: list.splits option.splits)
qed

section \<open>Properties\<close>

text \<open>
  A counter that has been given some times reports their minimum, their maximum and their number; when
  the sum of the times fits into 64 bits the average is their mean, rounded down, and lies between the two.
\<close>

theorem counter_summary:
  assumes "ts \<noteq> []" "length ts < 2 ^ 64" "sum_list (map unat ts) < 2 ^ 64"
    and "c = fold counter_add ts CounterData_new"
  shows "cd_min c = Min (set ts) \<and> cd_max c = Max (set ts) \<and> unat (cd_hits c) = length ts \<and>
    unat (counter_avg c) = sum_list (map unat ts) div length ts \<and> cd_min c \<le> counter_avg c \<and> counter_avg c \<le> cd_max c"
proof -
  have c: "c = counter_of ts" using assms(4) by (simp add: counter_of_def)
  have mono: "mono (unat :: 64 word \<Rightarrow> nat)" by (auto simp: mono_def word_le_nat_alt)
  have "unat (Min (set ts)) = Min (set (map unat ts))" "unat (Max (set ts)) = Max (set (map unat ts))"
    using mono_Min_commute[OF mono, of "set ts"] mono_Max_commute[OF mono, of "set ts"] assms(1) by simp_all
  then have "unat (cd_min c) \<le> unat (counter_avg c)" "unat (counter_avg c) \<le> unat (cd_max c)"
    using mean_bounds[of "map unat ts"] counter_of_avg[OF assms(1-3)] assms(1)
    by (simp_all add: c counter_of_fields)
  then show ?thesis
    using counter_of_fields[OF assms(1)] counter_of_avg[OF assms(1-3)] assms(2)
    by (simp add: c word_le_nat_alt unat_of_nat)
qed

theorem counter_summary_witness:
  "unat (counter_avg (fold counter_add [3, 8] CounterData_new)) = 5 \<and> cd_min (fold counter_add [3, 8] CounterData_new) = 3"
proof -
  have "(11::nat) div Suc (Suc 0) = 5" by (rule div_nat_eqI) simp_all
  then show ?thesis using counter_summary[of "[3, 8]" "fold counter_add [3, 8] CounterData_new"] by simp
qed

text \<open>
  After any sequence of calls of \<^verbatim>\<open>add\<close>, the counter of a handler and a status has been given exactly the
  times of the calls with this handler and this status, in their order; there is no counter when there was
  no such call.
\<close>

theorem statistics_by_key:
  "statistics_find (statistics_of evs) h st =
     (case times_of h st evs of [] \<Rightarrow> None | t # ts \<Rightarrow> Some (fold counter_add (t # ts) CounterData_new))"
proof -
  have "statistics_wf []" by (simp add: statistics_wf_def sm_sorted_def sm_find_def)
  then show ?thesis
    using statistics_fold[of "[]" evs h st] by (simp add: statistics_of_def statistics_find_def sm_find_def split: list.splits)
qed

end
