(* ===== verification/Attach_Cached.thy ===== *)
theory Attach_Cached
  imports File_Cache
begin

text \<open>
  Requests whose body is large enough for the request cache: \<^verbatim>\<open>attach\<close> of \<^verbatim>\<open>library/requestimpl.cpp\<close> writes the
  environment, the body as it arrives, and at the end the arguments into a file of the cache. What the file holds then is
  the image of the request, as \<^verbatim>\<open>serialize\<close> would have written it (\<open>attach_cached\<close>), so that the cache, which does not
  write such a request again but only links its file, can read it back.
\<close>

section \<open>Requests without a body\<close>

text \<open>The environment does not touch the body and the files.\<close>

lemma parseCookies_loop_body:
  "rq_body (parseCookies_loop tmp r) = rq_body r \<and> rq_files (parseCookies_loop tmp r) = rq_files r"
proof (induction tmp r rule: parseCookies_loop.induct)
  case (1 tmp r)
  then show ?case
    by (subst (1 2) parseCookies_loop.simps) (auto simp: addCookie_def split: prod.splits)
qed

lemma parse_env_body: "rq_body (parse_env env r) = rq_body r \<and> rq_files (parse_env env r) = rq_files r"
proof (induction env arbitrary: r)
  case (Cons e env)
  have "rq_body (parse_env_entry e r) = rq_body r \<and> rq_files (parse_env_entry e r) = rq_files r"
    using parseCookies_loop_body by (auto simp: parse_env_entry_def parseCookies_def addHeader_def Let_def split: prod.splits)
  then show ?case using Cons by (simp add: parse_env_def)
qed (simp add: parse_env_def)

section \<open>The arguments of any buffer\<close>

text \<open>The decoder works window by window; its result is no longer than the bytes it reads.\<close>

lemma url_dec_length: "length (urldecode_onto s r) \<le> length r + length s"
proof (induction s r rule: urldecode_onto.induct)
  case (2 c cs result)
  show ?case
  proof (cases "c = CHR ''%'' \<and> 2 \<le> length cs")
    case True
    then obtain f s cs' where "cs = f # s # cs'" by (cases cs; cases "tl cs") auto
    then show ?thesis using True "2.IH" by fastforce
  next
    case False
    then have "c = CHR ''%'' \<Longrightarrow> cs = [] \<or> (\<exists>f. cs = [f])" by (cases cs; cases "tl cs") auto
    then show ?thesis using "2.IH" by auto
  qed
qed simp

lemma urldecode_buffer_total:
  assumes "db_ok h d"
  shows "\<exists>t. urldecode_buffer h d = Inr t \<and> length t \<le> length (content h d)"
proof -
  obtain cs where cs: "db_chunks h d = Inr cs" "concat (map (chunk_bytes (heap_bytes h d)) cs) = content h d"
    by (rule db_chunks_concat[OF assms])
  have "length (fold (\<lambda>c result. urldecode_onto (f c) result) cs r) \<le> length r + length (concat (map f cs))" for f r
  proof (induction cs arbitrary: r)
    case (Cons c cs)
    have "length (fold (\<lambda>c result. urldecode_onto (f c) result) cs (urldecode_onto (f c) r)) \<le>
        length (urldecode_onto (f c) r) + length (concat (map f cs))" by (rule Cons.IH)
    then show ?case using url_dec_length[of "f c" r] by simp
  qed simp
  from this[of "chunk_bytes (heap_bytes h d)" "[]"] show ?thesis using cs by (simp add: urldecode_buffer_def)
qed

lemma split_lengths:
  "(f, a, b) = str_split_char s ch \<Longrightarrow> length a + length b \<le> length s"
  using length_append[of "takeWhile (\<lambda>c. c \<noteq> ch) s" "dropWhile (\<lambda>c. c \<noteq> ch) s"]
  by (auto simp: str_split_char_def split: if_splits)

lemma parse_buffer_loop_total:
  assumes "db_ok h tmp" "length (content h tmp) < n"
  shows "\<exists>vs. parse_buffer_loop n h tmp v = (Inr (), v @ vs) \<and> length (enc_pairs vs) \<le> 17 * length (content h tmp)"
  using assms
proof (induction n arbitrary: tmp v)
  case (Suc n)
  show ?case
  proof (cases "content h tmp = []")
    case True
    then show ?thesis using Suc.prems by (simp add: monad_simps enc_pairs_def)
  next
    case False
    obtain f hed rest where s1: "db_split_char h tmp (CHR ''&'') = Inr (f, hed, rest)" "db_ok h hed" "db_ok h rest"
      "(f, content h hed, content h rest) = str_split_char (content h tmp) (CHR ''&'')"
      using db_split_char_content[OF Suc.prems(1)] .
    obtain g k w where s2: "db_split_char h hed (CHR ''='') = Inr (g, k, w)" "db_ok h k" "db_ok h w"
      "(g, content h k, content h w) = str_split_char (content h hed) (CHR ''='')"
      using db_split_char_content[OF s1(2)] .
    obtain dk dw where d: "urldecode_buffer h k = Inr dk" "length dk \<le> length (content h k)"
      "urldecode_buffer h w = Inr dw" "length dw \<le> length (content h w)"
      using urldecode_buffer_total s2(2,3) by blast
    have "length (content h rest) < n" using length_split_tail[OF False s1(4)] Suc.prems(2) by simp
    then obtain vs where IH: "\<And>u. \<exists>vs. parse_buffer_loop n h rest u = (Inr (), u @ vs) \<and> length (enc_pairs vs) \<le> 17 * length (content h rest)"
      using Suc.IH[OF s1(3)] by blast
    note l = split_lengths[OF s1(4)] split_lengths[OF s2(4)]
    let ?new = "if content h k \<noteq> [] then [(dk, dw)] else []"
    obtain vs where vs: "parse_buffer_loop n h rest (v @ ?new) = (Inr (), (v @ ?new) @ vs)" "length (enc_pairs vs) \<le> 17 * length (content h rest)"
      using IH by blast
    have "length (enc_pairs (?new @ vs)) \<le> 17 * length (content h tmp)"
    proof (cases "content h k")
      case Nil
      then show ?thesis using vs(2) l by simp
    next
      case (Cons c cs)
      then have "1 \<le> length (content h hed)" using l(2) by simp
      then show ?thesis using Cons vs(2) l d(2,4) by (simp add: enc_pairs_def enc_pair_def)
    qed
    moreover have "\<not> db_empty tmp" "db_empty k \<longleftrightarrow> content h k = []" using False Suc.prems(1) s2(2) by simp_all
    then have "parse_buffer_loop (Suc n) h tmp v = (Inr (), v @ ?new @ vs)"
      using vs(1) d by (cases "content h k = []") (simp_all add: s1(1) s2(1) bindS_def liftS_def modifyS_def returnS_def)
    ultimately show ?thesis by blast
  qed
qed simp

lemma parse_buffer_total:
  assumes "db_ok h d"
  shows "\<exists>vs. parse_buffer h d v = (Inr (), v @ vs) \<and> length (enc_pairs vs) \<le> 17 * length (content h d)"
  unfolding parse_buffer_def by (rule parse_buffer_loop_total) (use assms in simp_all)

section \<open>Writing through a view\<close>

lemma prefix_full: "prefix xs ys \<Longrightarrow> length ys = length xs \<Longrightarrow> ys = xs"
  by (auto simp: prefix_def)

lemma view_write:
  assumes "whole_buffer h post" "shift + n \<le> length (content h post)" "pos + length s \<le> n" "s \<noteq> []"
  shows "db_write h (view post shift n) pos s = db_write h post (shift + pos) s"
proof -
  have e: "db_begin post = 0" "db_end post = length (heap_bytes h post)" "db_ok h post"
    using assms(1) unfolding whole_buffer_def by blast+
  have c: "length (content h post) = db_end post" "db_end post < two64"
    using db_ok_bounds[OF e(3)] e(1) by (simp_all add: content_def)
  have i: "db_impl h (view post shift n) = db_impl h post" by (simp add: db_impl_def view_def)
  have s: "0 < length s" using assms(4) by simp
  let ?B = "db_end post"
  have "wsub (shift + n) shift = n" "wsub ?B 0 = ?B" "wsub n pos = n - pos" "wsub ?B (shift + pos) = ?B - (shift + pos)"
    using assms(2,3) c by (simp_all add: wsub_small)
  moreover have "wadd pos shift = shift + pos" "wadd (shift + pos) 0 = shift + pos"
    using assms(2,3) c by (simp_all add: wadd_small)
  moreover have "min (n - pos) (length s) = length s" "min (?B - (shift + pos)) (length s) = length s" "\<not> n \<le> pos" "\<not> ?B \<le> shift + pos"
    using assms(2,3) c(1) s by linarith+
  ultimately show ?thesis unfolding db_write_def i by (simp add: view_def e(1) Let_def)
qed

lemma read_chunks:
  assumes "tiles (shift + k) (shift + n) cs" "whole_buffer h post" "shift + n \<le> length (content h post)"
    and "prefix (p @ take k inp) (content h post)" "length p = shift" "n \<le> length inp" "k \<le> n" "io_input io = drop k inp"
  shows "\<exists>h'. foldE (read_segment (view post shift n)) cs (k, io, h) = Inr (n, io\<lparr>io_input := drop n inp\<rparr>, h') \<and>
    whole_buffer h' post \<and> store_frame post h h' \<and> prefix (p @ take n inp) (content h' post) \<and>
    length (content h' post) = length (content h post)"
  using assms
proof (induction cs arbitrary: k io h)
  case Nil
  then have "k = n" by simp
  moreover have "io\<lparr>io_input := drop n inp\<rparr> = io" using Nil.prems(8) \<open>k = n\<close> by simp
  ultimately show ?case using Nil by simp
next
  case (Cons c cs)
  let ?m = "snd c" and ?bytes = "take (snd c) (drop k inp)"
  have c: "fst c = shift + k" "0 < ?m" "tiles (shift + (k + ?m)) (shift + n) cs" "k + ?m \<le> n"
    using Cons.prems(1) by (simp_all add: add.assoc)
  have b: "length ?bytes = ?m" "?bytes \<noteq> []" using c(2,4) Cons.prems(6) by auto
  have ok: "db_ok h post" using Cons.prems(2) by simp
  have len: "length (p @ take k inp) = shift + k" using Cons.prems(5-7) by simp
  have fit: "length (p @ take k inp) + length ?bytes \<le> length (content h post)" using len b(1) c(4) Cons.prems(3) by simp
  obtain h1 where h1: "db_write h post (shift + k) ?bytes = Inr (?m, h1)" "db_ok h1 post"
    "content h1 post = overwrite (content h post) (shift + k) ?bytes" "store_frame post h h1"
    "length (heap_bytes h1 post) = length (heap_bytes h post)"
    using db_write_content[OF ok, of "shift + k" ?bytes] fit len b(1) by auto
  have w1: "whole_buffer h1 post" using Cons.prems(2) h1(2,5) unfolding whole_buffer_def by presburger
  have l1: "length (content h1 post) = length (content h post)"
    using fit len b(1) by (simp add: h1(3))
  have "prefix ((p @ take k inp) @ ?bytes) (content h1 post)"
    using prefix_overwrite[OF Cons.prems(4) fit] len h1(3) by simp
  then have p1: "prefix (p @ take (k + ?m) inp) (content h1 post)" by (simp add: take_add)
  have "k + ?m < two64" using c(4) Cons.prems(3) db_ok_bounds[OF ok] by (simp add: content_def)
  then have "read_segment (view post shift n) c (k, io, h) = Inr (k + ?m, io\<lparr>io_input := drop (k + ?m) inp\<rparr>, h1)"
    using view_write[OF Cons.prems(2,3), of k ?bytes] b c(1,4) h1(1) Cons.prems(8)
    by (simp add: read_segment_def io_read_def view_def wadd_small add.commute)
  moreover obtain h2 where "foldE (read_segment (view post shift n)) cs (k + ?m, io\<lparr>io_input := drop (k + ?m) inp\<rparr>, h1) =
      Inr (n, (io\<lparr>io_input := drop (k + ?m) inp\<rparr>)\<lparr>io_input := drop n inp\<rparr>, h2)"
    "whole_buffer h2 post" "store_frame post h1 h2" "prefix (p @ take n inp) (content h2 post)" "length (content h2 post) = length (content h1 post)"
    using Cons.IH[OF c(3) w1 _ p1 Cons.prems(5,6) c(4), of "io\<lparr>io_input := drop (k + snd c) inp\<rparr>"] Cons.prems(3) l1 by auto
  ultimately show ?case using l1 store_frame_trans[OF h1(4)] by auto
qed

section \<open>A body in a file of the cache\<close>

text \<open>What \<open>rc_create\<close> promises: a buffer that is a whole storage of its own.\<close>

definition cache_creates :: "request_cache \<Rightarrow> heap \<Rightarrow> bool" where
  "cache_creates cache h \<longleftrightarrow> (case rc_create cache h of (h', post) \<Rightarrow> whole_buffer h' post)"

lemma make_body_cached:
  assumes "rq_cache r = Some cache" "rc_minPostSize cache \<le> n" "cache_creates cache h" "length (env_image r) + 8 + n < two64"
  shows "\<exists>h' post. make_body n (r, h) = (Inr post, (r\<lparr>rq_body := view post (length (env_image r) + 8) n\<rparr>, h')) \<and>
    whole_buffer h' post \<and> prefix (env_image r @ int_bytes n) (content h' post) \<and>
    length (content h' post) = length (env_image r) + 8 + n"
proof -
  let ?e = "length (env_image r)"
  obtain h1 post0 where c: "rc_create cache h = (h1, post0)" "whole_buffer h1 post0"
    using assms(3) by (cases "rc_create cache h") (simp add: cache_creates_def)
  have a: "wadd n 8 = 8 + n" using assms(4) by (simp add: wadd_small)
  obtain h2 post where e: "serializeEnv r h1 post0 (8 + n) = Inr (?e, h2, post)" "whole_buffer h2 post"
    "prefix (env_image r) (content h2 post)" "length (content h2 post) = ?e + (8 + n)"
    using serializeEnv_content[OF c(2), of r "8 + n"] assms(4) by auto
  obtain h3 where i: "serializeInt post n (?e, h2) = Inr (?e + 8, h3)" "whole_buffer h3 post"
    "prefix (env_image r @ int_bytes n) (content h3 post)" "length (content h3 post) = length (content h2 post)"
    using writes_whole[OF writes_int e(2,3), of n] e(4) by auto
  have "db_end post = ?e + 8 + n" "db_begin post = 0"
    using i(2,4) e(4) unfolding whole_buffer_def by (auto simp: content_def)
  moreover have "db_sub h3 post (?e + 8) (?e + 8 + n) = Inr (view post (?e + 8) n)"
    using db_sub_view[OF i(2), of "?e + 8" n post] i(4) e(4) by simp
  moreover have "wadd 0 (?e + 8) = ?e + 8" using assms(4) by (simp add: wadd_small)
  ultimately have "make_body n (r, h) = (Inr post, (r\<lparr>rq_body := view post (?e + 8) n\<rparr>, h3))"
    using assms(1,2) c(1) e(1) i(1) by (simp add: make_body_def a)
  then show ?thesis using i e(4) by (metis add.assoc)
qed

lemma read_body_cached:
  assumes "whole_buffer h post" "prefix p (content h post)" "length (content h post) = length p + n"
    and "rq_body r = view post (length p) n" "rq_stream r = Some io" "n \<le> length (io_input io)"
  shows "\<exists>h'. read_body n (r, h) = (Inr (), (r\<lparr>rq_stream := Some (io\<lparr>io_input := drop n (io_input io)\<rparr>)\<rparr>, h')) \<and>
    whole_buffer h' post \<and> content h' post = p @ take n (io_input io)"
proof -
  let ?body = "view post (length p) n" and ?inp = "io_input io"
  have ok: "db_ok h ?body" and cb: "content h ?body = drop (length p) (content h post)"
    using view_content[OF assms(1), of "length p" n] assms(3) by simp_all
  obtain cs where cs: "db_chunks h ?body = Inr cs" "tiles (length p + 0) (length p + n) cs"
    using db_chunks_ok[OF ok] cb assms(3) by (auto simp: view_def split: if_splits)
  obtain h' where h': "foldE (read_segment ?body) cs (0, io, h) = Inr (n, io\<lparr>io_input := drop n ?inp\<rparr>, h')"
    "whole_buffer h' post" "prefix (p @ take n ?inp) (content h' post)" "length (content h' post) = length (content h post)"
    using read_chunks[OF cs(2) assms(1), of p ?inp io] assms(2,3,6) by auto
  have "length (p @ take n ?inp) = length (content h' post)" using h'(4) assms(3,6) by simp
  then have "content h' post = p @ take n ?inp" using prefix_full[OF h'(3)] by simp
  then show ?thesis using cs(1) h'(1,2) assms(4,5) by (simp add: read_body_def)
qed

lemma view_other: "db_data d' = db_data d \<Longrightarrow> view d' pos n = view d pos n"
  by (simp add: view_def)

lemma complete_post_cached:
  assumes "whole_buffer h post" "content h post = env_image r @ sized b" "rq_body r = view post (length (env_image r) + 8) (length b)"
    and "length (env_image r) + length b + 24 + length (enc_files r) + length (enc_pairs (rq_args r)) < two64"
  shows "\<exists>h' post'. complete_post post (r, h) = (Inr (), (r, h')) \<and> whole_buffer h' post' \<and> db_data post' = db_data post \<and>
    content h' (rq_body r) = b \<and> db_ok h' (rq_body r) \<and> content h' post' = request_image h' r"
proof -
  let ?old = "env_image r @ sized b" and ?new = "sized (enc_files r) @ sized (enc_pairs (rq_args r))"
  obtain a where a: "db_data post = Some a" using assms(1) unfolding whole_buffer_def by blast
  have ok: "db_ok h post" "db_begin post = 0" "db_end post = length (heap_bytes h post)"
    using assms(1) unfolding whole_buffer_def by blast+
  have sz: "db_size post = length ?old" using ok(1) assms(2) by simp
  have n: "wadd (wadd (wadd (db_size post) 16) (filesSerializedSize r)) (argsSerializedSize r) = length (?old @ ?new)"
    using assms(4) unfolding sz by (simp add: filesSerializedSize_length argsSerializedSize_def pairs_size_length wadd_small)
  obtain h1 post' where 1: "db_resize h post (length (?old @ ?new)) = Inr (h1, post')" "db_ok h1 post'"
    "content h1 post' = vec_resize ?old (length (?old @ ?new))" "db_data post' = Some a" "db_begin post' = 0"
    "db_end post' = length (heap_bytes h1 post')"
    using db_resize_content[OF ok(1) a, of "length (?old @ ?new)"] assms(2,4) ok(2,3) by auto
  have w1: "whole_buffer h1 post'" using 1(2,4-6) unfolding whole_buffer_def by simp
  have p1: "prefix ?old (content h1 post')" "length (content h1 post') = length (?old @ ?new)" by (simp_all add: 1(3) vec_resize_def)
  have "writes post' h1 (\<lambda>ph. bindE (serializeFiles r post' ph) (serializeArgs r post')) ?new"
    using assms(4) by (intro writes_seq writes_files writes_args) simp_all
  then obtain h2 where 2: "bindE (serializeFiles r post' (length ?old, h1)) (serializeArgs r post') = Inr (length ?old + length ?new, h2)"
    "whole_buffer h2 post'" "prefix (?old @ ?new) (content h2 post')" "length (content h2 post') = length (content h1 post')"
    using writes_whole[OF _ w1 p1(1), of "\<lambda>ph. bindE (serializeFiles r post' ph) (serializeArgs r post')" ?new] p1(2)
    by (metis length_append le_refl)
  have c: "content h2 post' = ?old @ ?new"
    using prefix_full[OF 2(3)] 2(4) p1(2) by simp
  have "bindE (db_resize h post (wadd (wadd (wadd (db_size post) 16) (filesSerializedSize r)) (argsSerializedSize r)))
      (\<lambda>(h, post'). bindE (serializeFiles r post' (db_size post, h)) (serializeArgs r post')) = Inr (length ?old + length ?new, h2)"
    unfolding sz n[unfolded sz] 1(1) by (simp only: bindE_simps prod.case 2(1))
  moreover have "\<not> db_isNil post" using a by (simp add: db_isNil_def)
  ultimately have "complete_post post (r, h) = (Inr (), (r, h2))"
    by (simp only: complete_post_def prod.case if_False sum.case)
  moreover have b: "rq_body r = view post' (length (env_image r) + 8) (length b)"
    using assms(3) view_other[of post' post] a 1(4) by simp
  then have "content h2 (rq_body r) = b" "db_ok h2 (rq_body r)"
    using view_content[OF 2(2), of "length (env_image r) + 8" "length b"] by (simp_all add: c sized_def)
  ultimately show ?thesis using 2(2) 1(4) a c
    by (intro exI[of _ h2] exI[of _ post']) (simp add: request_image_def env_image_def)
qed

text \<open>The arguments of any body that is not multipart.\<close>

lemma parse_body_total:
  assumes "db_ok h (rq_body q)" "\<not> has_type ''multipart/form-data'' (getContentType q)"
  shows "\<exists>vs. parse_body (q, h) = (Inr (), (q\<lparr>rq_args := rq_args q @ vs\<rparr>, h)) \<and> length (enc_pairs vs) \<le> 17 * length (content h (rq_body q))"
proof (cases "has_type ''text/plain'' (getContentType q) \<or> has_type ''application/octet-stream'' (getContentType q)")
  case True
  then show ?thesis using assms(2) by (intro exI[of _ "[]"]) (auto simp: parse_body_def Let_def enc_pairs_def)
next
  case False
  obtain vs where "parse_buffer h (rq_body q) (rq_args q) = (Inr (), rq_args q @ vs)" "length (enc_pairs vs) \<le> 17 * length (content h (rq_body q))"
    using parse_buffer_total[OF assms(1)] by blast
  then show ?thesis using False assms(2) by (intro exI[of _ vs]) (auto simp: parse_body_def Let_def)
qed

lemma on_request_modify: "on_request (modifyS f) (r, h) = (Inr (), (f r, h))"
  by (simp add: on_request_def modifyS_def)

lemma attach_post_cached:
  assumes "rq_cache r = Some cache" "rq_stream r = Some io" "getContentLength lib r = Inr (int n)" "rc_minPostSize cache \<le> n"
    and "n \<le> length (io_input io)" "cache_creates cache h" "\<not> has_type ''multipart/form-data'' (getContentType r)" "rq_files r = []"
    and "length (env_image r) + 48 + 18 * n + length (enc_pairs (parse_string (getQueryString r) (rq_args r))) < two64"
  shows "\<exists>r' h' post vs. attach_post lib (r, h) = (Inr (), (r', h')) \<and> whole_buffer h' post \<and> content h' post = request_image h' r' \<and>
    content h' (rq_body r') = take n (io_input io) \<and> db_ok h' (rq_body r') \<and>
    r' = r\<lparr>rq_body := rq_body r', rq_stream := Some (io\<lparr>io_input := drop n (io_input io)\<rparr>),
      rq_args := parse_string (getQueryString r) (rq_args r) @ vs\<rparr> \<and> length (enc_pairs vs) \<le> 17 * n"
proof -
  let ?e = "length (env_image r)" and ?b = "take n (io_input io)" and ?io = "io\<lparr>io_input := drop n (io_input io)\<rparr>"
  have sz: "uint64_of_streamsize (int n) = n" using assms(9) by (simp add: uint64_of_streamsize_def two64_def)
  obtain h1 post where m: "make_body n (r, h) = (Inr post, (r\<lparr>rq_body := view post (?e + 8) n\<rparr>, h1))" "whole_buffer h1 post"
    "prefix (env_image r @ int_bytes n) (content h1 post)" "length (content h1 post) = ?e + 8 + n"
    using make_body_cached[OF assms(1,4,6)] assms(9) by auto
  let ?r1 = "r\<lparr>rq_body := view post (?e + 8) n\<rparr>"
  obtain h2 where b: "read_body n (?r1, h1) = (Inr (), (?r1\<lparr>rq_stream := Some ?io\<rparr>, h2))" "whole_buffer h2 post"
    "content h2 post = (env_image r @ int_bytes n) @ ?b"
    using read_body_cached[OF m(2,3), of n ?r1 io] m(4) assms(2,5) by auto
  have b2: "content h2 post = env_image r @ sized ?b" using b(3) assms(5) by (simp add: sized_def)
  let ?q = "add_query (getQueryString r) (?r1\<lparr>rq_stream := Some ?io\<rparr>)"
  have q: "rq_body ?q = view post (?e + 8) n" "getContentType ?q = getContentType r"
    by (simp_all add: add_query_def getContentType_def)
  have cb: "db_ok h2 (rq_body ?q)" "content h2 (rq_body ?q) = ?b"
    using view_content[OF b(2), of "?e + 8" n] b(3) assms(5) by (simp_all add: q(1))
  obtain vs where v: "parse_body (?q, h2) = (Inr (), (?q\<lparr>rq_args := rq_args ?q @ vs\<rparr>, h2))" "length (enc_pairs vs) \<le> 17 * n"
    using parse_body_total[OF cb(1)] assms(5,7) cb(2) q(2) by auto
  let ?r' = "?q\<lparr>rq_args := rq_args ?q @ vs\<rparr>"
  have e: "env_image ?r' = env_image r" "rq_files ?r' = []" using assms(8) by (simp_all add: env_image_def add_query_def)
  have "length (enc_pairs (rq_args ?r')) = length (enc_pairs (parse_string (getQueryString r) (rq_args r))) + length (enc_pairs vs)"
    by (simp add: add_query_def enc_pairs_def)
  then obtain h3 post' where c: "complete_post post (?r', h2) = (Inr (), (?r', h3))" "whole_buffer h3 post'"
    "content h3 (rq_body ?r') = ?b" "db_ok h3 (rq_body ?r')" "content h3 post' = request_image h3 ?r'"
    using complete_post_cached[OF b(2), of ?r' ?b] b2 e q(1) assms(5,9) v(2) by (auto simp: enc_files_def)
  have "attach_post lib (r, h) = bindS (read_body n) (\<lambda>_.
      bindS (on_request (modifyS (add_query (getQueryString r)))) (\<lambda>_. bindS parse_body (\<lambda>_. complete_post post))) (?r1, h1)"
    using bindS_Inr[where m = "make_body n", OF m(1)]
    by (simp add: attach_post_def bind_get bind_lift assms(3) sz Let_def add_query_any)
  also have "\<dots> = bindS parse_body (\<lambda>_. complete_post post) (?q, h2)"
    by (simp only: bindS_Inr[where m = "read_body n", OF b(1)]
        bindS_Inr[where m = "on_request (modifyS (add_query (getQueryString r)))", OF on_request_modify])
  also have "\<dots> = (Inr (), (?r', h3))"
    using v(1) c(1) by (simp add: bindS_def)
  finally have "attach_post lib (r, h) = (Inr (), (?r', h3))" .
  then show ?thesis using c v(2) by (intro exI[of _ ?r'] exI[of _ h3] exI[of _ post'] exI[of _ vs]) (simp add: add_query_def)
qed

section \<open>Properties\<close>

text \<open>
  C10. A posted body that is large enough for the cache, of any type but multipart, is read into a file of the cache, window by
  window; \<^verbatim>\<open>attach\<close> succeeds, the body of the request is what the stream gave, and the file holds the image of the
  request, from which it can be read back as the same request.
\<close>

theorem attach_cached:
  assumes "r1 = parse_env envp ((RequestImpl_new (Some cache))\<lparr>rq_stream := Some io\<rparr>)" "getRequestMethod r1 \<in> {''POST'', ''PUT''}"
    and "getContentLength lib r1 = Inr (int n)" "rc_minPostSize cache \<le> n" "n \<le> length (io_input io)" "cache_creates cache h"
    and "\<not> has_type ''multipart/form-data'' (getContentType r1)"
    and "length (env_image r1) + 48 + 18 * n + length (enc_pairs (parse_string (getQueryString r1) [])) \<le> string_max_size"
  shows "\<exists>r' h' post r''. attach lib (Some io) (Some envp) (RequestImpl_new (Some cache), h) = (Inr (), (r', h')) \<and>
    content h' (rq_body r') = take n (io_input io) \<and> rq_headers r' = rq_headers r1 \<and> rq_cookies r' = rq_cookies r1 \<and>
    rq_vars r' = rq_vars r1 \<and> prefix (parse_string (getQueryString r1) []) (rq_args r') \<and>
    content h' post = request_image h' r' \<and> rq_parse h' post (RequestImpl_new rc) = (Inr (), r'') \<and> same_request h' r'' h' r'"
proof -
  have k: "rq_cache r1 = Some cache" "rq_stream r1 = Some io" "rq_args r1 = []"
    using assms(1) parse_env_keeps[of envp "(RequestImpl_new (Some cache))\<lparr>rq_stream := Some io\<rparr>"]
    by (simp_all add: RequestImpl_new_def rq_reset_def)
  have f: "rq_files r1 = []" using assms(1) parse_env_body by (simp add: RequestImpl_new_def rq_reset_def)
  have wf: "rq_wf r1" unfolding assms(1) by (intro rq_wf_parse_env) simp
  have small: "length (env_image r1) + 48 + 18 * n + length (enc_pairs (parse_string (getQueryString r1) (rq_args r1))) < two64"
    using assms(8) k(3) by (simp add: string_max_size_def two64_def)
  obtain r' h' post vs where a: "attach_post lib (r1, h) = (Inr (), (r', h'))" "whole_buffer h' post" "content h' post = request_image h' r'"
    "content h' (rq_body r') = take n (io_input io)" "db_ok h' (rq_body r')"
    "r' = r1\<lparr>rq_body := rq_body r', rq_stream := Some (io\<lparr>io_input := drop n (io_input io)\<rparr>),
      rq_args := parse_string (getQueryString r1) (rq_args r1) @ vs\<rparr>" "length (enc_pairs vs) \<le> 17 * n"
    using attach_post_cached[OF k(1,2) assms(3-7) f small] by blast
  then obtain body where q: "r' = r1\<lparr>rq_body := body, rq_stream := Some (io\<lparr>io_input := drop n (io_input io)\<rparr>),
      rq_args := parse_string (getQueryString r1) (rq_args r1) @ vs\<rparr>" by blast
  have r': "rq_headers r' = rq_headers r1" "rq_cookies r' = rq_cookies r1" "rq_vars r' = rq_vars r1" "rq_files r' = []"
    "rq_args r' = parse_string (getQueryString r1) [] @ vs" "rq_wf r'"
    using f k(3) wf by (simp_all add: q rq_wf_def)
  have "length (request_image h' r') = length (env_image r1) + 24 + n + length (enc_pairs (parse_string (getQueryString r1) [])) + length (enc_pairs vs)"
    using r' a(4) assms(5) by (simp add: length_request_image length_env_image enc_files_def enc_pairs_def)
  then have st: "storable h' r'" using r'(4,6) a(5,7) assms(8) by (simp add: storable_def)
  have "rq_parse h' post (RequestImpl_new rc) = (Inr (), rebuilt rc post r')"
    using st by (intro parse_image[OF a(2,3)]) (simp_all add: storable_def)
  moreover have "same_request h' (rebuilt rc post r') h' r'" by (rule rebuilt_same[OF a(2,3) st])
  moreover have "attach lib (Some io) (Some envp) (RequestImpl_new (Some cache), h) = (Inr (), (r', h'))"
    using attach_post_step[OF assms(1,2)] a(1) by simp
  ultimately show ?thesis using r'(1-3,5) a(3,4)
    by (intro exI[of _ r'] exI[of _ h'] exI[of _ post] exI[of _ "rebuilt rc post r'"]) simp
qed

text \<open>A cache whose files are mapped in windows of four bytes.\<close>

definition window_cache :: request_cache where
  "window_cache = \<lparr>rc_minPostSize = 5, rc_create = (\<lambda>h. (h @ [FileBuffer \<lparr>fb_name = ''/c/k'', fb_bytes = [], fb_window = 4\<rparr>],
     \<lparr>db_data = Some (length h), db_begin = 0, db_end = 0\<rparr>))\<rparr>"

theorem attach_cached_witness:
  "\<exists>r' h' post. attach post_boost (Some post_stream) (Some post_env) (RequestImpl_new (Some window_cache), []) = (Inr (), (r', h')) \<and>
    content h' (rq_body r') = ''a=1&b=2'' \<and> content h' post = request_image h' r'"
proof -
  let ?r1 = "parse_env post_env ((RequestImpl_new (Some window_cache))\<lparr>rq_stream := Some post_stream\<rparr>)"
  have f1: "getRequestMethod ?r1 = ''POST''" by code_simp
  have f2: "getContentLength post_boost ?r1 = Inr (int 7)" by code_simp
  have f3: "getContentType ?r1 = []" by code_simp
  have h: "rq_headers ?r1 = [(''CONTENT-LENGTH'', ''7'')]" by code_simp
  have v: "rq_vars ?r1 = [(''REQUEST_METHOD'', ''POST''), (''QUERY_STRING'', ''q=1'')]" by code_simp
  have c: "rq_cookies ?r1 = []" by code_simp
  have "getQueryString ?r1 = ''q=1''" by code_simp
  moreover have "parse_string ''q=1'' [] = [(''q'', ''1'')]" by code_simp
  ultimately have "parse_string (getQueryString ?r1) [] = [(''q'', ''1'')]" by simp
  note parts = h v c this
  have f4: "length (env_image ?r1) + 48 + 18 * 7 + length (enc_pairs (parse_string (getQueryString ?r1) [])) \<le> string_max_size"
    unfolding length_env_image parts by (simp add: enc_pairs_def enc_pair_def string_max_size_def)
  have m: "getRequestMethod ?r1 \<in> {''POST'', ''PUT''}" "\<not> has_type ''multipart/form-data'' (getContentType ?r1)"
    unfolding f1 f3 by code_simp+
  have w: "rc_minPostSize window_cache \<le> 7" "7 \<le> length (io_input post_stream)" "take 7 (io_input post_stream) = ''a=1&b=2''"
    by (simp_all add: window_cache_def post_stream_def)
  have c: "cache_creates window_cache []"
    by (simp add: cache_creates_def window_cache_def whole_buffer_def db_ok_def impl_ok_def fb_ok_def heap_bytes_def)
  show ?thesis
    using attach_cached[OF refl m(1) f2 w(1,2) c m(2) f4, of None] w(3) by metis
qed

end
