(* ===== verification/Request_Facade.thy ===== *)
theory Request_Facade
  imports Request_Impl
begin

text \<open>
  What \<^verbatim>\<open>Request\<close> (\<^verbatim>\<open>library/request.cpp\<close>) adds to \<^verbatim>\<open>RequestImpl\<close>: the address of a request and the redirections. Its
  other functions forward to \<^verbatim>\<open>RequestImpl\<close>, see \<open>Request_Methods\<close>. A redirection is shown to send the status
  302 and the new place (\<open>redirect_header\<close>).
\<close>

definition isProcessed :: "request_impl \<Rightarrow> bool" where
  "isProcessed r = rq_processed r"

definition requestBody :: "request_impl \<Rightarrow> data_buffer" where
  "requestBody r = rq_body r"

definition rq_status_get :: "request_impl \<Rightarrow> nat" where
  "rq_status_get r = rq_status r"

definition getURI :: "request_impl \<Rightarrow> string" where
  "getURI r = (let res = getScriptName r @ getPathInfo r; query_string = getQueryString r in
     if query_string \<noteq> [] then res @ ''?'' @ query_string else res)"

definition getUrl :: "request_impl \<Rightarrow> string" where
  "getUrl r = (if isSecure r then ''https://'' else ''http://'') @ getHost r @ getURI r"

definition redirectToPath :: "boost \<Rightarrow> string \<Rightarrow> (request_impl, unit) st" where
  "redirectToPath lib path = bindS (setStatus lib 302) (\<lambda>_. setHeader ''Location'' path)"

definition redirectBack :: "boost \<Rightarrow> (request_impl, unit) st" where
  "redirectBack lib = bindS getS (\<lambda>r. redirectToPath lib (getHeader r ''Referer''))"

definition setContentType :: "string \<Rightarrow> (request_impl, unit) st" where
  "setContentType type = setHeader ''Content-type'' type"

definition setContentEncoding :: "string \<Rightarrow> (request_impl, unit) st" where
  "setContentEncoding encoding = setHeader ''Content-encoding'' encoding"

lemma setHeader_replaces:
  assumes "\<not> rq_headers_sent r" "list_all (\<lambda>c. \<not> isspace c \<and> c \<noteq> NUL) n" "n \<noteq> []" "last n \<noteq> CHR ''-''"
  obtains r' where "setHeader n v r = (Inr (), r')" "rq_status r' = rq_status r" "rq_headers_sent r' = rq_headers_sent r"
    "\<And>k. outputHeader r' k = (if StringCIEqual n k then v else outputHeader r k)"
proof -
  have "\<forall>c\<in>set n. \<not> isspace c \<and> c \<noteq> NUL" using assms(2) by (simp add: list_all_iff)
  from normalizeOutputHeaderName_ci[OF this assms(3,4)]
  have "StringCIEqual (normalizeOutputHeaderName n) k = StringCIEqual n k" for k
    using header_map.eq_sym header_map.eq_trans by blast
  then show ?thesis
    using assms(1) that[of "put_out_header (normalizeOutputHeaderName n) v r"]
    by (simp add: setHeader_def bindS_def getS_def modifyS_def put_out_header_def outputHeader_def Parser_get_def
        header_map.find_put)
qed

text \<open>A redirection replaces the status and the header for the place, in any spelling, and no other header.\<close>

lemma redirect_header:
  assumes "\<not> rq_headers_sent r"
  shows "\<exists>r'. redirectToPath lib path r = (Inr (), r') \<and> rq_status r' = 302 \<and>
    (\<forall>k. outputHeader r' k = (if StringCIEqual ''Location'' k then path else outputHeader r k))"
proof -
  have n: "list_all (\<lambda>c. \<not> isspace c \<and> c \<noteq> NUL) ''Location''" by code_simp
  have "\<not> rq_headers_sent (r\<lparr>rq_status := 302\<rparr>)" using assms by simp
  from setHeader_replaces[OF this n, of path] obtain r' where "setHeader ''Location'' path (r\<lparr>rq_status := 302\<rparr>) = (Inr (), r')"
    "rq_status r' = 302" "\<And>k. outputHeader r' k = (if StringCIEqual ''Location'' k then path else outputHeader (r\<lparr>rq_status := 302\<rparr>) k)"
    by auto
  then show ?thesis
    using assms by (simp add: redirectToPath_def setStatus_def bindS_def getS_def modifyS_def outputHeader_def)
qed

lemma redirect_back:
  assumes "\<not> rq_headers_sent r"
  shows "\<exists>r'. redirectBack lib r = (Inr (), r') \<and> rq_status r' = 302 \<and> outputHeader r' ''Location'' = getHeader r ''Referer''"
  using redirect_header[OF assms, of lib "getHeader r ''Referer''"] header_map.eq_refl[of "''Location''"]
  by (auto simp: redirectBack_def bindS_def getS_def)

end
