(* ===== verification/Fcgi_Request.thy ===== *)
theory Fcgi_Request
  imports Request_Facade Handler_Set Statistics
begin

text \<open>
  A request on a FastCGI connection (\<^verbatim>\<open>main/fcgi_request.cpp\<close>). The FastCGI library is a parameter: what its calls
  return, and the environment it hands over. The stream that a \<open>request_impl\<close> writes to is the connection; the
  text of the exception of a failed write is \<open>write_error\<close>, which describes the request with the address and,
  for a form, with its arguments, cut when they get long (\<open>request_info_cut\<close>). The destructor reports the time the
  request took (\<open>request_time_counted\<close>).
\<close>

section \<open>The connection\<close>

record time_val =
  tv_sec :: int
  tv_usec :: int

record ('r, 'h) fcgi_request =
  fr_url :: string
  fr_logTimes :: bool
  fr_accept_time :: time_val
  fr_handler :: "('r, 'h) handler_description option"

definition DAEMON_STRING :: string where
  "DAEMON_STRING = ''fastcgi-daemon''"

text \<open>The times are set when they are first needed.\<close>

definition FastcgiRequest_new :: "int \<Rightarrow> bool \<Rightarrow> time_val \<Rightarrow> ('r, 'h) fcgi_request result" where
  "FastcgiRequest_new init_result logTimes t0 =
     (if init_result \<noteq> 0 then Inl (RuntimeError ''can not init fastcgi request'')
      else Inr \<lparr>fr_url = [], fr_logTimes = logTimes, fr_accept_time = t0, fr_handler = None\<rparr>)"

fun find_url :: "string list \<Rightarrow> string option" where
  "find_url [] = None"
| "find_url (e # envp) = (if strncasecmp 12 e ''REQUEST_URI='' = 0 then Some (drop 12 e) else find_url envp)"

definition fr_attach :: "string list \<Rightarrow> ('r, 'h) fcgi_request \<Rightarrow> ('r, 'h) fcgi_request" where
  "fr_attach envp f = (case find_url envp of None \<Rightarrow> f | Some url \<Rightarrow> f\<lparr>fr_url := url\<rparr>)"

definition fr_accept :: "int \<Rightarrow> bool \<Rightarrow> time_val \<Rightarrow> ('r, 'h) fcgi_request \<Rightarrow> int \<times> ('r, 'h) fcgi_request" where
  "fr_accept status has_statistics now f =
     (status, if status \<ge> 0 \<and> (fr_logTimes f \<or> has_statistics) then f\<lparr>fr_accept_time := now\<rparr> else f)"

definition setHandlerDesc :: "('r, 'h) handler_description option \<Rightarrow> ('r, 'h) fcgi_request \<Rightarrow> ('r, 'h) fcgi_request" where
  "setHandlerDesc handler f = f\<lparr>fr_handler := handler\<rparr>"

section \<open>The text of a failed write\<close>

fun info_args :: "(string \<times> string) list \<Rightarrow> string \<Rightarrow> string \<times> bool" where
  "info_args [] result = (result, False)"
| "info_args ((nam, val) # args) result =
     (let result = (if result \<noteq> [] then result @ ''&'' else result) @ nam @ ''='' in
      if length result + length val > 1024 then (result, True) else info_args args (result @ val))"

definition named_args :: "request_impl \<Rightarrow> (string \<times> string) list" where
  "named_args r = concat (map (\<lambda>nam. map (Pair nam) (getArgs r nam)) (argNames r))"

definition generateRequestInfo :: "request_impl \<Rightarrow> string" where
  "generateRequestInfo r =
     (let url = ''Url: '' @ getUrl r in
      if ''POST'' \<noteq> getRequestMethod r \<and> ''PUT'' \<noteq> getRequestMethod r then url
      else (case info_args (named_args r) [] of
        (result, True) \<Rightarrow> url @ ''. Args: '' @ result @ ''...''
      | (result, False) \<Rightarrow> url @ ''. Args: '' @ result))"

text \<open>\<open>put_result\<close> is what \<^verbatim>\<open>FCGX_PutStr\<close> returns, \<open>fcgx_error\<close> and \<open>strerror\<close> the error it reports.\<close>

definition write_error :: "int \<Rightarrow> (int \<Rightarrow> string) \<Rightarrow> request_impl \<Rightarrow> string" where
  "write_error fcgx_error strerror r =
     (if fcgx_error > 0 then ''Cannot write data to fastcgi socket: '' @ strerror fcgx_error @ ''. ''
      else ''FastCGI error. '') @ generateRequestInfo r"

definition fr_write :: "int \<Rightarrow> int \<Rightarrow> (int \<Rightarrow> string) \<Rightarrow> request_impl \<Rightarrow> int result" where
  "fr_write put_result fcgx_error strerror r =
     (if put_result = -1 then Inl (RuntimeError (write_error fcgx_error strerror r)) else Inr put_result)"

section \<open>The end of a request\<close>

text \<open>
  \<^verbatim>\<open>~FastcgiRequest\<close>: the time is computed in signed arithmetic and converted to an unsigned number.
  \<open>show_seconds\<close> is the format of \<^verbatim>\<open>printf\<close>.
\<close>

definition microseconds :: "time_val \<Rightarrow> time_val \<Rightarrow> 64 word" where
  "microseconds finish start = word_of_int ((tv_sec finish - tv_sec start) * 1000000 + (tv_usec finish - tv_usec start))"

definition fr_destroy ::
  "(64 word \<Rightarrow> string) \<Rightarrow> time_val \<Rightarrow> request_impl \<Rightarrow> ('r, 'h) fcgi_request \<Rightarrow> statistics option \<Rightarrow> statistics option \<times> string list" where
  "fr_destroy show_seconds finish r f stats =
     (let microsec = (if fr_logTimes f \<or> stats \<noteq> None then microseconds finish (fr_accept_time f) else 0) in
      (map_option (statistics_add (case fr_handler f of None \<Rightarrow> DAEMON_STRING | Some d \<Rightarrow> hd_id d) (rq_status r) microsec) stats,
       if fr_logTimes f then [''handling '' @ fr_url f @ '' taken '' @ show_seconds microsec @ '' seconds''] else []))"

section \<open>Arguments in the text of an exception\<close>

text \<open>The arguments as they would be written without a limit.\<close>

fun args_text :: "(string \<times> string) list \<Rightarrow> string" where
  "args_text [] = []"
| "args_text [(nam, val)] = nam @ ''='' @ val"
| "args_text ((nam, val) # args) = nam @ ''='' @ val @ ''&'' @ args_text args"

definition args_tail :: "(string \<times> string) list \<Rightarrow> string \<Rightarrow> string" where
  "args_tail args result = (if args = [] then result else if result = [] then args_text args else result @ ''&'' @ args_text args)"

lemma args_tail_Cons:
  "args_tail ((nam, val) # args) result = args_tail args ((if result \<noteq> [] then result @ ''&'' else result) @ nam @ ''='' @ val)"
  by (cases args) (simp_all add: args_tail_def)

lemma info_args_cut:
  assumes "info_args args result = (text, short)" "length result \<le> 1024"
  shows "if short then (\<exists>nam\<in>fst ` set args. length text \<le> 1026 + length nam) \<and> prefix text (args_tail args result)
     else length text \<le> 1024 \<and> text = args_tail args result"
  using assms
proof (induction args arbitrary: result)
  case Nil
  then show ?case by (auto simp: args_tail_def)
next
  case (Cons a args)
  obtain nam val where a: "a = (nam, val)" by (cases a)
  let ?res = "(if result \<noteq> [] then result @ ''&'' else result) @ nam @ ''=''"
  have len: "length ?res \<le> 1026 + length nam" using Cons.prems(2) by simp
  have tail: "args_tail (a # args) result = args_tail args (?res @ val)"
    by (simp add: a args_tail_Cons)
  show ?case
  proof (cases "length ?res + length val > 1024")
    case True
    then have t: "text = ?res" "short" using Cons.prems(1) by (auto simp: a Let_def split: if_splits)
    have "prefix (?res @ val) (args_tail args (?res @ val))" by (auto simp: args_tail_def)
    then have "prefix ?res (args_tail args (?res @ val))" by (rule append_prefixD)
    then show ?thesis using t len tail by (auto simp: a)
  next
    case False
    then have "info_args args (?res @ val) = (text, short)" "length (?res @ val) \<le> 1024"
      using Cons.prems(1) by (simp_all add: a Let_def split: if_splits)
    from Cons.IH[OF this] show ?thesis unfolding tail by (auto simp: a split: if_splits)
  qed
qed

section \<open>Properties\<close>

text \<open>
  The text of a failed write names the address of the request and, for a posted form, its arguments: all of
  them when they take at most 1024 characters, otherwise a part from their begin, at most the name of an
  argument and two characters longer than that, followed by dots.
\<close>

theorem request_info_cut:
  assumes "getRequestMethod r \<in> {''POST'', ''PUT''}"
  shows "(generateRequestInfo r = ''Url: '' @ getUrl r @ ''. Args: '' @ args_text (named_args r) \<and> length (args_text (named_args r)) \<le> 1024) \<or>
    (\<exists>part nam. generateRequestInfo r = ''Url: '' @ getUrl r @ ''. Args: '' @ part @ ''...'' \<and> prefix part (args_text (named_args r)) \<and>
       nam \<in> set (argNames r) \<and> length part \<le> 1026 + length nam)"
proof -
  obtain part short where i: "info_args (named_args r) [] = (part, short)" by fastforce
  have tail: "args_tail (named_args r) [] = args_text (named_args r)" by (cases "named_args r") (simp_all add: args_tail_def)
  have names: "fst ` set (named_args r) \<subseteq> set (argNames r)" by (auto simp: named_args_def)
  have m: "\<not> (''POST'' \<noteq> getRequestMethod r \<and> ''PUT'' \<noteq> getRequestMethod r)" using assms by auto
  note c = info_args_cut[OF i, unfolded tail]
  show ?thesis
  proof (cases short)
    case True
    then obtain nam where "nam \<in> set (argNames r)" "length part \<le> 1026 + length nam" "prefix part (args_text (named_args r))"
      using c names by auto
    then show ?thesis using i True m by (auto simp: generateRequestInfo_def Let_def)
  next
    case False
    then show ?thesis using c i m by (auto simp: generateRequestInfo_def Let_def)
  qed
qed

theorem request_info_cut_witness:
  "prefix ''Url: http://'' (generateRequestInfo ((RequestImpl_new None)\<lparr>rq_vars := [(''REQUEST_METHOD'', ''POST'')]\<rparr>))"
proof -
  let ?r = "(RequestImpl_new None)\<lparr>rq_vars := [(''REQUEST_METHOD'', ''POST'')]\<rparr>"
  have "getRequestMethod ?r \<in> {''POST'', ''PUT''}" by (simp add: getRequestMethod_def Parser_get_def)
  then show ?thesis
    using request_info_cut[of ?r]
    by (auto simp: getUrl_def isSecure_def Parser_get_def)
qed

text \<open>
  C23. When a request ends and statistics are kept, exactly one time is counted: the microseconds since it was
  accepted, for the handler that was chosen, or for the daemon itself when there was none, and for the status of
  the reply. No other counter changes.
\<close>

theorem request_time_counted:
  assumes "statistics_wf data" "fr_destroy show_seconds finish r f (Some data) = (stats, lines)"
    and "us = (tv_sec finish - tv_sec (fr_accept_time f)) * 1000000 + (tv_usec finish - tv_usec (fr_accept_time f))"
    and "0 \<le> us" "us < 2 ^ 64" "h = (case fr_handler f of None \<Rightarrow> ''fastcgi-daemon'' | Some d \<Rightarrow> hd_id d)"
  shows "\<exists>data' t. stats = Some data' \<and> statistics_wf data' \<and> uint t = us \<and>
    (\<forall>h' st. statistics_find data' h' st =
      (if h' = h \<and> st = rq_status r
       then Some (counter_add t (case statistics_find data h st of Some c \<Rightarrow> c | None \<Rightarrow> CounterData_new))
       else statistics_find data h' st))"
proof -
  let ?t = "microseconds finish (fr_accept_time f)"
  have "?t = word_of_int us" unfolding microseconds_def assms(3) ..
  then have "uint ?t = us" using assms(4,5) by (simp add: uint_word_of_int)
  moreover have "stats = Some (statistics_add h (rq_status r) ?t data)"
    using assms(2,6) by (auto simp: fr_destroy_def DAEMON_STRING_def Let_def split: option.splits)
  ultimately show ?thesis
    using statistics_find_add[OF assms(1), of h "rq_status r" ?t] by (auto intro!: exI[of _ ?t])
qed

theorem request_time_counted_witness:
  "\<exists>data' t. uint t = 1500000 \<and> statistics_find data' ''fastcgi-daemon'' 200 = Some (counter_add t CounterData_new)"
proof -
  let ?f = "\<lparr>fr_url = [], fr_logTimes = False, fr_accept_time = \<lparr>tv_sec = 10, tv_usec = 700000\<rparr>, fr_handler = None\<rparr>
    :: (string, nat) fcgi_request"
  have w: "statistics_wf []" by (simp add: statistics_wf_def sm_sorted_def sm_find_def)
  have d: "fr_destroy (\<lambda>t. []) \<lparr>tv_sec = 12, tv_usec = 200000\<rparr> (RequestImpl_new None) ?f (Some []) =
      (Some (statistics_add ''fastcgi-daemon'' 200 (microseconds \<lparr>tv_sec = 12, tv_usec = 200000\<rparr> \<lparr>tv_sec = 10, tv_usec = 700000\<rparr>) []), [])"
    by (simp add: fr_destroy_def DAEMON_STRING_def RequestImpl_new_def rq_reset_def)
  have s: "rq_status (RequestImpl_new None) = 200" by (simp add: RequestImpl_new_def rq_reset_def)
  have n: "statistics_find [] h st = None" for h st by (simp add: statistics_find_def sm_find_def)
  from request_time_counted[OF w d, of 1500000 "''fastcgi-daemon''"] obtain data' t where "uint t = 1500000"
    "\<forall>h' st. statistics_find data' h' st = (if h' = ''fastcgi-daemon'' \<and> st = 200 then Some (counter_add t CounterData_new) else None)"
    unfolding s n option.case by auto
  then show ?thesis by (intro exI[of _ data'] exI[of _ t]) simp
qed

end
