(* ===== verification/Fcgi_Server.thy ===== *)
theory Fcgi_Server
  imports Fcgi_Request Request_Attach Globals
begin

text \<open>
  The FastCGI server of the daemon (\<^verbatim>\<open>main/fcgi_server.cpp\<close>, \<^verbatim>\<open>main/endpoint.cpp\<close>): its endpoints with their busy
  counters, its life cycle, the threads that accept requests, and what is done with a request.

  The threads of the endpoints are a step relation (\<open>server_step\<close>), with a phase for every point at which another
  thread may run in between. The outcome of system calls and of the FastCGI library, and the work on a request,
  are the labels of the steps. The work itself is \<open>serve_request\<close>, which composes \<^verbatim>\<open>attach\<close> and the dispatch of
  \<open>Globals\<close>, with all that it logs on the way. The pools are part of the state, and of the steps here only the stop
  changes them: what requests and the threads of the pools do to them is composed with these steps in
  \<open>Daemon_Run\<close>.
\<close>

section \<open>Endpoints\<close>

record endpoint =
  ep_socket :: int
  ep_busy_count :: int
  ep_threads :: nat
  ep_socket_path :: string
  ep_socket_port :: string

text \<open>The parameter \<^verbatim>\<open>unsigned short threads\<close> takes the number modulo \<^verbatim>\<open>2^16\<close>.\<close>

definition Endpoint_new :: "string \<Rightarrow> string \<Rightarrow> nat \<Rightarrow> endpoint result" where
  "Endpoint_new path port threads =
     (if path = [] \<and> port = [] then Inl (RuntimeError ''Both /socket and /port param for endpoint is empty'')
      else Inr \<lparr>ep_socket = -1, ep_busy_count = 0, ep_threads = threads mod 65536, ep_socket_path = path, ep_socket_port = port\<rparr>)"

definition ep_toString :: "endpoint \<Rightarrow> string" where
  "ep_toString e = (if ep_socket_path e = [] then '':'' @ ep_socket_port e else ep_socket_path e)"

definition getBusyCounter :: "endpoint \<Rightarrow> nat" where
  "getBusyCounter e = nat (ep_busy_count e mod 65536)"

text \<open>
  \<open>open_socket\<close> is \<^verbatim>\<open>FCGX_OpenSocket\<close>, \<open>errno_text\<close> the number of the error. The access rights of the socket, which are
  set last, are not part of the state.
\<close>

definition openSocket :: "(string \<Rightarrow> int \<Rightarrow> int) \<Rightarrow> string \<Rightarrow> int \<Rightarrow> (endpoint, unit) st" where
  "openSocket open_socket errno_text backlog = (\<lambda>e.
     let s = open_socket (ep_toString e) backlog; e' = e\<lparr>ep_socket := s\<rparr> in
     if s = -1 then (Inl (RuntimeError (''can not open fastcgi socket: '' @ ep_toString e @ ''['' @ errno_text @ '']'')), e')
     else (Inr (), e'))"

definition incrementBusyCounter :: "endpoint \<Rightarrow> endpoint" where
  "incrementBusyCounter e = e\<lparr>ep_busy_count := ep_busy_count e + 1\<rparr>"

text \<open>A failed \<^verbatim>\<open>assert\<close> ends the program.\<close>

definition decrementBusyCounter :: "endpoint \<Rightarrow> endpoint result" where
  "decrementBusyCounter e = (if ep_busy_count e > 0 then Inr (e\<lparr>ep_busy_count := ep_busy_count e - 1\<rparr>) else Inl Terminate)"

text \<open>\<^verbatim>\<open>ScopedBusyCounter\<close>: the flag, and the endpoint it counts on.\<close>

definition scoped_increment :: "bool \<times> endpoint \<Rightarrow> bool \<times> endpoint" where
  "scoped_increment = (\<lambda>(incremented, e). if \<not> incremented then (True, incrementBusyCounter e) else (incremented, e))"

definition scoped_decrement :: "bool \<times> endpoint \<Rightarrow> (bool \<times> endpoint) result" where
  "scoped_decrement = (\<lambda>(incremented, e).
     if incremented then bindE (decrementBusyCounter e) (\<lambda>e. Inr (False, e)) else Inr (incremented, e))"

lemma scoped_counter [simp]:
  "scoped_increment (False, e) = (True, incrementBusyCounter e)" "scoped_decrement (False, e) = Inr (False, e)"
  "scoped_decrement (True, e) = Inr (b, e') \<longleftrightarrow> \<not> b \<and> decrementBusyCounter e = Inr e'"
  by (auto simp: scoped_increment_def scoped_decrement_def bindE_def split: sum.splits)

section \<open>Set-up\<close>

text \<open>\<open>to_unsigned\<close> is \<^verbatim>\<open>lexical_cast<unsigned>\<close>; \<^verbatim>\<open>SOMAXCONN\<close> is 128.\<close>

definition init_endpoint ::
  "config \<Rightarrow> (string \<Rightarrow> nat result) \<Rightarrow> (string \<Rightarrow> int \<Rightarrow> int) \<Rightarrow> string \<Rightarrow> string \<Rightarrow> endpoint list \<Rightarrow> endpoint list result" where
  "init_endpoint cfg to_unsigned open_socket errno_text i endpoints =
     bindE (cfg_asString_or cfg (i @ ''/socket'') []) (\<lambda>path.
     bindE (cfg_asString_or cfg (i @ ''/port'') []) (\<lambda>port.
     bindE (bindE (cfg_asString cfg (i @ ''/threads'')) to_unsigned) (\<lambda>threads.
     bindE (Endpoint_new path port threads) (\<lambda>e.
     bindE (cfg_asInt_or cfg (i @ ''/backlog'') 128) (\<lambda>backlog.
       case openSocket open_socket errno_text backlog e of
         (Inl err, _) \<Rightarrow> Inl err
       | (Inr _, e') \<Rightarrow> Inr (endpoints @ [e']))))))"

definition initFastCGISubsystem ::
  "int \<Rightarrow> config \<Rightarrow> (string \<Rightarrow> nat result) \<Rightarrow> (string \<Rightarrow> int \<Rightarrow> int) \<Rightarrow> string \<Rightarrow> endpoint list result" where
  "initFastCGISubsystem fcgx_init cfg to_unsigned open_socket errno_text =
     (if fcgx_init \<noteq> 0 then Inl (RuntimeError ''Cannot init fastcgi library'')
      else bindE (cfg_subKeys cfg ''/fastcgi/daemon/endpoint'') (\<lambda>v.
        bindE (foldE (init_endpoint cfg to_unsigned open_socket errno_text) v []) (\<lambda>endpoints.
          if endpoints = [] then Inl (RuntimeError ''You must specify at least one endpoint'') else Inr endpoints)))"

text \<open>
  The request cache and the statistics are components that the configuration may name; \<open>as_interface\<close> is the cast.
\<close>

definition optional_component ::
  "string \<Rightarrow> string \<Rightarrow> config \<Rightarrow> (string \<Rightarrow> ('s, 'c option) st) \<Rightarrow> ('c \<Rightarrow> 'i option) \<Rightarrow> ('s, 'i option) st" where
  "optional_component key interface cfg find_component as_interface =
     bindS (liftS (cfg_asString_or cfg key [])) (\<lambda>nam.
     bindS (find_component nam) (\<lambda>component.
     case component of None \<Rightarrow> returnS None
     | Some c \<Rightarrow> (case as_interface c of
         None \<Rightarrow> throwS (RuntimeError (''Component '' @ nam @ '' does not implement '' @ interface @ '' interface''))
       | Some i \<Rightarrow> returnS (Some i))))"

definition initRequestCache ::
  "config \<Rightarrow> (string \<Rightarrow> ('s, 'c option) st) \<Rightarrow> ('c \<Rightarrow> 'i option) \<Rightarrow> ('s, 'i option) st" where
  "initRequestCache = optional_component ''/fastcgi/daemon[count(request-cache)=1]/request-cache/@component'' ''RequestCache''"

definition initTimeStatistics ::
  "config \<Rightarrow> (string \<Rightarrow> ('s, 'c option) st) \<Rightarrow> ('c \<Rightarrow> 'i option) \<Rightarrow> ('s, 'i option) st" where
  "initTimeStatistics = optional_component ''/fastcgi/daemon[count(statistics)=1]/statistics/@component'' ''ResponseTimeStatistics''"

text \<open>
  \<^verbatim>\<open>initMonitorThread\<close>: the results of the system calls are parameters. The result of \<^verbatim>\<open>listen\<close> is compared with 1, so
  that its failure, which is -1, is not noticed.
\<close>

definition initMonitorThread :: "config \<Rightarrow> int \<Rightarrow> int \<Rightarrow> int \<Rightarrow> int \<Rightarrow> string \<Rightarrow> unit result" where
  "initMonitorThread cfg socket_result setsockopt_result bind_result listen_result errno_text =
     (if socket_result = -1 then Inl (RuntimeError ''Cannot create monitor socket'')
      else if setsockopt_result = -1 then Inl (RuntimeError (''Cannot reuse monitor port: '' @ errno_text))
      else bindE (cfg_asInt cfg ''/fastcgi/daemon/monitor_port'') (\<lambda>port.
        if bind_result = -1 then Inl (RuntimeError ''Cannot bind monitor port address'')
        else if listen_result = 1 then Inl (RuntimeError ''Cannot listen monitor port'')
        else Inr ()))"

section \<open>Life cycle\<close>

datatype server_status = NOT_INITED | LOADING | RUNNING

datatype phase = Loop | Held | Preparing | Accepting | Accepted int | Going int | Serving | Exited

text \<open>The threads of an endpoint are in the order in which they were created, with the number of their endpoint.\<close>

record 'h fcgi_server =
  sv_status :: server_status
  sv_stopped :: bool
  sv_endpoints :: "endpoint list"
  sv_workers :: "(nat \<times> phase) list"
  sv_pools :: "'h pools"
  sv_log :: "string list"

definition FCGIServer_new :: "'h pools \<Rightarrow> 'h fcgi_server" where
  "FCGIServer_new pools = \<lparr>sv_status = NOT_INITED, sv_stopped = False, sv_endpoints = [], sv_workers = [], sv_pools = pools, sv_log = []\<rparr>"

definition createWorkThreads :: "endpoint list \<Rightarrow> (nat \<times> phase) list" where
  "createWorkThreads endpoints = concat (map (\<lambda>i. replicate (ep_threads (endpoints ! i)) (i, Loop)) [0..<length endpoints])"

text \<open>
  \<^verbatim>\<open>start\<close>: an exception of a step leaves the server in the state \<^verbatim>\<open>LOADING\<close>. The pipe is made after the threads.
\<close>

definition server_start ::
  "unit result \<Rightarrow> int result \<Rightarrow> unit result \<Rightarrow> unit result \<Rightarrow> endpoint list result \<Rightarrow> int \<Rightarrow> ('h fcgi_server, unit) st" where
  "server_start pid_result log_times monitor_result components_result endpoints_result pipe_result = bindS getS (\<lambda>sv.
     if sv_status sv \<noteq> NOT_INITED then throwS (RuntimeError ''Server is already started'')
     else bindS (modifyS (\<lambda>sv. sv\<lparr>sv_status := LOADING\<rparr>)) (\<lambda>_.
       bindS (liftS pid_result) (\<lambda>_.
       bindS (liftS log_times) (\<lambda>_.
       bindS (liftS monitor_result) (\<lambda>_.
       bindS (liftS components_result) (\<lambda>_.
       bindS (liftS endpoints_result) (\<lambda>endpoints.
       bindS (modifyS (\<lambda>sv. sv\<lparr>sv_endpoints := endpoints, sv_workers := createWorkThreads endpoints\<rparr>)) (\<lambda>_.
       bindS (modifyS (\<lambda>sv. sv\<lparr>sv_status := RUNNING\<rparr>)) (\<lambda>_.
       if pipe_result = -1 then throwS (RuntimeError ''Cannot create stop signal pipes'') else returnS ()))))))))) "

definition stopInternal :: "('h fcgi_server, unit) st" where
  "stopInternal = bindS getS (\<lambda>sv.
     if sv_status sv = NOT_INITED then throwS (RuntimeError ''Cannot stop server because it is not started yet'')
     else if sv_status sv = LOADING then throwS (RuntimeError ''Cannot stop until loading finish'')
     else if sv_stopped sv then throwS (RuntimeError ''Server is already stopping'')
     else modifyS (\<lambda>sv. sv\<lparr>sv_stopped := True, sv_pools := stopThreadPools (sv_pools sv)\<rparr>))"

text \<open>Who holds \<^verbatim>\<open>active_thread_holder_\<close>, and who is counted as busy.\<close>

fun has_holder :: "phase \<Rightarrow> bool" where
  "has_holder Held = True"
| "has_holder Preparing = True"
| "has_holder Serving = True"
| "has_holder p = False"

fun is_busy_phase :: "phase \<Rightarrow> bool" where
  "is_busy_phase Preparing = True"
| "is_busy_phase Serving = True"
| "is_busy_phase p = False"

text \<open>\<^verbatim>\<open>join\<close> throws, or returns in these states and blocks in every other one.\<close>

definition server_join :: "'h fcgi_server \<Rightarrow> bool result" where
  "server_join sv = (if sv_status sv = NOT_INITED then Inl (RuntimeError ''Server is not started yet'')
     else Inr (joinThreadPools (sv_pools sv) \<and> list_all (\<lambda>w. \<not> has_holder (snd w)) (sv_workers sv)))"

section \<open>The threads of the endpoints\<close>

definition at_phase :: "'h fcgi_server \<Rightarrow> nat \<Rightarrow> nat \<Rightarrow> phase \<Rightarrow> bool" where
  "at_phase sv j i p \<longleftrightarrow> j < length (sv_workers sv) \<and> sv_workers sv ! j = (i, p) \<and> i < length (sv_endpoints sv)"

definition go :: "nat \<Rightarrow> nat \<Rightarrow> phase \<Rightarrow> 'h fcgi_server \<Rightarrow> 'h fcgi_server" where
  "go j i p sv = sv\<lparr>sv_workers := (sv_workers sv)[j := (i, p)]\<rparr>"

definition set_endpoint :: "nat \<Rightarrow> endpoint \<Rightarrow> 'h fcgi_server \<Rightarrow> 'h fcgi_server" where
  "set_endpoint i e sv = sv\<lparr>sv_endpoints := (sv_endpoints sv)[i := e]\<rparr>"

datatype server_event = TakeHolder nat | CheckTop nat | Prepared nat "string option" | AcceptReturns nat int
  | CheckAccepted nat | TakeAgain nat | Served nat "string list" | StopServer

text \<open>
  The steps of \<^verbatim>\<open>FCGIServer::handle\<close>. \<open>Prepared\<close> is the construction of the request, with the text of an exception;
  \<open>Served\<close> is the end of the work on a request, with the lines it has logged. The flag of the counter of a thread is
  set exactly in the phases of \<open>is_busy_phase\<close>; the destructor of a counter that is not set does nothing. A task that
  the work on a request adds to a pool, and what the threads of the pools do with it, are steps of their own on
  \<open>sv_pools\<close>, in \<open>daemon_step\<close>, which composes all of them.
\<close>

inductive server_step :: "'h fcgi_server \<Rightarrow> server_event \<Rightarrow> 'h fcgi_server \<Rightarrow> bool" where
  hold: "at_phase sv j i Loop \<Longrightarrow> server_step sv (TakeHolder j) (go j i Held sv)"
| top_stopped: "at_phase sv j i Held \<Longrightarrow> sv_stopped sv \<Longrightarrow> server_step sv (CheckTop j) (go j i Exited sv)"
| top: "at_phase sv j i Held \<Longrightarrow> \<not> sv_stopped sv \<Longrightarrow> scoped_increment (False, sv_endpoints sv ! i) = (b, e) \<Longrightarrow>
    server_step sv (CheckTop j) (go j i Preparing (set_endpoint i e sv))"
| prepared: "at_phase sv j i Preparing \<Longrightarrow> scoped_decrement (True, sv_endpoints sv ! i) = Inr (b, e) \<Longrightarrow>
    server_step sv (Prepared j None) (go j i Accepting (set_endpoint i e sv))"
| not_prepared: "at_phase sv j i Preparing \<Longrightarrow> scoped_decrement (True, sv_endpoints sv ! i) = Inr (b, e) \<Longrightarrow>
    server_step sv (Prepared j (Some msg)) (go j i Loop (set_endpoint i e (sv\<lparr>sv_log := sv_log sv @ [msg]\<rparr>)))"
| accept: "at_phase sv j i Accepting \<Longrightarrow> server_step sv (AcceptReturns j status) (go j i (Accepted status) sv)"
| accepted_stopped: "at_phase sv j i (Accepted status) \<Longrightarrow> sv_stopped sv \<Longrightarrow> server_step sv (CheckAccepted j) (go j i Exited sv)"
| accepted: "at_phase sv j i (Accepted status) \<Longrightarrow> \<not> sv_stopped sv \<Longrightarrow>
    server_step sv (CheckAccepted j) (go j i (Going status) sv)"
| failed: "at_phase sv j i (Going status) \<Longrightarrow> status < 0 \<Longrightarrow>
    server_step sv (TakeAgain j) (go j i Loop (sv\<lparr>sv_log := sv_log sv @
      [''caught exception while handling request: failed to accept fastcgi request: '' @ show_int status]\<rparr>))"
| serve: "at_phase sv j i (Going status) \<Longrightarrow> 0 \<le> status \<Longrightarrow> scoped_increment (False, sv_endpoints sv ! i) = (b, e) \<Longrightarrow>
    server_step sv (TakeAgain j) (go j i Serving (set_endpoint i e sv))"
| served: "at_phase sv j i Serving \<Longrightarrow> scoped_decrement (True, sv_endpoints sv ! i) = Inr (b, e) \<Longrightarrow>
    server_step sv (Served j lines) (go j i Loop (set_endpoint i e (sv\<lparr>sv_log := sv_log sv @ lines\<rparr>)))"
| stop_server: "stopInternal sv = (Inr (), sv') \<Longrightarrow> server_step sv StopServer sv'"

inductive_cases server_stepE: "server_step sv e sv'"

section \<open>The busy counter\<close>

definition busy_workers :: "'h fcgi_server \<Rightarrow> nat \<Rightarrow> nat" where
  "busy_workers sv i = length (filter (\<lambda>w. fst w = i \<and> is_busy_phase (snd w)) (sv_workers sv))"

definition server_inv :: "'h fcgi_server \<Rightarrow> bool" where
  "server_inv sv \<longleftrightarrow> (\<forall>w\<in>set (sv_workers sv). fst w < length (sv_endpoints sv)) \<and>
     (\<forall>i<length (sv_endpoints sv). ep_busy_count (sv_endpoints sv ! i) = int (busy_workers sv i))"

lemma busy_go:
  assumes "at_phase sv j i p" "sv_workers sv' = sv_workers sv"
  shows "int (busy_workers (go j i q sv') k) =
    int (busy_workers sv k) + (if k = i then (if is_busy_phase q then 1 else 0) - (if is_busy_phase p then 1 else 0) else 0)"
proof -
  let ?P = "\<lambda>w. fst w = k \<and> is_busy_phase (snd w)"
  have "length (filter ?P ((sv_workers sv)[j := (i, q)])) + (if ?P (sv_workers sv ! j) then 1 else 0) =
      length (filter ?P (sv_workers sv)) + (if ?P (i, q) then 1 else 0)"
    using assms(1) by (intro length_filter_update) (simp add: at_phase_def)
  moreover have "sv_workers sv ! j = (i, p)" using assms(1) by (simp add: at_phase_def)
  ultimately show ?thesis using assms(2) by (auto simp: busy_workers_def go_def split: if_splits)
qed

lemma go_fields [simp]:
  "sv_endpoints (go j i q sv) = sv_endpoints sv" "sv_stopped (go j i q sv) = sv_stopped sv"
  "length (sv_workers (go j i q sv)) = length (sv_workers sv)" "sv_status (go j i q sv) = sv_status sv"
  "sv_workers (set_endpoint i e sv) = sv_workers sv" "sv_stopped (set_endpoint i e sv) = sv_stopped sv"
  "sv_endpoints (set_endpoint i e sv) = (sv_endpoints sv)[i := e]" "sv_status (set_endpoint i e sv) = sv_status sv"
  by (simp_all add: go_def set_endpoint_def)

text \<open>A worker moves, and the counter of its endpoint changes as its phase says.\<close>

lemma server_inv_go:
  assumes "server_inv sv" "at_phase sv j i p" "sv_workers sv' = sv_workers sv" "length (sv_endpoints sv') = length (sv_endpoints sv)"
    and "\<And>k. k < length (sv_endpoints sv) \<Longrightarrow> ep_busy_count (sv_endpoints sv' ! k) = ep_busy_count (sv_endpoints sv ! k) +
      (if k = i then (if is_busy_phase q then 1 else 0) - (if is_busy_phase p then 1 else 0) else 0)"
  shows "server_inv (go j i q sv')"
proof -
  have "set (sv_workers (go j i q sv')) \<subseteq> insert (i, q) (set (sv_workers sv))"
    using set_update_subset_insert[of "sv_workers sv" j "(i, q)"] assms(3) by (simp add: go_def)
  moreover have "i < length (sv_endpoints sv)" using assms(2) by (simp add: at_phase_def)
  ultimately show ?thesis
    using assms busy_go[OF assms(2,3), of q] by (fastforce simp: server_inv_def)
qed

lemma decrement_busy:
  "decrementBusyCounter e = Inr e' \<Longrightarrow> ep_busy_count e' = ep_busy_count e - 1"
  by (auto simp: decrementBusyCounter_def split: if_splits)

lemma server_step_inv:
  assumes "server_inv sv" "server_step sv e sv'"
  shows "server_inv sv'"
  using assms(2,1)
proof cases
  case stop_server
  then show ?thesis using assms(1)
    by (fastforce simp: stopInternal_def monad_simps server_inv_def busy_workers_def split: if_splits)
qed (auto elim!: server_inv_go[OF assms(1)] simp: nth_list_update incrementBusyCounter_def dest: decrement_busy)

definition server_started :: "'h fcgi_server \<Rightarrow> bool" where
  "server_started sv \<longleftrightarrow> sv_status sv = RUNNING \<and> \<not> sv_stopped sv \<and> sv_workers sv = createWorkThreads (sv_endpoints sv) \<and>
     list_all (\<lambda>e. ep_busy_count e = 0) (sv_endpoints sv)"

lemma createWorkThreads_set: "w \<in> set (createWorkThreads es) \<Longrightarrow> fst w < length es \<and> snd w = Loop"
  by (auto simp: createWorkThreads_def)

lemma server_started_inv: "server_started sv \<Longrightarrow> server_inv sv"
  using createWorkThreads_set
  by (fastforce simp: server_started_def server_inv_def busy_workers_def list_all_length filter_empty_conv)

interpretation server: invariant_system server_started server_step server_inv
  by unfold_locales (auto intro: server_started_inv server_step_inv)

lemma busy_positive:
  assumes "server_inv sv" "at_phase sv j i p" "is_busy_phase p"
  shows "\<exists>e. decrementBusyCounter (sv_endpoints sv ! i) = Inr e"
proof -
  have "(i, p) \<in> set (filter (\<lambda>w. fst w = i \<and> is_busy_phase (snd w)) (sv_workers sv))"
    using assms(2,3) by (simp add: at_phase_def) (metis nth_mem)
  then have "busy_workers sv i > 0" unfolding busy_workers_def by (rule length_pos_if_in_set)
  then show ?thesis
    using assms(1,2) by (simp add: decrementBusyCounter_def server_inv_def at_phase_def)
qed

section \<open>After the stop\<close>

fun phase_left :: "phase \<Rightarrow> nat" where
  "phase_left Exited = 0"
| "phase_left Held = 1"
| "phase_left Loop = 2"
| "phase_left Serving = 3"
| "phase_left (Going st) = 4"
| "phase_left (Accepted st) = 1"
| "phase_left Accepting = 2"
| "phase_left Preparing = 3"

definition server_left :: "'h fcgi_server \<Rightarrow> nat" where
  "server_left sv = sum_list (map (phase_left \<circ> snd) (sv_workers sv))"

lemma server_left_go:
  assumes "at_phase sv j i p" "sv_workers sv' = sv_workers sv" "phase_left q < phase_left p"
  shows "Suc (server_left (go j i q sv')) \<le> server_left sv"
proof -
  let ?f = "phase_left \<circ> snd" and ?ws = "sv_workers sv"
  have j: "j < length ?ws" "?ws ! j = (i, p)" using assms(1) by (simp_all add: at_phase_def)
  have "sum_list (map ?f (?ws[j := (i, q)])) + ?f (?ws ! j) = sum_list (map ?f ?ws) + ?f (i, q)"
    using j(1) elem_le_sum_list[of j "map ?f ?ws"] by (simp add: map_update sum_list_update)
  then show ?thesis using assms(2,3) j(2) by (simp add: server_left_def go_def)
qed

definition stopped_server :: "'h fcgi_server \<Rightarrow> bool" where
  "stopped_server sv \<longleftrightarrow> server_inv sv \<and> sv_stopped sv"

interpretation halting: bounded_system stopped_server server_step stopped_server server_left "\<lambda>e. True"
proof
  fix sv sv' :: "'h fcgi_server" and e
  assume s: "stopped_server sv" "server_step sv e sv'"
  have "sv_stopped sv'" using s(2,1)
    by cases (auto simp: stopped_server_def stopInternal_def monad_simps split: if_splits)
  then show "stopped_server sv'" using s server_step_inv by (auto simp: stopped_server_def)
  show "server_left sv' + (if True then 1 else 0) \<le> server_left sv" using s(2,1)
    by cases (auto simp: stopped_server_def stopInternal_def monad_simps split: if_splits intro!: server_left_go)
qed

lemma server_left_le: "server_left sv \<le> 4 * length (sv_workers sv)"
proof -
  have "sum_list (map (phase_left \<circ> snd) ws) \<le> 4 * length ws" for ws :: "(nat \<times> phase) list"
  proof (induction ws)
    case (Cons w ws)
    have "phase_left (snd w) \<le> 4" by (cases "snd w") simp_all
    then show ?case using Cons by simp
  qed simp
  then show ?thesis by (simp add: server_left_def)
qed

text \<open>A worker that has not returned can go on.\<close>

lemma worker_goes_on:
  assumes "server_inv sv" "at_phase sv j i p" "p \<noteq> Exited"
  shows "\<exists>e sv'. server_step sv e sv'"
proof (cases p)
  case Loop
  then show ?thesis using assms(2) server_step.hold by blast
next
  case Held
  then show ?thesis using assms(2) server_step.top[OF _ _ scoped_counter(1)] server_step.top_stopped by blast
next
  case Preparing
  then show ?thesis using assms(2) server_step.prepared busy_positive[OF assms(1,2)] by fastforce
next
  case Accepting
  then show ?thesis using assms(2) server_step.accept by blast
next
  case (Accepted st)
  then show ?thesis using assms(2) server_step.accepted server_step.accepted_stopped by blast
next
  case (Going st)
  then show ?thesis using assms(2) server_step.failed server_step.serve[OF _ _ scoped_counter(1)] by (metis not_less)
next
  case Serving
  then show ?thesis using assms(2) server_step.served busy_positive[OF assms(1,2)] by fastforce
qed (use assms(3) in simp)

section \<open>The work on a request\<close>

text \<open>
  From \<^verbatim>\<open>attach\<close> to the end of a round of \<^verbatim>\<open>handle\<close>: how the round ends, the request as the thread leaves it, the
  heap, the pools and the lines logged. \<open>outer_catch\<close> are the handlers of the outer \<^verbatim>\<open>try\<close>.
\<close>

definition outer_catch :: "(error \<Rightarrow> string) \<Rightarrow> error \<Rightarrow> unit result \<times> string list" where
  "outer_catch what e =
     (if is_std_exception e then (Inr (), [''caught exception while handling request: '' @ what e])
      else if is_exception e then (Inr (), [''caught unknown exception while handling request''])
      else (Inl e, []))"

definition answer_error ::
  "boost \<Rightarrow> (error \<Rightarrow> string) \<Rightarrow> nat \<Rightarrow> request_impl \<Rightarrow> unit result \<times> request_impl \<times> string list" where
  "answer_error lib what status r = (case sendError lib status r of
     (Inr _, r') \<Rightarrow> (Inr (), r', [])
   | (Inl e, r') \<Rightarrow> (case outer_catch what e of (res, lines) \<Rightarrow> (res, r', lines)))"

text \<open>
  \<^verbatim>\<open>FCGIServer::handleRequest\<close>: the description that is found is kept for the time statistics of the request, and the task
  is dispatched.
\<close>

definition FCGIServer_handleRequest ::
  "'r regex_lib \<Rightarrow> boost \<Rightarrow> (error \<Rightarrow> string) \<Rightarrow> ('r, 'h) handler_description list \<Rightarrow> 'h request_task \<Rightarrow>
   ('r, 'h) fcgi_request \<Rightarrow> 'h pools \<Rightarrow> (unit result \<times> request_impl \<times> 'h pools \<times> string list) \<times> ('r, 'h) fcgi_request" where
  "FCGIServer_handleRequest R lib what ds task f pools =
     (let line = ''handling request '' @ getScriptName (task_request task) in
      case findURIHandler R lib (task_request task) ds of
        Inl e \<Rightarrow> ((Inl e, task_request task, pools, [line]), f)
      | Inr handler \<Rightarrow> (case handleRequestInternal lib what handler task pools of
          (res, r, pools', lines) \<Rightarrow> ((res, r, pools', line # lines), setHandlerDesc handler f)))"

text \<open>The rest of a round once the request is attached: how it ends, the request, the pools and the lines logged.\<close>

definition handle_attached ::
  "'r regex_lib \<Rightarrow> boost \<Rightarrow> (error \<Rightarrow> string) \<Rightarrow> ('r, 'h) handler_description list \<Rightarrow> request_impl \<Rightarrow>
   ('r, 'h) fcgi_request \<Rightarrow> 'h pools \<Rightarrow> unit result \<times> request_impl \<times> ('r, 'h) fcgi_request \<times> 'h pools \<times> string list" where
  "handle_attached R lib what ds r f pools =
     (case FCGIServer_handleRequest R lib what ds \<lparr>task_request = r, task_handlers = []\<rparr> f pools of
        ((Inr _, r', pools', lines), f') \<Rightarrow> (Inr (), r', f', pools', lines)
      | ((Inl e, r', pools', lines), f') \<Rightarrow>
          if is_std_exception e then
            (case answer_error lib what 500 r' of (res, r'', lines') \<Rightarrow> (res, r'', f', pools', lines @ lines'))
          else (case outer_catch what e of (res, lines') \<Rightarrow> (res, r', f', pools', lines @ lines')))"

text \<open>
  Before anything in \<^verbatim>\<open>attach\<close> can fail, the parser has gone through the environment and logged every entry
  (\<open>parse_log\<close>). The line that reports the time of a request comes from its destructor, \<open>fr_destroy\<close>.
\<close>

definition serve_request ::
  "'r regex_lib \<Rightarrow> boost \<Rightarrow> (error \<Rightarrow> string) \<Rightarrow> ('r, 'h) handler_description list \<Rightarrow> io_stream \<Rightarrow> string list \<Rightarrow>
   request_impl \<Rightarrow> heap \<Rightarrow> ('r, 'h) fcgi_request \<Rightarrow> 'h pools \<Rightarrow>
   unit result \<times> request_impl \<times> heap \<times> ('r, 'h) fcgi_request \<times> 'h pools \<times> string list" where
  "serve_request R lib what ds io envp r h f pools =
     (case attach lib (Some io) (Some envp) (r, h) of
        (Inl e, (r1, h1)) \<Rightarrow>
          if is_std_exception e then
            (case answer_error lib what 400 r1 of (res, r2, lines) \<Rightarrow>
               (res, r2, h1, f, pools, parse_log envp @ (''caught exception while attach request: '' @ what e) # lines))
          else (case outer_catch what e of (res, lines) \<Rightarrow> (res, r1, h1, f, pools, parse_log envp @ lines))
      | (Inr _, (r1, h1)) \<Rightarrow>
          (case handle_attached R lib what ds r1 (fr_attach envp f) pools of
             (res, r2, f', pools', lines) \<Rightarrow> (res, r2, h1, f', pools', parse_log envp @ lines)))"

lemma one_task_refl [simp]: "one_task lcast pools pools"
  by (simp add: one_task_def)

lemma serve_request_pools:
  assumes "serve_request R lib what ds io envp r h f pools = (res, r', h', f', pools', lines)"
  shows "one_task (lexical_cast_string lib) pools pools'"
proof -
  have "one_task (lexical_cast_string lib) pools pools2"
    if "FCGIServer_handleRequest R lib what ds task f0 pools = ((res2, r2, pools2, lines2), f2)" for task f0 res2 r2 pools2 lines2 f2
    using that by (auto simp: FCGIServer_handleRequest_def Let_def split: sum.splits prod.splits intro: dispatch_pools)
  then have "one_task (lexical_cast_string lib) pools pools2"
    if "handle_attached R lib what ds r1 f0 pools = (res2, r2, f2, pools2, lines2)" for r1 f0 res2 r2 f2 pools2 lines2
    using that by (auto simp: handle_attached_def split: prod.splits sum.splits if_splits)
  then show ?thesis
    using assms by (auto simp: serve_request_def split: prod.splits sum.splits if_splits)
qed

section \<open>The report\<close>

text \<open>\<open>show_n\<close> is the output of a number.\<close>

definition attr :: "string \<Rightarrow> string \<Rightarrow> string" where
  "attr nam val = '' '' @ nam @ ''='' @ [CHR 0x22] @ val @ [CHR 0x22]"

definition endpoint_info :: "(nat \<Rightarrow> string) \<Rightarrow> endpoint \<Rightarrow> string" where
  "endpoint_info show_n e = ''<endpoint'' @ attr ''socket'' (ep_toString e) @ attr ''threads'' (show_n (ep_threads e)) @
     attr ''busy'' (show_n (getBusyCounter e)) @ ''/>'' @ LF"

definition pool_info_text :: "(nat \<Rightarrow> string) \<Rightarrow> string \<times> 't thread_pool \<Rightarrow> string" where
  "pool_info_text show_n p = (let info = fst (getInfo (snd p)) in
     ''<pool'' @ attr ''name'' (fst p) @ attr ''threads'' (show_n (unat (pi_threadsNumber info))) @
     attr ''busy'' (show_n (unat (pi_busyThreadsCounter info))) @ attr ''queue'' (show_n (unat (pi_queueLength info))) @
     attr ''current_queue'' (show_n (unat (pi_currentQueue info))) @
     attr ''all_tasks'' (show_n (unat (pi_goodTasksCounter info + pi_badTasksCounter info))) @
     attr ''exception_tasks'' (show_n (unat (pi_badTasksCounter info))) @ ''/>'' @ LF)"

definition getServerInfo :: "(nat \<Rightarrow> string) \<Rightarrow> 'h fcgi_server \<Rightarrow> string" where
  "getServerInfo show_n sv =
     ''<fastcgi-daemon>'' @ LF @ ''<status>'' @
     (case sv_status sv of LOADING \<Rightarrow> ''loading'' | RUNNING \<Rightarrow> ''running'' | NOT_INITED \<Rightarrow> ''not inited'') @ ''</status>'' @ LF @
     (if sv_status sv = RUNNING then
        ''<pools>'' @ LF @ ''<endpoint_pools>'' @ LF @ concat (map (endpoint_info show_n) (sv_endpoints sv)) @
        ''</endpoint_pools>'' @ LF @ concat (map (pool_info_text show_n) (sv_pools sv)) @ ''</pools>'' @ LF
      else []) @
     ''</fastcgi-daemon>'' @ LF"

text \<open>What the monitor does with the first character that it reads from a connection.\<close>

datatype monitor_action = Report string | StopSignal | Ignore

definition monitor_command :: "(nat \<Rightarrow> string) \<Rightarrow> 'h fcgi_server \<Rightarrow> string \<Rightarrow> monitor_action" where
  "monitor_command show_n sv buf =
     (case buf of [] \<Rightarrow> Ignore
      | ch # _ \<Rightarrow> if ch = CHR ''i'' \<or> ch = CHR ''I'' then Report (getServerInfo show_n sv)
          else if ch = CHR ''s'' \<or> ch = CHR ''S'' then StopSignal else Ignore)"

text \<open>
  A round of the monitor: \<open>sv\<close> is the server at its begin, \<open>sv'\<close> after \<^verbatim>\<open>accept\<close>, which has returned \<open>conn\<close>; \<open>buf\<close> is what
  was read. The result tells whether another round follows, what is done, the server, and the lines on the standard
  error output.
\<close>

definition monitor_round ::
  "(nat \<Rightarrow> string) \<Rightarrow> 'h fcgi_server \<Rightarrow> 'h fcgi_server \<Rightarrow> int \<Rightarrow> string \<Rightarrow> string \<Rightarrow>
   bool \<times> monitor_action \<times> 'h fcgi_server \<times> string list" where
  "monitor_round show_n sv sv' conn errno_text buf =
     (if sv_stopped sv then (False, Ignore, sv, [])
      else if sv_stopped sv' then (False, Ignore, sv', [])
      else if conn = -1 then
        (let line = ''Cannot accept connection on monitor port, errno = '' @ errno_text in
         if sv_status sv' = RUNNING then (True, Ignore, sv'\<lparr>sv_log := sv_log sv' @ [line]\<rparr>, []) else (True, Ignore, sv', [line]))
      else (True, monitor_command show_n sv' buf, sv', []))"

section \<open>Properties\<close>

text \<open>
  C20. In every state that the threads of a started server reach, the busy counter of an endpoint is the number of
  its threads that prepare or serve a request: it is never negative, so that the assertion in its decrement does
  not fail, never more than the number of its threads, and reported exactly.
\<close>

theorem busy_counter_exact:
  assumes "server_started sv0" "run server_step sv0 es sv" "i < length (sv_endpoints sv)"
  shows "ep_busy_count (sv_endpoints sv ! i) = int (length (filter (\<lambda>w. fst w = i \<and> is_busy_phase (snd w)) (sv_workers sv))) \<and>
    (\<forall>j p. at_phase sv j i p \<and> is_busy_phase p \<longrightarrow> (\<exists>e. decrementBusyCounter (sv_endpoints sv ! i) = Inr e)) \<and>
    (length (filter (\<lambda>w. fst w = i) (sv_workers sv)) < 65536 \<longrightarrow>
      getBusyCounter (sv_endpoints sv ! i) = length (filter (\<lambda>w. fst w = i \<and> is_busy_phase (snd w)) (sv_workers sv)))"
proof -
  have inv: "server_inv sv" by (rule server.reached_inv[OF assms(1,2)])
  have b: "ep_busy_count (sv_endpoints sv ! i) = int (busy_workers sv i)" using inv assms(3) by (simp add: server_inv_def)
  have "length (filter (\<lambda>w. fst w = i \<and> is_busy_phase (snd w)) ws) \<le> length (filter (\<lambda>w. fst w = i) ws)"
    for ws :: "(nat \<times> phase) list" by (induction ws) auto
  then have "busy_workers sv i \<le> length (filter (\<lambda>w. fst w = i) (sv_workers sv))"
    by (simp add: busy_workers_def)
  then have "getBusyCounter (sv_endpoints sv ! i) = busy_workers sv i"
    if "length (filter (\<lambda>w. fst w = i) (sv_workers sv)) < 65536"
    using b that by (simp add: getBusyCounter_def)
  then show ?thesis
    using b busy_positive[OF inv] unfolding busy_workers_def by blast
qed

text \<open>A server with one endpoint and one thread.\<close>

definition one_server :: "phase \<Rightarrow> int \<Rightarrow> bool \<Rightarrow> nat fcgi_server" where
  "one_server p busy stopped = \<lparr>sv_status = RUNNING, sv_stopped = stopped,
     sv_endpoints = [\<lparr>ep_socket = 3, ep_busy_count = busy, ep_threads = 1, ep_socket_path = ''/s'', ep_socket_port = []\<rparr>],
     sv_workers = [(0, p)], sv_pools = [], sv_log = []\<rparr>"

lemma one_server_started: "server_started (one_server Loop 0 False)"
  by (simp add: server_started_def one_server_def createWorkThreads_def)

lemma one_server_steps:
  "server_step (one_server Loop 0 False) (TakeHolder 0) (one_server Held 0 False)"
  "server_step (one_server Held 0 False) (CheckTop 0) (one_server Preparing 1 False)"
  "server_step (one_server Preparing 1 False) (Prepared 0 None) (one_server Accepting 0 False)"
  "server_step (one_server Accepting 0 False) (AcceptReturns 0 0) (one_server (Accepted 0) 0 False)"
  "server_step (one_server (Accepted 0) 0 False) (CheckAccepted 0) (one_server (Going 0) 0 False)"
  "server_step (one_server (Going 0) 0 False) StopServer (one_server (Going 0) 0 True)"
  "server_step (one_server (Going 0) 0 True) (TakeAgain 0) (one_server Serving 1 True)"
proof -
  have at: "at_phase (one_server p b s) 0 0 q \<longleftrightarrow> q = p" for p q b s by (auto simp: at_phase_def one_server_def)
  have g: "go 0 0 q (one_server p b s) = one_server q b s" for p q b s by (simp add: go_def one_server_def)
  have inc: "set_endpoint 0 (incrementBusyCounter (sv_endpoints (one_server p b s) ! 0)) (one_server p b s) = one_server p (b + 1) s"
    for p b s by (simp add: set_endpoint_def incrementBusyCounter_def one_server_def)
  have dec: "decrementBusyCounter (sv_endpoints (one_server p 1 s) ! 0) = Inr (sv_endpoints (one_server p 0 s) ! 0)"
    "set_endpoint 0 (sv_endpoints (one_server p 0 s) ! 0) (one_server p 1 s) = one_server p 0 s" for p s
    by (simp_all add: set_endpoint_def decrementBusyCounter_def one_server_def)
  have st: "sv_stopped (one_server p b s) = s" for p b s by (simp add: one_server_def)
  show "server_step (one_server Loop 0 False) (TakeHolder 0) (one_server Held 0 False)"
    using server_step.hold[of "one_server Loop 0 False" 0 0] by (simp add: at g)
  show "server_step (one_server Held 0 False) (CheckTop 0) (one_server Preparing 1 False)"
    using server_step.top[of "one_server Held 0 False" 0 0, OF _ _ scoped_counter(1)] by (simp add: at g inc st)
  show "server_step (one_server Preparing 1 False) (Prepared 0 None) (one_server Accepting 0 False)"
    using server_step.prepared[of "one_server Preparing 1 False" 0 0 False "sv_endpoints (one_server Preparing 0 False) ! 0"]
    by (simp add: at g dec)
  show "server_step (one_server Accepting 0 False) (AcceptReturns 0 0) (one_server (Accepted 0) 0 False)"
    using server_step.accept[of "one_server Accepting 0 False" 0 0 0] by (simp add: at g)
  show "server_step (one_server (Accepted 0) 0 False) (CheckAccepted 0) (one_server (Going 0) 0 False)"
    using server_step.accepted[of "one_server (Accepted 0) 0 False" 0 0 0] by (simp add: at g st)
  show "server_step (one_server (Going 0) 0 False) StopServer (one_server (Going 0) 0 True)"
    by (rule server_step.stop_server) (simp add: stopInternal_def monad_simps one_server_def stopThreadPools_def)
  show "server_step (one_server (Going 0) 0 True) (TakeAgain 0) (one_server Serving 1 True)"
    using server_step.serve[of "one_server (Going 0) 0 True" 0 0 0, OF _ _ scoped_counter(1)] by (simp add: at g inc)
qed

lemmas server_run_Cons = run_Cons[where step = server_step]
lemmas server_run_nil = run_nil[where step = server_step]

lemma one_server_run:
  "run server_step (one_server Loop 0 False) [TakeHolder 0, CheckTop 0] (one_server Preparing 1 False)"
  "run server_step (one_server Loop 0 False)
     [TakeHolder 0, CheckTop 0, Prepared 0 None, AcceptReturns 0 0, CheckAccepted 0, StopServer] (one_server (Going 0) 0 True)"
  "run server_step (one_server (Going 0) 0 True) [TakeAgain 0] (one_server Serving 1 True)"
  using one_server_steps server_run_Cons[OF one_server_steps(1) server_run_Cons[OF one_server_steps(2) server_run_nil]]
    server_run_Cons[OF one_server_steps(1) server_run_Cons[OF one_server_steps(2) server_run_Cons[OF one_server_steps(3)
      server_run_Cons[OF one_server_steps(4) server_run_Cons[OF one_server_steps(5) server_run_Cons[OF one_server_steps(6) server_run_nil]]]]]]
    server_run_Cons[OF one_server_steps(7) server_run_nil]
  by auto

theorem busy_counter_exact_witness:
  "ep_busy_count (sv_endpoints (one_server Preparing 1 False) ! 0) =
     int (length (filter (\<lambda>w. fst w = 0 \<and> is_busy_phase (snd w)) (sv_workers (one_server Preparing 1 False))))"
  using busy_counter_exact[OF one_server_started one_server_run(1), of 0] by (simp add: one_server_def)

text \<open>
  C21. After the stop of a server its threads make at most four steps each, and when none of them can go on they
  have all returned; a thread that is blocked in \<^verbatim>\<open>accept\<close> returns as soon as \<^verbatim>\<open>accept\<close> does.
\<close>

theorem stopped_server_ends:
  assumes "server_started sv0" "run server_step sv0 es sv" "sv_stopped sv" "run server_step sv es' sv'"
  shows "length es' \<le> 4 * length (sv_workers sv) \<and>
    ((\<nexists>e sv''. server_step sv' e sv'') \<longrightarrow> list_all (\<lambda>w. snd w = Exited) (sv_workers sv'))"
proof -
  have s: "stopped_server sv" using server.reached_inv[OF assms(1,2)] assms(3) by (simp add: stopped_server_def)
  have "length es' \<le> 4 * length (sv_workers sv)"
    using halting.run_bounded[OF assms(4) s] server_left_le[of sv] by simp
  moreover have inv: "server_inv sv'" using halting.run_inv[OF assms(4) s] by (simp add: stopped_server_def)
  have "snd w = Exited" if w: "w \<in> set (sv_workers sv')" and stuck: "\<nexists>e sv''. server_step sv' e sv''" for w
  proof (rule ccontr)
    assume "snd w \<noteq> Exited"
    moreover obtain j where "j < length (sv_workers sv')" "sv_workers sv' ! j = w" using w by (auto simp: in_set_conv_nth)
    then have "at_phase sv' j (fst w) (snd w)" using inv w by (simp add: at_phase_def server_inv_def)
    ultimately have "\<exists>e sv''. server_step sv' e sv''" by (intro worker_goes_on[OF inv])
    then show False by (rule notE[OF stuck])
  qed
  ultimately show ?thesis by (simp add: list_all_iff)
qed

theorem stopped_server_ends_witness:
  "length [TakeAgain 0] \<le> 4 * length (sv_workers (one_server (Going 0) 0 True))"
  using stopped_server_ends[OF one_server_started one_server_run(2) _ one_server_run(3)]
  by (simp add: one_server_def)

text \<open>
  \<^verbatim>\<open>join\<close> does not wait for every thread: a thread that has seen, after \<^verbatim>\<open>accept\<close>, that the server is not stopped, but
  has not yet taken its holder again, is not waited for, and serves its request after \<^verbatim>\<open>join\<close> has returned.
\<close>

theorem join_returns_early:
  "\<exists>sv sv'. run server_step (one_server Loop 0 False)
      [TakeHolder 0, CheckTop 0, Prepared 0 None, AcceptReturns 0 0, CheckAccepted 0, StopServer] sv \<and>
    server_join sv = Inr True \<and> server_step sv (TakeAgain 0) sv' \<and> at_phase sv' 0 0 Serving"
proof (intro exI conjI)
  show "server_join (one_server (Going 0) 0 True) = Inr True"
    by (simp add: server_join_def one_server_def joinThreadPools_def)
  show "at_phase (one_server Serving 1 True) 0 0 Serving" by (simp add: at_phase_def one_server_def)
  show "run server_step (one_server Loop 0 False)
      [TakeHolder 0, CheckTop 0, Prepared 0 None, AcceptReturns 0 0, CheckAccepted 0, StopServer] (one_server (Going 0) 0 True)"
    by (rule one_server_run(2))
  show "server_step (one_server (Going 0) 0 True) (TakeAgain 0) (one_server Serving 1 True)" by (rule one_server_steps(7))
qed

text \<open>
  C5. What becomes of a request once it is attached, with handlers and pools as they are set up at the start and in
  whatever state the pools are by now, when nothing of the reply is sent yet and the connection takes what is written.
  When a filter throws while the handlers are searched, the request is answered with 500, if the exception is a
  \<^verbatim>\<open>std::exception\<close>, and the outer handlers take it otherwise; when every handler rejects the request, it is answered
  with 404; when a handler accepts it, it is queued in the pool of that handler if the pool takes it, and answered with
  503, with a line in the log, if the pool refuses it. The pool of the handler is always found, no other pool changes,
  and a handler that has no component answers with 404, too.
\<close>

theorem dispatch_outcomes:
  assumes "HandlerSet_init R cfg find_component as_handler s = (Inr ds, s')" "initPools cfg (getPoolsNeeded ds) = Inr pools0"
    and "map fst (pools :: 'h pools) = map fst (pools0 :: 'h pools)" "rq_open req" "\<not> rq_headers_sent req"
    and "line = ''handling request '' @ getScriptName req"
  shows "case findURIHandler R lib req ds of
      Inl e \<Rightarrow> handle_attached R lib what ds req f pools =
        (if is_std_exception e then (Inr (), error_reply lib 500 [] req, f, pools, [line])
         else (fst (outer_catch what e), req, f, pools, line # snd (outer_catch what e)))
    | Inr None \<Rightarrow> list_all (rejects R lib req) ds \<and>
        handle_attached R lib what ds req f pools = (Inr (), error_reply lib 404 [] req, f\<lparr>fr_handler := None\<rparr>, pools, [line])
    | Inr (Some d) \<Rightarrow> d \<in> set ds \<and> accepts R lib req d \<and>
        (if hd_handlers d = [] then
           handle_attached R lib what ds req f pools = (Inr (), error_reply lib 404 [] req, f\<lparr>fr_handler := Some d\<rparr>, pools, [line])
         else (\<exists>p p' e. sm_find pools (hd_poolName d) = Some p \<and>
           addTask (lexical_cast_string lib) \<lparr>task_request = req, task_handlers = hd_handlers d\<rparr> p = (e, p') \<and>
           handle_attached R lib what ds req f pools =
             (case e of None \<Rightarrow> (Inr (), req, f\<lparr>fr_handler := Some d\<rparr>, replace_pool pools (hd_poolName d) p', [line])
              | Some e \<Rightarrow> (Inr (), error_reply lib 503 [] req, f\<lparr>fr_handler := Some d\<rparr>, replace_pool pools (hd_poolName d) p',
                  [line, ''cannot add request to pool: '' @ what e]))))"
proof -
  note defs = handle_attached_def FCGIServer_handleRequest_def handleRequestInternal_def setHandlerDesc_def
  note err = sendError_open[OF assms(4,5)]
  note found = findURIHandler_iff[OF HandlerSet_init_ok[OF assms(1)], of R lib req]
  show ?thesis
  proof (cases "findURIHandler R lib req ds")
    case (Inl e)
    then show ?thesis using err by (simp add: defs assms(6) answer_error_def split: prod.split)
  next
    case (Inr handler)
    show ?thesis
    proof (cases handler)
      case None
      then show ?thesis using Inr err found(2) by (simp add: defs assms(6) list_all_iff)
    next
      case (Some d)
      then have d: "d \<in> set ds" "accepts R lib req d" using Inr found(1)[of d] by auto
      obtain p where p: "sm_find pools (hd_poolName d) = Some p" using handler_pool_found[OF assms(2,3) d(1)] by blast
      obtain e p' where a: "addTask (lexical_cast_string lib) \<lparr>task_request = req, task_handlers = hd_handlers d\<rparr> p = (e, p')" by fastforce
      show ?thesis
        using Inr Some d p a err by (cases e) (simp_all add: defs assms(6))
    qed
  qed
qed

text \<open>A request on a connection that has just been made.\<close>

definition new_connection :: "(string, nat) fcgi_request" where
  "new_connection = \<lparr>fr_url = [], fr_logTimes = False, fr_accept_time = \<lparr>tv_sec = 0, tv_usec = 0\<rparr>, fr_handler = None\<rparr>"

theorem dispatch_outcomes_witness:
  "\<exists>p'. handle_attached exact_regex example_boost (\<lambda>e. []) daemon_handlers example_request
      new_connection (startThreadPools daemon_pools) =
    (Inr (), example_request, new_connection\<lparr>fr_handler := Some (hd daemon_handlers)\<rparr>,
      replace_pool (startThreadPools daemon_pools) ''main'' p', [''handling request '' @ getScriptName example_request])"
proof -
  have r: "rq_open example_request" "\<not> rq_headers_sent example_request"
    by (simp_all add: example_request_def rq_open_def RequestImpl_new_def rq_reset_def)
  have m: "map fst (startThreadPools daemon_pools) = map fst daemon_pools" by (simp add: startThreadPools_def daemon_pools_def)
  have p: "sm_find (startThreadPools daemon_pools) ''main'' = Some (pool_start (ThreadPool_new 1 1))"
    by (simp add: startThreadPools_def daemon_pools_def sm_find_def)
  have a: "\<exists>p'. addTask l t (pool_start (ThreadPool_new 1 1 :: nat request_task thread_pool)) = (None, p')" for l t
    by (simp add: addTask_def addTask_section_def pool_start_def ThreadPool_new_def)
  have d: "findURIHandler exact_regex example_boost example_request daemon_handlers = Inr (Some (hd daemon_handlers))"
    "hd_handlers (hd daemon_handlers) = [7]" "hd_poolName (hd daemon_handlers) = ''main''"
    by (simp_all add: daemon_handlers_def)
  show ?thesis
    using dispatch_outcomes[OF daemon_init daemon_initPools m r refl, of example_boost "\<lambda>e. []" new_connection] d p
      a[of "lexical_cast_string example_boost" "\<lparr>task_request = example_request, task_handlers = [7]\<rparr>"]
    by auto
qed

text \<open>
  C6. A form is queued when all of these hold: its body arrives completely and is kept in memory (there is no cache of
  requests, or the body is shorter than the cache takes), its type is not one that \<^verbatim>\<open>attach\<close> treats in another way,
  the search for a handler of the request that \<^verbatim>\<open>attach\<close> has built finds one with a component, and the pool of that
  handler exists, is started and has room in its queue. Then the thread of the endpoint puts behind the queue of this
  pool one task, with the handlers of the description and with the request, whose variables are those of the environment
  and whose arguments are those of the query followed by those of the body. No other pool changes, and what is logged
  are the lines for the entries of the environment and for the begin of the handling.
\<close>

theorem form_queued:
  assumes "r1 = parse_env envp (r\<lparr>rq_stream := Some io\<rparr>)" "getRequestMethod r1 \<in> {''POST'', ''PUT''}" "kept_in_memory (rq_cache r) n"
    and "getContentLength lib r1 = Inr (int n)" "n < two64"
    and "\<not> has_type ''multipart/form-data'' (getContentType r1)" "\<not> has_type ''text/plain'' (getContentType r1)"
      "\<not> has_type ''application/octet-stream'' (getContentType r1)"
    and "n \<le> length (io_input io)"
  shows "\<exists>r' h'. rq_vars r' = rq_vars r1 \<and> content h' (rq_body r') = take n (io_input io) \<and>
    rq_args r' = parse_string (take n (io_input io)) (parse_string (getQueryString r1) (rq_args r1)) \<and>
    (\<forall>d p. findURIHandler R lib r' ds = Inr (Some d) \<and> hd_handlers d \<noteq> [] \<and> sm_find pools (hd_poolName d) = Some p \<and>
        pi_started (tp_info p) \<and> of_nat (length (tp_tasksQueue p)) < pi_queueLength (tp_info p) \<longrightarrow>
      (\<exists>p'. tp_tasksQueue p' = tp_tasksQueue p @ [\<lparr>task_request = r', task_handlers = hd_handlers d\<rparr>] \<and>
        serve_request R lib what ds io envp r h f pools = (Inr (), r', h', (fr_attach envp f)\<lparr>fr_handler := Some d\<rparr>,
          replace_pool pools (hd_poolName d) p', parse_log envp @ [''handling request '' @ getScriptName r1])))"
proof -
  obtain h' body where a: "shows_text h' body (take n (io_input io))"
    "attach lib (Some io) (Some envp) (r, h) = (Inr (), ((form_request r1 body io n)\<lparr>rq_args :=
       parse_string (take n (io_input io)) (parse_string (getQueryString r1) (rq_args r1))\<rparr>, h'))"
    using attach_form_value[OF assms(1-8), of h] assms(9) by auto
  let ?r = "(form_request r1 body io n)\<lparr>rq_args := parse_string (take n (io_input io)) (parse_string (getQueryString r1) (rq_args r1))\<rparr>"
  have v: "rq_vars ?r = rq_vars r1" by (simp add: form_request_def)
  then have nam: "getScriptName ?r = getScriptName r1" by (simp add: getScriptName_def)
  have q: "serve_request R lib what ds io envp r h f pools = (Inr (), ?r, h', (fr_attach envp f)\<lparr>fr_handler := Some d\<rparr>,
      replace_pool pools (hd_poolName d) p', parse_log envp @ [''handling request '' @ getScriptName r1])"
    if "findURIHandler R lib ?r ds = Inr (Some d)" "hd_handlers d \<noteq> []" "sm_find pools (hd_poolName d) = Some p"
      "addTask (lexical_cast_string lib) \<lparr>task_request = ?r, task_handlers = hd_handlers d\<rparr> p = (None, p')" for d p p'
    using that nam
    by (simp add: serve_request_def a(2) handle_attached_def FCGIServer_handleRequest_def handleRequestInternal_def setHandlerDesc_def)
  show ?thesis
  proof (intro exI[of _ ?r] exI[of _ h'] conjI allI impI)
    show "content h' (rq_body ?r) = take n (io_input io)" using a(1) by (simp add: shows_text_def form_request_def)
    fix d p
    assume d: "findURIHandler R lib ?r ds = Inr (Some d) \<and> hd_handlers d \<noteq> [] \<and> sm_find pools (hd_poolName d) = Some p \<and>
        pi_started (tp_info p) \<and> of_nat (length (tp_tasksQueue p)) < pi_queueLength (tp_info p)"
    let ?task = "\<lparr>task_request = ?r, task_handlers = hd_handlers d\<rparr>"
    have "addTask (lexical_cast_string lib) ?task p =
        (None, p\<lparr>tp_tasksQueue := tp_tasksQueue p @ [?task], tp_callers := Suc (tp_callers p)\<rparr>)"
      using d by (simp add: addTask_def addTask_section_def not_le)
    from q[OF _ _ _ this] d show "\<exists>p'. tp_tasksQueue p' = tp_tasksQueue p @ [?task] \<and>
        serve_request R lib what ds io envp r h f pools = (Inr (), ?r, h', (fr_attach envp f)\<lparr>fr_handler := Some d\<rparr>,
          replace_pool pools (hd_poolName d) p', parse_log envp @ [''handling request '' @ getScriptName r1])"
      by (intro exI[of _ "p\<lparr>tp_tasksQueue := tp_tasksQueue p @ [?task], tp_callers := Suc (tp_callers p)\<rparr>"]) simp
  qed (simp_all add: v)
qed

theorem form_queued_witness:
  "\<exists>r' h' f' p' lines. tp_tasksQueue p' = [\<lparr>task_request = r', task_handlers = [7]\<rparr>] \<and> content h' (rq_body r') = ''a=1&b=2'' \<and>
    serve_request exact_regex post_boost (\<lambda>e. []) daemon_handlers post_stream post_env (RequestImpl_new None) [] new_connection
      (startThreadPools daemon_pools) = (Inr (), r', h', f', replace_pool (startThreadPools daemon_pools) ''main'' p', lines)"
proof -
  let ?r1 = "parse_env post_env ((RequestImpl_new None)\<lparr>rq_stream := Some post_stream\<rparr>)"
  let ?result = "\<lambda>r' h' d p'. (Inr (), r', h', (fr_attach post_env new_connection)\<lparr>fr_handler := Some d\<rparr>,
    replace_pool (startThreadPools daemon_pools) (hd_poolName d) p', parse_log post_env @ [''handling request '' @ getScriptName ?r1])"
  have c: "kept_in_memory (rq_cache (RequestImpl_new None)) 7" by (simp add: RequestImpl_new_def rq_reset_def)
  have t: "\<not> has_type ''multipart/form-data'' []" "\<not> has_type ''text/plain'' []" "\<not> has_type ''application/octet-stream'' []"
    by code_simp+
  have io: "io_input post_stream = ''a=1&b=2''" by (simp add: post_stream_def)
  let ?p = "pool_start (ThreadPool_new 1 1 :: nat request_task thread_pool)"
  have p: "sm_find (startThreadPools daemon_pools) ''main'' = Some ?p" "pi_started (tp_info ?p)"
    "of_nat (length (tp_tasksQueue ?p)) < pi_queueLength (tp_info ?p)" "tp_tasksQueue ?p = []"
    by (simp_all add: startThreadPools_def daemon_pools_def sm_find_def pool_start_def ThreadPool_new_def)
  have d: "findURIHandler exact_regex post_boost r' daemon_handlers = Inr (Some (hd daemon_handlers))"
    "hd_handlers (hd daemon_handlers) = [7]" "hd_poolName (hd daemon_handlers) = ''main''" for r'
    by (simp_all add: daemon_handlers_def)
  have "\<exists>r' h'. rq_vars r' = rq_vars ?r1 \<and> content h' (rq_body r') = take 7 (io_input post_stream) \<and>
    rq_args r' = parse_string (take 7 (io_input post_stream)) (parse_string (getQueryString ?r1) (rq_args ?r1)) \<and>
    (\<forall>d p. findURIHandler exact_regex post_boost r' daemon_handlers = Inr (Some d) \<and> hd_handlers d \<noteq> [] \<and>
        sm_find (startThreadPools daemon_pools) (hd_poolName d) = Some p \<and>
        pi_started (tp_info p) \<and> of_nat (length (tp_tasksQueue p)) < pi_queueLength (tp_info p) \<longrightarrow>
      (\<exists>p'. tp_tasksQueue p' = tp_tasksQueue p @ [\<lparr>task_request = r', task_handlers = hd_handlers d\<rparr>] \<and>
        serve_request exact_regex post_boost (\<lambda>e. []) daemon_handlers post_stream post_env (RequestImpl_new None) [] new_connection
          (startThreadPools daemon_pools) = ?result r' h' d p'))"
    by (rule form_queued[OF refl _ c]) (use t post_env_facts io in \<open>simp_all add: two64_def\<close>)
  then obtain r' h' where r: "content h' (rq_body r') = ''a=1&b=2''"
    "\<exists>p'. tp_tasksQueue p' = [\<lparr>task_request = r', task_handlers = [7]\<rparr>] \<and>
        serve_request exact_regex post_boost (\<lambda>e. []) daemon_handlers post_stream post_env (RequestImpl_new None) [] new_connection
          (startThreadPools daemon_pools) = ?result r' h' (hd daemon_handlers) p'"
    using d p io by fastforce
  then show ?thesis using d(3) by metis
qed

text \<open>
  C22. A posted request whose body ends before its announced length, and whose body would be kept in memory (there is
  no cache of requests, or the length is less than the cache takes), is answered with the page for the status 400 when
  nothing of the reply is sent yet and the connection takes what is written. After the lines for the entries of the
  environment one line is logged, with the reason; no handler is looked for, and the pools do not see the request.
\<close>

theorem short_form_refused:
  assumes "r1 = parse_env envp (r\<lparr>rq_stream := Some io\<rparr>)" "getRequestMethod r1 \<in> {''POST'', ''PUT''}" "kept_in_memory (rq_cache r) n"
    and "getContentLength lib r1 = Inr (int n)" "n < two64" "length (io_input io) < n"
    and "io_writes_left io = None" "\<not> rq_headers_sent r"
  shows "\<exists>r' h'. rq_vars r' = rq_vars r1 \<and> rq_stream r' = Some (io\<lparr>io_input := []\<rparr>) \<and>
    serve_request R lib what ds io envp r h f pools = (Inr (), error_reply lib 400 [] r', h', f, pools,
      parse_log envp @ [''caught exception while attach request: '' @ what (RuntimeError ''failed to read request entity'')])"
proof -
  have k: "rq_stream r1 = Some io" "kept_in_memory (rq_cache r1) n" "\<not> rq_headers_sent r1"
    using assms(1,3,8) parse_env_keeps[of envp "r\<lparr>rq_stream := Some io\<rparr>"] by simp_all
  obtain h' body where a: "attach lib (Some io) (Some envp) (r, h) =
      (Inl (RuntimeError ''failed to read request entity''), (form_request r1 body io n, h'))"
    using attach_post_memory[OF k(2,1) assms(4,5), of h] attach_post_step[OF assms(1,2), of lib h] assms(6)
    by (auto simp: form_request_def Let_def)
  have "rq_open (form_request r1 body io n)" "\<not> rq_headers_sent (form_request r1 body io n)"
    using assms(7) k by (simp_all add: form_request_def rq_open_def)
  from sendError_open[OF this, of lib 400] show ?thesis
    using a assms(6)
    by (intro exI[of _ "form_request r1 body io n"] exI[of _ h'])
      (simp add: serve_request_def answer_error_def is_std_exception_def, simp add: form_request_def)
qed

theorem short_form_refused_witness:
  "\<exists>r' h'. serve_request exact_regex post_boost (\<lambda>e. ''short'') daemon_handlers (post_stream\<lparr>io_input := ''a=1''\<rparr>) post_env
      (RequestImpl_new None) [] new_connection daemon_pools =
    (Inr (), error_reply post_boost 400 [] r', h', new_connection, daemon_pools,
      parse_log post_env @ [''caught exception while attach request: short''])"
proof -
  let ?io = "post_stream\<lparr>io_input := ''a=1''\<rparr>" and ?r = "RequestImpl_new None"
  have f: "getRequestMethod (parse_env post_env (?r\<lparr>rq_stream := Some ?io\<rparr>)) = ''POST''"
    "getContentLength post_boost (parse_env post_env (?r\<lparr>rq_stream := Some ?io\<rparr>)) = Inr (int 7)"
    by code_simp+
  have "kept_in_memory (rq_cache ?r) 7" "\<not> rq_headers_sent ?r" "io_writes_left ?io = None" "length (io_input ?io) < 7"
    by (simp_all add: RequestImpl_new_def rq_reset_def post_stream_def)
  then show ?thesis
    using short_form_refused[OF refl, where envp = post_env and r = ?r and io = ?io and lib = post_boost and n = 7 and R = exact_regex
        and what = "\<lambda>e. ''short''" and ds = daemon_handlers and h = "[]" and pools = daemon_pools and f = new_connection] f
    by (auto simp: two64_def)
qed

end
