(* ===== verification/Loggers.thy ===== *)
theory Loggers
  imports Runs Request_Parser Request_Facade Request_Thread_Pool Config_Xml
begin

text \<open>
  The loggers: levels (\<^verbatim>\<open>library/logger.cpp\<close>), the logger for syslog (\<^verbatim>\<open>syslog/syslog-logger.cpp\<close>) and the file logger
  (\<^verbatim>\<open>file-logger/file_logger.cpp\<close>). The file logger queues its lines for a thread that writes them; the callers of
  \<^verbatim>\<open>log\<close>, the writing thread, \<^verbatim>\<open>rollOver\<close> and the destructor are the steps of \<open>logger_step\<close>. Lines are written in the
  order in which they were logged (\<open>log_lines_in_order\<close>; every \<^verbatim>\<open>write\<close> of the system is taken to write the whole line,
  since the result of the call, which the code does not look at, is not represented), and a logger that is destroyed while its thread waits writes
  all of them (\<open>clean_shutdown\<close>). The thread waits without looking at the queue or at the stop flag, so that a
  notification may be lost: then the destructor does not return (\<open>logger_join_hangs\<close>) or lines are lost
  (\<open>last_lines_lost\<close>).
\<close>

section \<open>Levels\<close>

datatype log_level = DEBUG | INFO | ERROR | EMERGENCY

primrec level_rank :: "log_level \<Rightarrow> nat" where
  "level_rank DEBUG = 0"
| "level_rank INFO = 1"
| "level_rank ERROR = 2"
| "level_rank EMERGENCY = 3"

lemma level_rank_inj: "level_rank a = level_rank b \<longleftrightarrow> a = b"
  by (cases a; cases b) simp_all

instantiation log_level :: linorder
begin

definition less_eq_log_level :: "log_level \<Rightarrow> log_level \<Rightarrow> bool" where
  "less_eq_log_level a b \<longleftrightarrow> level_rank a \<le> level_rank b"

definition less_log_level :: "log_level \<Rightarrow> log_level \<Rightarrow> bool" where
  "less_log_level a b \<longleftrightarrow> level_rank a < level_rank b"

instance
  by standard (auto simp: less_eq_log_level_def less_log_level_def level_rank_inj)

end

text \<open>The number of compared characters is \<^verbatim>\<open>sizeof\<close> of the name, which counts its end.\<close>

definition stringToLevel :: "string \<Rightarrow> log_level result" where
  "stringToLevel nam =
     (if strncasecmp 5 nam ''INFO'' = 0 then Inr INFO
      else if strncasecmp 6 nam ''DEBUG'' = 0 then Inr DEBUG
      else if strncasecmp 6 nam ''ERROR'' = 0 then Inr ERROR
      else if strncasecmp 6 nam ''EMERG'' = 0 then Inr EMERGENCY
      else Inl (RuntimeError ''bad string to log level cast)''))"

primrec levelToString :: "log_level \<Rightarrow> string" where
  "levelToString INFO = ''INFO''"
| "levelToString DEBUG = ''DEBUG''"
| "levelToString ERROR = ''ERROR''"
| "levelToString EMERGENCY = ''EMERG''"

lemma strncasecmp_end: "strncasecmp (Suc 0) s [] = 0 \<longleftrightarrow> s = [] \<or> hd s = NUL"
proof -
  have "tolower d = tolower NUL \<longleftrightarrow> d = NUL" for d unfolding tolower_NUL by (rule tolower_NUL_iff)
  then show ?thesis by (cases s) (auto simp: Let_def char_diff)
qed

lemma strncasecmp_whole:
  "NUL \<notin> set t \<Longrightarrow> strncasecmp (Suc (length t)) s t = 0 \<longleftrightarrow>
     map tolower (takeWhile (\<lambda>c. c \<noteq> NUL) s) = map tolower t"
proof (induction t arbitrary: s)
  case Nil
  then show ?case by (cases s) (simp_all add: strncasecmp_end del: strncasecmp.simps)
next
  case (Cons c t)
  then have c: "c \<noteq> NUL" "tolower c \<noteq> NUL" and t: "NUL \<notin> set t" by (auto simp: tolower_NUL_iff)
  show ?case
  proof (cases s)
    case (Cons d s')
    have "d \<noteq> NUL" if "tolower d = tolower c" using that c(2) tolower_NUL by metis
    then show ?thesis
      using Cons.IH[OF t, of s'] Cons by (auto simp: strncasecmp_step[OF c(1)] simp del: strncasecmp.simps)
  qed (simp add: strncasecmp_step[OF c(1)] del: strncasecmp.simps)
qed

section \<open>The logger for syslog\<close>

record syslog_logger =
  sl_ident :: string
  sl_level :: log_level
  sl_priority :: int

primrec toSyslogPriority :: "log_level \<Rightarrow> int" where
  "toSyslogPriority INFO = 6"
| "toSyslogPriority DEBUG = 7"
| "toSyslogPriority ERROR = 3"
| "toSyslogPriority EMERGENCY = 0"

text \<open>\<^verbatim>\<open>setLevel\<close> calls \<^verbatim>\<open>setLevelInternal\<close> first.\<close>

definition syslog_setLevel :: "log_level \<Rightarrow> syslog_logger \<Rightarrow> syslog_logger" where
  "syslog_setLevel level l = l\<lparr>sl_priority := toSyslogPriority level, sl_level := level\<rparr>"

definition SyslogLogger_new :: "config \<Rightarrow> string \<Rightarrow> syslog_logger result" where
  "SyslogLogger_new cfg xpath =
     bindE (cfg_asString cfg (xpath @ ''/ident'')) (\<lambda>ident.
     bindE (cfg_asString cfg (xpath @ ''/level'')) (\<lambda>nam.
     bindE (stringToLevel nam) (\<lambda>level.
       Inr (syslog_setLevel level \<lparr>sl_ident = ident, sl_level = DEBUG, sl_priority = 0\<rparr>))))"

text \<open>The priority and the format that \<^verbatim>\<open>vsyslog\<close> is called with, if it is.\<close>

definition syslog_log :: "log_level \<Rightarrow> string \<Rightarrow> syslog_logger \<Rightarrow> (int \<times> string) option" where
  "syslog_log level format l =
     (if sl_level l \<le> level then Some (toSyslogPriority level, sl_ident l @ '': '' @ format) else None)"

definition on_logger :: "('l \<Rightarrow> 'l) \<Rightarrow> (request_impl \<times> 'l, unit) st" where
  "on_logger f = modifyS (\<lambda>(r, l). (r, f l))"

definition on_reply :: "(request_impl, 'a) st \<Rightarrow> (request_impl \<times> 'l, 'a) st" where
  "on_reply act = (\<lambda>(r, l). case act r of (res, r') \<Rightarrow> (res, (r', l)))"

text \<open>The page of a logger; \<^verbatim>\<open>rollOver\<close> of the logger for syslog does nothing.\<close>

definition syslog_handleRequest :: "(request_impl \<times> syslog_logger, unit) st" where
  "syslog_handleRequest = bindS (on_reply (setContentType ''text/plain'')) (\<lambda>_. bindS getS (\<lambda>(r, l).
     let action = getArg r ''action'' in
     if ''setlevel'' = action then
       bindS (liftS (stringToLevel (getArg r ''level''))) (\<lambda>level.
       bindS (on_logger (syslog_setLevel level)) (\<lambda>_.
         on_reply (in_scope (''level '' @ getArg r ''level'' @ ''successfully set'' @ LF) (returnS ()))))
     else if ''rollover'' = action then on_reply (in_scope (''rollover successful'' @ LF) (returnS ()))
     else on_reply (in_scope (''bad action'' @ LF) (returnS ()))))"

section \<open>The file logger\<close>

record file_logger =
  fl_level :: log_level
  fl_filename :: string
  fl_openMode :: nat
  fl_print_level :: bool
  fl_print_time :: bool
  fl_fd :: int

text \<open>
  The directories that the constructor makes: the name up to each slash, but not a slash at its begin.
  \<open>next_slash\<close> is \<^verbatim>\<open>find\<close> from a position on.
\<close>

definition next_slash :: "string \<Rightarrow> nat \<Rightarrow> nat" where
  "next_slash filename pos = pos + std_find (drop pos filename) (CHR ''/'')"

function parent_dirs :: "string \<Rightarrow> nat \<Rightarrow> string list" where
  "parent_dirs filename pos = (let p = next_slash filename (pos + 1) in
     if p \<ge> length filename then [] else take p filename # parent_dirs filename p)"
  by pat_completeness auto
termination
  by (relation "measure (\<lambda>(filename, pos). length filename - pos)") (auto simp: next_slash_def)

declare parent_dirs.simps [simp del]

text \<open>\<open>open_file\<close> is \<^verbatim>\<open>open\<close>; a failure is reported on the standard error output.\<close>

definition openFile :: "(string \<Rightarrow> nat \<Rightarrow> int) \<Rightarrow> file_logger \<Rightarrow> file_logger \<times> string list" where
  "openFile open_file l = (let fd = open_file (fl_filename l) (fl_openMode l) in
     (l\<lparr>fl_fd := fd\<rparr>, if fd = -1 then [''File logger cannot open file for writing: '' @ fl_filename l] else []))"

definition open_mode :: "string \<Rightarrow> nat \<Rightarrow> nat" where
  "open_mode reader mode = (if reader = ''all'' then 420 else if reader = ''group'' then 416 else if reader = ''user'' then 384 else mode)"

text \<open>\<open>mkdir_error\<close> is the error number of a directory that cannot be made, other than \<^verbatim>\<open>EEXIST\<close>.\<close>

definition FileLogger_new ::
  "config \<Rightarrow> string \<Rightarrow> (string \<Rightarrow> nat option) \<Rightarrow> (string \<Rightarrow> nat \<Rightarrow> int) \<Rightarrow> (file_logger \<times> string list) result" where
  "FileLogger_new cfg xpath mkdir_error open_file =
     bindE (cfg_asString cfg (xpath @ ''/file'')) (\<lambda>filename.
     bindE (bindE (cfg_asString cfg (xpath @ ''/level'')) stringToLevel) (\<lambda>level.
     bindE (cfg_asString_or cfg (xpath @ ''/print-level'') ''yes'') (\<lambda>print_level.
     bindE (cfg_asString_or cfg (xpath @ ''/print-time'') ''yes'') (\<lambda>print_time.
     bindE (cfg_asString_or cfg (xpath @ ''/read'') []) (\<lambda>reader.
       let failures = List.map_filter (\<lambda>d. map_option (\<lambda>errno. ''failed to create dir: '' @ d @ ''. Errno: '' @ show_nat errno) (mkdir_error d))
             (parent_dirs filename 0) in
       case openFile open_file \<lparr>fl_level = level, fl_filename = filename, fl_openMode = open_mode reader 436,
           fl_print_level = (strncasecmp 4 print_level ''yes'' = 0), fl_print_time = (strncasecmp 4 print_time ''yes'' = 0), fl_fd = -1\<rparr> of
         (l, errors) \<Rightarrow> Inr (l, failures @ errors))))))"

text \<open>\<^verbatim>\<open>snprintf\<close> is given one byte less than the buffer has, and ends what it writes with a byte of its own.\<close>

definition prepareFormat :: "nat \<Rightarrow> string \<Rightarrow> log_level \<Rightarrow> string \<Rightarrow> file_logger \<Rightarrow> string" where
  "prepareFormat sz timestr level format l = take (sz - 2)
     (if fl_print_time l \<and> fl_print_level l then timestr @ '' '' @ levelToString level @ '': '' @ format @ LF
      else if fl_print_time l then timestr @ '' '' @ format @ LF
      else if fl_print_level l then levelToString level @ '': '' @ format @ LF
      else format @ LF)"

text \<open>
  The line that a call of \<^verbatim>\<open>log\<close> puts into the queue, if it does. \<open>vsnprintf\<close> is the replacement of the directives of
  the format by the arguments of the call.
\<close>

definition file_log :: "(string \<Rightarrow> string) \<Rightarrow> string \<Rightarrow> log_level \<Rightarrow> string \<Rightarrow> file_logger \<Rightarrow> string option" where
  "file_log vsnprintf timestr level format l =
     (if level < fl_level l then None
      else if fl_fd l = -1 then None
      else let line = vsnprintf (prepareFormat 512 timestr level format l) in if line = [] then None else Some line)"

section \<open>What is logged\<close>

lemma next_slash_between:
  assumes "pos \<le> i" "i < next_slash filename pos" "i < length filename"
  shows "filename ! i \<noteq> CHR ''/''"
proof -
  have "i - pos < length (takeWhile (\<lambda>c. c \<noteq> CHR ''/'') (drop pos filename))"
    using assms by (simp add: next_slash_def std_find_length)
  from nth_mem[OF this] have "drop pos filename ! (i - pos) \<noteq> CHR ''/''"
    using set_takeWhileD takeWhile_nth[OF \<open>i - pos < _\<close>] by metis
  then show ?thesis using assms by simp
qed

lemma next_slash_found:
  assumes "next_slash filename pos < length filename"
  shows "filename ! next_slash filename pos = CHR ''/''"
  using assms nth_length_takeWhile[of "\<lambda>c. c \<noteq> CHR ''/''" "drop pos filename"]
  by (simp add: next_slash_def std_find_length)

text \<open>A directory is made for every slash of the name but one at its begin, from the outermost one inwards.\<close>

lemma parent_dirs_from:
  "parent_dirs filename pos = map (\<lambda>p. take p filename) (filter (\<lambda>p. filename ! p = CHR ''/'') [Suc pos..<length filename])"
proof (induction filename pos rule: parent_dirs.induct)
  case (1 filename pos)
  let ?p = "next_slash filename (Suc pos)"
  have lower: "Suc pos \<le> ?p" by (simp add: next_slash_def)
  show ?case
  proof (cases "?p \<ge> length filename")
    case True
    then have "filter (\<lambda>p. filename ! p = CHR ''/'') [Suc pos..<length filename] = []"
      using next_slash_between[of "Suc pos" _ filename] by (auto simp: filter_empty_conv)
    then show ?thesis using True by (subst parent_dirs.simps) (simp add: Let_def)
  next
    case False
    then have "[Suc pos..<length filename] = [Suc pos..<?p] @ ?p # [Suc ?p..<length filename]"
      using lower upt_add_eq_append[of "Suc pos" ?p "length filename - ?p"] by (simp add: upt_conv_Cons)
    moreover have "filter (\<lambda>p. filename ! p = CHR ''/'') [Suc pos..<?p] = []"
      using next_slash_between[of "Suc pos" _ filename] False by (auto simp: filter_empty_conv)
    ultimately show ?thesis
      using 1[OF refl] False next_slash_found[of filename "Suc pos"] by (subst parent_dirs.simps) (simp add: Let_def)
  qed
qed

text \<open>A format that is too long loses its end, and with it the end of the line.\<close>

lemma prepareFormat_cut:
  "length (prepareFormat sz timestr level format l) \<le> sz - 2"
  "length format \<ge> sz - 2 \<Longrightarrow> \<not> fl_print_time l \<Longrightarrow> \<not> fl_print_level l \<Longrightarrow>
     prepareFormat sz timestr level format l = take (sz - 2) format"
  by (simp_all add: prepareFormat_def)

lemma prepareFormat_whole:
  "length timestr + length format + 9 \<le> sz - 2 \<Longrightarrow> fl_print_time l \<Longrightarrow> fl_print_level l \<Longrightarrow>
     prepareFormat sz timestr level format l = timestr @ '' '' @ levelToString level @ '': '' @ format @ LF"
  by (cases level) (simp_all add: prepareFormat_def LF_def)

section \<open>The threads of a file logger\<close>

text \<open>
  Where the writing thread is: before the check of the stop flag, before the lock of the queue, in the wait, woken
  up, with the lines it has taken from the queue, and at its end. The owner runs, has set the stop flag, has notified
  the thread, and has joined it.
\<close>

datatype writer = Checking | Entering | Waiting | Woken | Copied "string list" | Returned

datatype owner = Running | Stopping | Joining | Destroyed

record logger_state =
  ls_logger :: file_logger
  ls_queue :: "string list"
  ls_writer :: writer
  ls_owner :: owner
  ls_written :: "string list"

definition logger_started :: "logger_state \<Rightarrow> bool" where
  "logger_started s \<longleftrightarrow> ls_queue s = [] \<and> ls_writer s = Checking \<and> ls_owner s = Running \<and> ls_written s = []"

text \<open>\<^verbatim>\<open>notify_one\<close> is lost when nobody waits.\<close>

definition notified :: "writer \<Rightarrow> writer" where
  "notified w = (if w = Waiting then Woken else w)"

datatype logger_event = LogLine string | CheckFlag | Wait | Spurious | Swap | Write | RollOver int
  | SetFlag | NotifyThread | Join

inductive logger_step :: "logger_state \<Rightarrow> logger_event \<Rightarrow> logger_state \<Rightarrow> bool" where
  log_line: "ls_owner s = Running \<Longrightarrow> file_log vsnprintf timestr level format (ls_logger s) = Some line \<Longrightarrow>
    logger_step s (LogLine line) (s\<lparr>ls_queue := ls_queue s @ [line], ls_writer := notified (ls_writer s)\<rparr>)"
| go_on: "ls_writer s = Checking \<Longrightarrow> ls_owner s = Running \<Longrightarrow> logger_step s CheckFlag (s\<lparr>ls_writer := Entering\<rparr>)"
| give_up: "ls_writer s = Checking \<Longrightarrow> ls_owner s \<noteq> Running \<Longrightarrow> logger_step s CheckFlag (s\<lparr>ls_writer := Returned\<rparr>)"
| wait: "ls_writer s = Entering \<Longrightarrow> logger_step s Wait (s\<lparr>ls_writer := Waiting\<rparr>)"
| spurious: "ls_writer s = Waiting \<Longrightarrow> logger_step s Spurious (s\<lparr>ls_writer := Woken\<rparr>)"
| swap: "ls_writer s = Woken \<Longrightarrow> logger_step s Swap (s\<lparr>ls_queue := [], ls_writer := Copied (ls_queue s)\<rparr>)"
| write_lines: "ls_writer s = Copied ls \<Longrightarrow> logger_step s Write
    (s\<lparr>ls_writer := Checking, ls_written := (if fl_fd (ls_logger s) \<noteq> -1 then ls_written s @ ls else ls_written s)\<rparr>)"
| roll_over: "ls_owner s = Running \<Longrightarrow> openFile open_file (ls_logger s) = (l, errors) \<Longrightarrow>
    logger_step s (RollOver (fl_fd l)) (s\<lparr>ls_logger := l\<rparr>)"
| set_flag: "ls_owner s = Running \<Longrightarrow> logger_step s SetFlag (s\<lparr>ls_owner := Stopping\<rparr>)"
| notify_thread: "ls_owner s = Stopping \<Longrightarrow>
    logger_step s NotifyThread (s\<lparr>ls_owner := Joining, ls_writer := notified (ls_writer s)\<rparr>)"
| join: "ls_owner s = Joining \<Longrightarrow> ls_writer s = Returned \<Longrightarrow> logger_step s Join (s\<lparr>ls_owner := Destroyed\<rparr>)"

inductive_cases logger_stepE: "logger_step s e s'"

section \<open>The order of the lines\<close>

fun logged :: "logger_event list \<Rightarrow> string list" where
  "logged [] = []"
| "logged (LogLine line # es) = line # logged es"
| "logged (e # es) = logged es"

lemma logged_append [simp]: "logged (es @ es') = logged es @ logged es'"
  by (induction es rule: logged.induct) simp_all

fun taken_lines :: "writer \<Rightarrow> string list" where
  "taken_lines (Copied ls) = ls"
| "taken_lines w = []"

definition all_lines :: "logger_state \<Rightarrow> string list" where
  "all_lines s = ls_written s @ taken_lines (ls_writer s) @ ls_queue s"

definition reopened :: "logger_event \<Rightarrow> bool" where
  "reopened e \<longleftrightarrow> e \<noteq> RollOver (-1)"

lemma taken_notified [simp]: "taken_lines (notified w) = taken_lines w"
  by (cases w) (simp_all add: notified_def)

lemma logger_step_lines:
  assumes "logger_step s e s'" "fl_fd (ls_logger s) \<noteq> -1" "reopened e"
  shows "all_lines s' = all_lines s @ logged [e] \<and> fl_fd (ls_logger s') \<noteq> -1"
  using assms by cases (auto simp: all_lines_def reopened_def)

lemma logger_run_lines:
  assumes "run logger_step s es s'" "fl_fd (ls_logger s) \<noteq> -1" "list_all reopened es"
  shows "all_lines s' = all_lines s @ logged es \<and> fl_fd (ls_logger s') \<noteq> -1"
  using assms
proof (induction rule: run.induct)
  case (run_step s es s' e s'')
  then show ?case using logger_step_lines[of s' e s''] by simp
qed simp

section \<open>The end of the thread\<close>

primrec writer_left :: "writer \<Rightarrow> nat" where
  "writer_left Entering = 5"
| "writer_left Waiting = 4"
| "writer_left Woken = 3"
| "writer_left (Copied ls) = 2"
| "writer_left Checking = 1"
| "writer_left Returned = 0"

primrec owner_left :: "owner \<Rightarrow> nat" where
  "owner_left Running = 3"
| "owner_left Stopping = 2"
| "owner_left Joining = 1"
| "owner_left Destroyed = 0"

text \<open>A logger whose thread was in its wait, or past it with an empty queue, when the flag was set.\<close>

definition clean :: "logger_state \<Rightarrow> bool" where
  "clean s \<longleftrightarrow> ls_owner s \<noteq> Running \<and> ls_writer s \<noteq> Entering \<and> (ls_writer s = Waiting \<longrightarrow> ls_owner s = Stopping) \<and>
     (ls_owner s = Destroyed \<longrightarrow> ls_writer s = Returned) \<and>
     (ls_writer s \<in> {Waiting, Woken} \<or> ls_queue s = [])"

definition logger_left :: "logger_state \<Rightarrow> nat" where
  "logger_left s = writer_left (ls_writer s) + owner_left (ls_owner s)"

lemma logger_step_clean:
  assumes "clean s" "logger_step s e s'"
  shows "clean s' \<and> Suc (logger_left s') \<le> logger_left s \<and> reopened e \<and> logged [e] = []"
  using assms(2,1) by cases (auto simp: clean_def logger_left_def notified_def reopened_def)

interpretation shutdown: bounded_system clean logger_step clean logger_left "\<lambda>e. True"
  by unfold_locales (use logger_step_clean in auto)

lemma clean_run_events: "run logger_step s es s' \<Longrightarrow> clean s \<Longrightarrow> list_all reopened es \<and> logged es = []"
proof (induction rule: run.induct)
  case (run_step s es s' e s'')
  then show ?case using logger_step_clean[OF shutdown.run_inv[OF run_step.hyps(1) run_step.prems] run_step.hyps(2)] by simp
qed simp

lemma clean_goes_on:
  assumes "clean s" "ls_owner s \<noteq> Destroyed"
  shows "\<exists>e s'. e \<noteq> Spurious \<and> logger_step s e s'"
proof (cases "ls_owner s")
  case Stopping
  then show ?thesis using logger_step.notify_thread by blast
next
  case Joining
  show ?thesis
  proof (cases "ls_writer s")
    case (Copied ls)
    then show ?thesis using logger_step.write_lines by blast
  qed (use assms(1) Joining logger_step.give_up logger_step.swap logger_step.join in \<open>fastforce simp: clean_def\<close>)+
qed (use assms in \<open>simp_all add: clean_def\<close>)

section \<open>Properties\<close>

text \<open>
  A text denotes a level exactly when it is, up to its first NUL and without regard to case, the name of the level.
\<close>

theorem level_names:
  "stringToLevel s = Inr l \<longleftrightarrow> map tolower (takeWhile (\<lambda>c. c \<noteq> NUL) s) = map tolower (levelToString l)"
proof -
  have w: "strncasecmp 5 s ''INFO'' = 0 \<longleftrightarrow> map tolower (takeWhile (\<lambda>c. c \<noteq> NUL) s) = map tolower ''INFO''"
    "strncasecmp 6 s ''DEBUG'' = 0 \<longleftrightarrow> map tolower (takeWhile (\<lambda>c. c \<noteq> NUL) s) = map tolower ''DEBUG''"
    "strncasecmp 6 s ''ERROR'' = 0 \<longleftrightarrow> map tolower (takeWhile (\<lambda>c. c \<noteq> NUL) s) = map tolower ''ERROR''"
    "strncasecmp 6 s ''EMERG'' = 0 \<longleftrightarrow> map tolower (takeWhile (\<lambda>c. c \<noteq> NUL) s) = map tolower ''EMERG''"
    using strncasecmp_whole[of "''INFO''" s] strncasecmp_whole[of "''DEBUG''" s]
      strncasecmp_whole[of "''ERROR''" s] strncasecmp_whole[of "''EMERG''" s]
    by (simp_all del: strncasecmp.simps map_eq_conv add: numeral_eq_Suc)
  have d: "distinct [map tolower ''INFO'', map tolower ''DEBUG'', map tolower ''ERROR'', map tolower ''EMERG'']" by code_simp
  show ?thesis unfolding stringToLevel_def w using d by (cases l) (auto simp del: list.map)
qed

definition example_logger :: "writer \<Rightarrow> owner \<Rightarrow> string list \<Rightarrow> string list \<Rightarrow> logger_state" where
  "example_logger w ow queue written = \<lparr>ls_logger = \<lparr>fl_level = INFO, fl_filename = ''/l'', fl_openMode = 436,
     fl_print_level = False, fl_print_time = False, fl_fd = 3\<rparr>, ls_queue = queue, ls_writer = w, ls_owner = ow, ls_written = written\<rparr>"

lemma example_logger_fields [simp]:
  "ls_queue (example_logger w ow queue written) = queue" "ls_writer (example_logger w ow queue written) = w"
  "ls_owner (example_logger w ow queue written) = ow" "ls_written (example_logger w ow queue written) = written"
  "fl_fd (ls_logger (example_logger w ow queue written)) = 3"
  by (simp_all add: example_logger_def)

lemma example_logger_update [simp]:
  "(example_logger w ow queue written)\<lparr>ls_writer := w'\<rparr> = example_logger w' ow queue written"
  "(example_logger w ow queue written)\<lparr>ls_owner := ow'\<rparr> = example_logger w ow' queue written"
  "(example_logger w ow queue written)\<lparr>ls_queue := queue'\<rparr> = example_logger w ow queue' written"
  "(example_logger w ow queue written)\<lparr>ls_written := written'\<rparr> = example_logger w ow queue written'"
  by (simp_all add: example_logger_def)

text \<open>The steps of a logger, as a function on the examples.\<close>

lemma example_logger_steps:
  "logger_step (example_logger w Running q d) (LogLine ''a'') (example_logger (notified w) Running (q @ [''a'']) d)"
  "logger_step (example_logger Checking Running q d) CheckFlag (example_logger Entering Running q d)"
  "logger_step (example_logger Checking Joining q d) CheckFlag (example_logger Returned Joining q d)"
  "logger_step (example_logger Entering ow q d) Wait (example_logger Waiting ow q d)"
  "logger_step (example_logger Woken ow q d) Swap (example_logger (Copied q) ow [] d)"
  "logger_step (example_logger (Copied ls) ow q d) Write (example_logger Checking ow q (d @ ls))"
  "logger_step (example_logger w Running q d) SetFlag (example_logger w Stopping q d)"
  "logger_step (example_logger w Stopping q d) NotifyThread (example_logger (notified w) Joining q d)"
  "logger_step (example_logger Returned Joining q d) Join (example_logger Returned Destroyed q d)"
proof -
  have "file_log (\<lambda>f. ''a'') [] INFO ''a'' (ls_logger (example_logger w Running q d)) = Some ''a''"
    by (simp add: file_log_def example_logger_def)
  from logger_step.log_line[OF _ this]
  show "logger_step (example_logger w Running q d) (LogLine ''a'') (example_logger (notified w) Running (q @ [''a'']) d)" by simp
qed (use logger_step.go_on[of "example_logger Checking Running q d"] logger_step.give_up[of "example_logger Checking Joining q d"]
    logger_step.wait[of "example_logger Entering ow q d"] logger_step.swap[of "example_logger Woken ow q d"]
    logger_step.write_lines[of "example_logger (Copied ls) ow q d" ls] logger_step.set_flag[of "example_logger w Running q d"]
    logger_step.notify_thread[of "example_logger w Stopping q d"] logger_step.join[of "example_logger Returned Joining q d"] in simp_all)

lemmas logger_run_Cons = run_Cons[where step = logger_step]
lemmas logger_run_nil = run_nil[where step = logger_step]
lemmas example_step = example_logger_steps[THEN logger_run_Cons]

text \<open>
  C28. As long as the file can be opened again, the lines written, those that the thread has taken and those in the
  queue are, in this order, the lines that were logged: whatever the interleaving, no line is written twice, none is
  written before an earlier one, and none is lost while the thread runs.
\<close>

theorem log_lines_in_order:
  assumes "logger_started s0" "fl_fd (ls_logger s0) \<noteq> -1" "run logger_step s0 es s" "list_all reopened es"
  shows "ls_written s @ taken_lines (ls_writer s) @ ls_queue s = logged es \<and> prefix (ls_written s) (logged es)"
proof -
  have "all_lines s0 = []" using assms(1) by (simp add: all_lines_def logger_started_def)
  then have "all_lines s = logged es" using logger_run_lines[OF assms(3,2,4)] by simp
  then show ?thesis by (simp add: all_lines_def flip: append_assoc) (metis prefixI append.assoc)
qed

theorem log_lines_in_order_witness:
  "logged [CheckFlag, Wait, LogLine ''a'', LogLine ''a'', Swap, LogLine ''a''] = [''a'', ''a''] @ [''a'']"
proof -
  let ?es = "[CheckFlag, Wait, LogLine ''a'', LogLine ''a'', Swap, LogLine ''a'']"
  have n: "notified Waiting = Woken" "notified Woken = Woken" "notified (Copied ls) = Copied ls" for ls by (simp_all add: notified_def)
  note s = example_logger_steps
  have r: "run logger_step (example_logger Checking Running [] []) ?es (example_logger (Copied [''a'', ''a'']) Running [''a''] [])"
    using s(2)[of "[]" "[]"] s(4)[of Running "[]" "[]"] s(1)[of Waiting "[]" "[]"] s(1)[of Woken "[''a'']" "[]"]
      s(5)[of Running "[''a'', ''a'']" "[]"] s(1)[of "Copied [''a'', ''a'']" "[]" "[]"]
    unfolding n append_Nil append_Cons by - (rule logger_run_Cons logger_run_nil, assumption?)+
  show ?thesis
    using log_lines_in_order[OF _ _ r] by (simp add: logger_started_def reopened_def)
qed

text \<open>
  C29. A logger that is destroyed while its thread waits ends: it makes at most six more steps, and when only a
  spurious wake-up is left the thread is joined and every line that was logged has been written.
\<close>

theorem clean_shutdown:
  assumes "logger_started s0" "fl_fd (ls_logger s0) \<noteq> -1" "run logger_step s0 es s" "list_all reopened es"
    and "ls_writer s = Waiting" "ls_owner s = Stopping" "run logger_step s es' s'"
  shows "length es' \<le> 6 \<and> ((\<nexists>e s''. e \<noteq> Spurious \<and> logger_step s' e s'') \<longrightarrow>
    ls_owner s' = Destroyed \<and> ls_written s' = logged es)"
proof -
  have c: "clean s" using assms(5,6) by (simp add: clean_def)
  have "length es' \<le> 6" using shutdown.run_bounded[OF assms(7) c] assms(5,6) by (simp add: logger_left_def)
  moreover have lines: "all_lines s' = logged es"
  proof -
    have s: "all_lines s = logged es \<and> fl_fd (ls_logger s) \<noteq> -1"
      using logger_run_lines[OF assms(3,2,4)] assms(1) by (simp add: all_lines_def logger_started_def)
    show ?thesis using logger_run_lines[OF assms(7)] clean_run_events[OF assms(7) c] s by simp
  qed
  moreover have "clean s'" by (rule shutdown.run_inv[OF assms(7) c])
  ultimately show ?thesis using clean_goes_on[of s'] by (auto simp: all_lines_def clean_def)
qed

theorem clean_shutdown_witness:
  "length [NotifyThread] \<le> 6 \<and> logger_step (example_logger Waiting Stopping [] []) NotifyThread (example_logger Woken Joining [] [])"
proof -
  have r: "run logger_step (example_logger Checking Running [] []) [CheckFlag, Wait, SetFlag] (example_logger Waiting Stopping [] [])"
    by (rule example_step(2), rule example_step(4), rule example_step(7), rule logger_run_nil)
  have n: "logger_step (example_logger Waiting Stopping [] []) NotifyThread (example_logger Woken Joining [] [])"
    using example_logger_steps(8)[of Waiting "[]" "[]"] by (simp add: notified_def)
  show ?thesis
    using clean_shutdown[OF _ _ r _ _ _ logger_run_Cons[OF n logger_run_nil]] n by (simp add: logger_started_def reopened_def)
qed

text \<open>
  The destructor may not return: the flag is set and the thread notified after it has checked the flag and before it
  waits. Then nothing but a spurious wake-up of the thread is left to happen.
\<close>

theorem logger_join_hangs:
  "\<exists>s. run logger_step (example_logger Checking Running [] []) [CheckFlag, SetFlag, NotifyThread, Wait] s \<and>
    ls_owner s = Joining \<and> (\<nexists>e s'. e \<noteq> Spurious \<and> logger_step s e s')"
proof (intro exI conjI)
  show "run logger_step (example_logger Checking Running [] []) [CheckFlag, SetFlag, NotifyThread, Wait]
      (example_logger Waiting Joining [] [])"
    by (rule example_step(2), rule example_step(7), rule logger_run_Cons,
        use example_logger_steps(8)[of Entering "[]" "[]"] in \<open>simp add: notified_def\<close>, rule example_step(4), rule logger_run_nil)
  show "\<nexists>e s'. e \<noteq> Spurious \<and> logger_step (example_logger Waiting Joining [] []) e s'"
    by (auto elim!: logger_stepE)
qed simp

text \<open>
  A line may be lost: it is logged while the thread writes earlier ones, and the logger is destroyed before the thread
  waits again.
\<close>

theorem last_lines_lost:
  "\<exists>s. run logger_step (example_logger Checking Running [] [])
      [CheckFlag, Wait, LogLine ''a'', Swap, LogLine ''a'', SetFlag, NotifyThread, Write, CheckFlag, Join] s \<and>
    ls_owner s = Destroyed \<and> ls_written s = [''a''] \<and> ls_queue s = [''a'']"
proof (intro exI conjI)
  have n: "notified Waiting = Woken" "notified (Copied ls) = Copied ls" for ls by (simp_all add: notified_def)
  note s = example_logger_steps
  show "run logger_step (example_logger Checking Running [] [])
      [CheckFlag, Wait, LogLine ''a'', Swap, LogLine ''a'', SetFlag, NotifyThread, Write, CheckFlag, Join]
      (example_logger Returned Destroyed [''a''] [''a''])"
    using s(2)[of "[]" "[]"] s(4)[of Running "[]" "[]"] s(1)[of Waiting "[]" "[]"] s(5)[of Running "[''a'']" "[]"]
      s(1)[of "Copied [''a'']" "[]" "[]"] s(7)[of "Copied [''a'']" "[''a'']" "[]"] s(8)[of "Copied [''a'']" "[''a'']" "[]"]
      s(6)[of "[''a'']" Joining "[''a'']" "[]"] s(3)[of "[''a'']" "[''a'']"] s(9)[of "[''a'']" "[''a'']"]
    unfolding n append_Nil by - (rule logger_run_Cons logger_run_nil, assumption?)+
qed simp_all

end
