(* ===== verification/Startup.thy ===== *)
theory Startup
  imports Component_Set Globals
begin

text \<open>
  The constructor of \<^verbatim>\<open>Globals\<close> (\<^verbatim>\<open>library/globals.cpp\<close>), which composes the loader, the component set, the handler set, the
  logger and the pools. A daemon that starts has loaded every component exactly once and has a started pool for every
  handler (\<open>daemon_ready\<close>).
\<close>

section \<open>The parts of the daemon\<close>

record ('r, 'c, 'h, 'l) globals =
  gl_components :: "'c component_set"
  gl_handlers :: "('r, 'h) handler_description list"
  gl_logger :: 'l
  gl_pools :: "'h pools"

definition ComponentSet_new :: "'c component_set" where
  "ComponentSet_new = \<lparr>cs_components = [], cs_loadingStack = []\<rparr>"

text \<open>
  \<open>open_module\<close> is the dynamic linker; \<open>onLoad\<close> is the method of the components, \<open>as_handler\<close> and \<open>as_logger\<close> are casts.
\<close>

definition Globals_init ::
  "'r regex_lib \<Rightarrow> config \<Rightarrow> (error \<Rightarrow> string) \<Rightarrow> (string \<Rightarrow> 'c result) factory_map \<Rightarrow> ('c \<Rightarrow> 'c load_prog) \<Rightarrow>
   ('c \<Rightarrow> 'h option) \<Rightarrow> ('c \<Rightarrow> 'l option) \<Rightarrow> ('c component_set, ('r, 'h) handler_description list \<times> 'l \<times> 'h pools) st" where
  "Globals_init R cfg what factories onLoad as_handler as_logger =
     bindS (ComponentSet_init cfg what (findComponentFactory factories) onLoad) (\<lambda>_.
     bindS (HandlerSet_init R cfg (ComponentSet_find what onLoad) as_handler) (\<lambda>handlers.
     bindS (initLogger cfg (ComponentSet_find what onLoad) as_logger) (\<lambda>logger.
     bindS (liftS (initPools cfg (getPoolsNeeded handlers))) (\<lambda>pools.
       returnS (handlers, logger, startThreadPools pools)))))"

definition Globals_new ::
  "'r regex_lib \<Rightarrow> config \<Rightarrow> (error \<Rightarrow> string) \<Rightarrow> (string \<Rightarrow> string + (string \<Rightarrow> 'c result) factory_map) \<Rightarrow> ('c \<Rightarrow> 'c load_prog) \<Rightarrow>
   ('c \<Rightarrow> 'h option) \<Rightarrow> ('c \<Rightarrow> 'l option) \<Rightarrow> ('r, 'c, 'h, 'l) globals result" where
  "Globals_new R cfg what open_module onLoad as_handler as_logger =
     bindE (Loader_init cfg open_module) (\<lambda>factories.
     case Globals_init R cfg what factories onLoad as_handler as_logger ComponentSet_new of
       (Inl e, _) \<Rightarrow> Inl e
     | (Inr (handlers, logger, pools), cs) \<Rightarrow>
         Inr \<lparr>gl_components = cs, gl_handlers = handlers, gl_logger = logger, gl_pools = pools\<rparr>)"

section \<open>The set of components\<close>

lemma keeps_option_case: "keeps P m \<Longrightarrow> (\<And>x. keeps P (f x)) \<Longrightarrow> keeps P (case v of None \<Rightarrow> m | Some x \<Rightarrow> f x)"
  by (cases v) simp_all

text \<open>What every lookup of a component keeps, the set-up of the handlers and of the logger keeps.\<close>

lemma keeps_init_components:
  "(\<And>n. keeps P (find_component n)) \<Longrightarrow> keeps P (init_components cfg find_component as_handler cs d)"
  by (induction cs arbitrary: d)
    (auto simp: init_component_def intro!: keeps_intros keeps_option_case)

lemma keeps_init_handlers:
  assumes "\<And>n. keeps P (find_component n)"
  shows "keeps P (init_handlers R cfg find_component as_handler ks ds)"
  using keeps_init_components[OF assms]
  by (induction ks arbitrary: ds) (auto simp: init_handler_def intro!: keeps_intros)

lemma keeps_HandlerSet_init:
  assumes "\<And>n. keeps P (find_component n)"
  shows "keeps P (HandlerSet_init R cfg find_component as_handler)" "keeps P (initLogger cfg find_component as_logger)"
  using keeps_init_handlers[OF assms] assms
  by (auto simp: HandlerSet_init_def initLogger_def intro!: keeps_intros keeps_option_case)

definition all_loaded :: "'c component_set \<Rightarrow> bool" where
  "all_loaded cs \<longleftrightarrow> cs_wf cs \<and> set (cs_loadingStack cs) = fst ` set (cs_components cs)"

lemma all_loaded_extends: "all_loaded cs \<Longrightarrow> extends cs cs' \<Longrightarrow> all_loaded cs'"
proof -
  assume a: "all_loaded cs" and e: "extends cs cs'"
  have wf: "cs_wf cs'" and n: "names cs' = names cs" using extends_wf[OF e] extends_names[OF e] by simp_all
  have "set (cs_loadingStack cs') \<subseteq> names cs'" using wf marked_names[of cs'] by (auto simp: cs_wf_def)
  moreover have "names cs = set (cs_loadingStack cs)" using a by (simp add: all_loaded_def names_def)
  then have "names cs \<subseteq> set (cs_loadingStack cs')" using e by (auto simp: extends_def)
  ultimately show "all_loaded cs'" using wf n by (simp add: all_loaded_def names_def)
qed

lemma keeps_loaded_find: "keeps all_loaded (ComponentSet_find what onLoad nam)"
  unfolding keeps_def ComponentSet_find_def
proof (intro allI impI)
  fix cs :: "'a component_set"
  assume a: "all_loaded cs"
  have "extends cs (snd (find_or_load (sendOnLoad (load_fuel cs) what onLoad) nam cs))"
    using a unfolding all_loaded_def by (intro find_or_load_extends) (use sendOnLoad_extends in blast)+
  then show "all_loaded (snd (find_or_load (sendOnLoad (load_fuel cs) what onLoad) nam cs))" by (rule all_loaded_extends[OF a])
qed

text \<open>While components are added none is loaded.\<close>

definition none_loaded :: "'c component_set \<Rightarrow> bool" where
  "none_loaded cs \<longleftrightarrow> sm_sorted (cs_components cs) \<and> cs_loadingStack cs = []"

lemma keeps_add: "keeps none_loaded (ComponentSet_add what find_factory nam type path)"
  by (auto simp: keeps_def none_loaded_def ComponentSet_add_def sm_sorted_insert split: option.splits sum.splits)

lemma ComponentSet_init_loaded:
  assumes "\<And>c. honest (onLoad c)" "ComponentSet_init cfg what find_factory onLoad ComponentSet_new = (Inr (), cs)"
  shows "all_loaded cs"
proof -
  obtain v cs1 where f: "foreachS (\<lambda>i. bindS (liftS (cfg_asString cfg (i @ ''/@name''))) (\<lambda>nam.
       bindS (liftS (cfg_asString cfg (i @ ''/@type''))) (\<lambda>type. ComponentSet_add what find_factory nam type i))) v
       ComponentSet_new = (Inr (), cs1)" and l: "sendOnLoadToComponents what onLoad cs1 = (Inr (), cs)"
    using assms(2) unfolding ComponentSet_init_def by (elim bindS_InrE) (auto simp: liftS_def split: sum.splits)
  have "keeps none_loaded (foreachS (\<lambda>i. bindS (liftS (cfg_asString cfg (i @ ''/@name''))) (\<lambda>nam.
       bindS (liftS (cfg_asString cfg (i @ ''/@type''))) (\<lambda>type. ComponentSet_add what find_factory nam type i))) v)"
    by (intro keeps_intros keeps_add)
  from keepsD[OF this, of ComponentSet_new] f have n: "none_loaded cs1"
    by (simp add: none_loaded_def ComponentSet_new_def sm_sorted_def)
  then have wf: "cs_wf cs1" by (simp add: cs_wf_def none_loaded_def)
  have "foreachS (\<lambda>i. sendOnLoad (load_fuel cs1) what onLoad (fst i)) (cs_components cs1) cs1 = (Inr (), cs)"
    using l unfolding sendOnLoadToComponents_def .
  from load_all[OF assms(1) _ wf unmarked_fuel this]
  have "extends cs1 cs \<and> fst ` set (cs_components cs1) \<subseteq> set (cs_loadingStack cs)" by (auto simp: names_def)
  then show ?thesis
    using marked_names[of cs] extends_names[of cs1 cs] by (auto simp: all_loaded_def extends_def cs_wf_def names_def)
qed

section \<open>Pools\<close>

lemma started_find: "sm_find (startThreadPools pools) n = map_option pool_start (sm_find pools n)"
  by (induction pools) (auto simp: startThreadPools_def sm_find_def)

section \<open>Properties\<close>

text \<open>
  A daemon that has been set up is ready: every component of the configuration has been loaded exactly once, none
  is loaded later by a lookup, and the pool of every handler exists and is started.
\<close>

theorem daemon_ready:
  assumes "\<And>c. honest (onLoad c)" "Globals_new R cfg what open_module onLoad as_handler as_logger = Inr g"
  shows "distinct (cs_loadingStack (gl_components g)) \<and>
    set (cs_loadingStack (gl_components g)) = fst ` set (cs_components (gl_components g)) \<and>
    (\<forall>d\<in>set (gl_handlers g). \<exists>p. sm_find (gl_pools g) (hd_poolName d) = Some p \<and> pi_started (tp_info p))"
proof -
  obtain factories handlers logger pools cs where
    i: "Globals_init R cfg what factories onLoad as_handler as_logger ComponentSet_new = (Inr (handlers, logger, pools), cs)"
    and g: "g = \<lparr>gl_components = cs, gl_handlers = handlers, gl_logger = logger, gl_pools = pools\<rparr>"
  proof -
    obtain factories where f: "(case Globals_init R cfg what factories onLoad as_handler as_logger ComponentSet_new of
       (Inl e, _) \<Rightarrow> Inl e | (Inr (handlers, logger, pools), cs) \<Rightarrow>
         Inr \<lparr>gl_components = cs, gl_handlers = handlers, gl_logger = logger, gl_pools = pools\<rparr>) = Inr g"
      using assms(2) by (auto simp: Globals_new_def bindE_eq_Inr)
    obtain res cs where "Globals_init R cfg what factories onLoad as_handler as_logger ComponentSet_new = (res, cs)" by fastforce
    then show ?thesis using f that by (cases res) auto
  qed
  from i[unfolded Globals_init_def] obtain u cs1 where
    c: "ComponentSet_init cfg what (findComponentFactory factories) onLoad ComponentSet_new = (Inr u, cs1)" and
    i1: "bindS (HandlerSet_init R cfg (ComponentSet_find what onLoad) as_handler) (\<lambda>handlers.
     bindS (initLogger cfg (ComponentSet_find what onLoad) as_logger) (\<lambda>logger.
     bindS (liftS (initPools cfg (getPoolsNeeded handlers))) (\<lambda>pools.
       returnS (handlers, logger, startThreadPools pools)))) cs1 = (Inr (handlers, logger, pools), cs)"
    by (rule bindS_InrE)
  from i1 obtain hs cs2 where h: "HandlerSet_init R cfg (ComponentSet_find what onLoad) as_handler cs1 = (Inr hs, cs2)" and
    i2: "bindS (initLogger cfg (ComponentSet_find what onLoad) as_logger) (\<lambda>logger.
     bindS (liftS (initPools cfg (getPoolsNeeded hs))) (\<lambda>pools. returnS (hs, logger, startThreadPools pools))) cs2 =
       (Inr (handlers, logger, pools), cs)"
    by (rule bindS_InrE)
  from i2 obtain l cs3 where l: "initLogger cfg (ComponentSet_find what onLoad) as_logger cs2 = (Inr l, cs3)" and
    i3: "bindS (liftS (initPools cfg (getPoolsNeeded hs))) (\<lambda>pools. returnS (hs, l, startThreadPools pools)) cs3 =
       (Inr (handlers, logger, pools), cs)"
    by (rule bindS_InrE)
  from i3 obtain pools0 where p: "initPools cfg (getPoolsNeeded handlers) = Inr pools0" "pools = startThreadPools pools0" and cs: "cs3 = cs"
    by (auto simp: bindS_def liftS_def returnS_def split: sum.splits)
  have k: "keeps all_loaded (HandlerSet_init R cfg (ComponentSet_find what onLoad) as_handler)"
    "keeps all_loaded (initLogger cfg (ComponentSet_find what onLoad) as_logger)"
    by (intro keeps_HandlerSet_init keeps_loaded_find)+
  have "ComponentSet_init cfg what (findComponentFactory factories) onLoad ComponentSet_new = (Inr (), cs1)" using c by simp
  from keepsD[OF k(1) ComponentSet_init_loaded[OF assms(1) this]] have "all_loaded cs2" using h by simp
  from keepsD[OF k(2) this] have "all_loaded cs" unfolding l snd_conv cs .
  moreover have "\<exists>q. sm_find pools (hd_poolName d) = Some q \<and> pi_started (tp_info q)" if d: "d \<in> set handlers" for d
  proof -
    obtain q where "sm_find pools0 (hd_poolName d) = Some q"
      using initPools_needed[OF p(1)] d by (auto simp: getPoolsNeeded_set)
    then show ?thesis using p(2) by (auto simp: started_find pool_start_def)
  qed
  ultimately show ?thesis using g by (simp add: all_loaded_def cs_wf_def)
qed

text \<open>A daemon with one component, which is the handler and the logger.\<close>

definition small_config :: config where
  "small_config = \<lparr>cfg_asInt = (\<lambda>k. Inr 1), cfg_asInt_or = (\<lambda>k d. Inr d),
     cfg_asString = (\<lambda>k. Inr (if k = ''c/@type'' then ''main:t'' else ''main'')), cfg_asString_or = (\<lambda>k d. Inr d),
     cfg_subKeys = (\<lambda>k. Inr (if k = ''/fastcgi/handlers/handler'' then [''h''] else if k = ''/fastcgi/pools/pool'' then [''p'']
        else if k = ''h/component'' \<or> k = ''/fastcgi/components/component'' then [''c'']
        else if k = ''/fastcgi/modules/module'' then [''m''] else []))\<rparr>"

definition small_set :: "nat component_set" where
  "small_set = \<lparr>cs_components = [(''main'', \<lparr>ct_component = 7, ct_isLoadingStarted = True\<rparr>)], cs_loadingStack = [''main'']\<rparr>"

definition small_started :: "(string, nat, nat, nat) globals" where
  "small_started = \<lparr>gl_components = small_set,
     gl_handlers = [\<lparr>hd_filters = [], hd_handlers = [7], hd_poolName = ''main'', hd_id = []\<rparr>], gl_logger = 7,
     gl_pools = [(''main'', pool_start (ThreadPool_new 1 1))]\<rparr>"

lemma small_parts:
  "Loader_init small_config (\<lambda>path. Inr [(''t'', \<lambda>path. Inr 7)]) = Inr [(''main:t'', \<lambda>path. Inr (7 :: nat) :: nat result)]"
  "ComponentSet_init small_config (\<lambda>e. []) (findComponentFactory [(''main:t'', \<lambda>path. Inr 7)]) (\<lambda>c. Loaded) ComponentSet_new = (Inr (), small_set)"
  "HandlerSet_init exact_regex small_config (ComponentSet_find (\<lambda>e. []) (\<lambda>c. Loaded)) Some small_set =
     (Inr [\<lparr>hd_filters = [], hd_handlers = [7], hd_poolName = ''main'', hd_id = []\<rparr>], small_set)"
  "initLogger small_config (ComponentSet_find (\<lambda>e. []) (\<lambda>c. Loaded)) Some small_set = (Inr 7, small_set)"
  "initPools small_config [''main''] = Inr [(''main'', ThreadPool_new 1 1)]"
proof -
  show "Loader_init small_config (\<lambda>path. Inr [(''t'', \<lambda>path. Inr 7)]) = Inr [(''main:t'', \<lambda>path. Inr (7 :: nat) :: nat result)]"
    by (simp add: Loader_init_def Loader_load_def small_config_def)
  show "initPools small_config [''main''] = Inr [(''main'', ThreadPool_new 1 1)]"
    by (simp add: initPools_def small_config_def init_pool_def sm_find_def check_pool_def Let_def int_plus_def)
qed (code_simp)+

lemma small_globals_value:
  "Globals_new exact_regex small_config (\<lambda>e. []) (\<lambda>path. Inr [(''t'', \<lambda>path. Inr 7)]) (\<lambda>c. Loaded) Some Some = Inr small_started"
  by (simp add: Globals_new_def Globals_init_def small_parts bindS_def liftS_def returnS_def small_started_def getPoolsNeeded_def
      startThreadPools_def)

theorem daemon_ready_witness:
  "\<exists>p. sm_find (gl_pools small_started) ''main'' = Some p \<and> pi_started (tp_info p)"
proof -
  have "\<forall>d\<in>set (gl_handlers small_started). \<exists>p. sm_find (gl_pools small_started) (hd_poolName d) = Some p \<and> pi_started (tp_info p)"
    using daemon_ready[OF _ small_globals_value] by simp
  then show ?thesis by (simp add: small_started_def)
qed

end
