(* ===== verification/Daemon_Main.thy ===== *)
theory Daemon_Main
  imports Startup Fcgi_Server
begin

text \<open>
  The program itself: \<^verbatim>\<open>main/main.cpp\<close>, and \<^verbatim>\<open>FCGIServer::start\<close>, \<^verbatim>\<open>pid\<close>, \<^verbatim>\<open>stop\<close> and \<^verbatim>\<open>stopThreadFunction\<close> of
  \<^verbatim>\<open>main/fcgi_server.cpp\<close> with what they compute from the configuration. What lies outside of the program is the
  record \<open>daemon_env\<close>: the XML and FastCGI libraries, the dynamic linker, the components, and the results of system
  calls. When \<^verbatim>\<open>main\<close> comes to \<^verbatim>\<open>join\<close>, the threads start in a state of \<open>server_started\<close>, so that all that \<open>Fcgi_Server\<close>
  shows of their steps holds of the program (\<open>main_setup_success\<close>). What the threads of the endpoints and of the
  pools do from there on, and how a signal ends them, is in \<open>Daemon_Run\<close>. A whole daemon that starts, with one module,
  is computed at the end (\<open>demo_setup\<close>).
\<close>

section \<open>The world around the daemon\<close>

record ('r, 'c, 'h, 'l, 'i, 'j) daemon_env =
  de_xml :: xml_lib
  de_help :: "string option"
  de_regex :: "'r regex_lib"
  de_what :: "error \<Rightarrow> string"
  de_open_module :: "string \<Rightarrow> string + (string \<Rightarrow> 'c result) factory_map"
  de_onLoad :: "'c \<Rightarrow> 'c load_prog"
  de_as_handler :: "'c \<Rightarrow> 'h option"
  de_as_logger :: "'c \<Rightarrow> 'l option"
  de_as_cache :: "'c \<Rightarrow> 'i option"
  de_as_statistics :: "'c \<Rightarrow> 'j option"
  de_signal :: "int \<Rightarrow> bool"
  de_write_bad :: "string \<Rightarrow> bool"
  de_socket :: int
  de_setsockopt :: int
  de_bind :: int
  de_listen :: int
  de_fcgx_init :: int
  de_to_unsigned :: "string \<Rightarrow> nat result"
  de_open_socket :: "string \<Rightarrow> int \<Rightarrow> int"
  de_errno_text :: string
  de_pipe :: int

section \<open>Starting\<close>

text \<open>
  \<^verbatim>\<open>pid\<close>: only \<^verbatim>\<open>badbit\<close> raises an exception, so that a file that cannot be opened, which sets \<^verbatim>\<open>failbit\<close>, goes unnoticed.
  \<open>write_bad\<close> tells whether writing the number sets \<^verbatim>\<open>badbit\<close>. The line is printed on \<^verbatim>\<open>stderr\<close>.
\<close>

definition pid :: "(string \<Rightarrow> bool) \<Rightarrow> string \<Rightarrow> unit result \<times> string list" where
  "pid write_bad file =
     (if write_bad file then (Inl (RuntimeError ''basic_ios::clear''), [''can not open file '' @ file]) else (Inr (), []))"

definition components_result ::
  "('r, 'c, 'h, 'l, 'i, 'j) daemon_env \<Rightarrow> config \<Rightarrow> ('r, 'c, 'h, 'l) globals \<Rightarrow> unit result" where
  "components_result E cfg g = (let find = ComponentSet_find (de_what E) (de_onLoad E) in
     fst (bindS (initRequestCache cfg find (de_as_cache E)) (\<lambda>request_cache.
          bindS (initTimeStatistics cfg find (de_as_statistics E)) (\<lambda>time_statistics. returnS ())) (gl_components g)))"

definition start_server ::
  "('r, 'c, 'h, 'l, 'i, 'j) daemon_env \<Rightarrow> config \<Rightarrow> ('r, 'c, 'h, 'l) globals \<Rightarrow> ('h fcgi_server, unit) st" where
  "start_server E cfg g = server_start
     (bindE (cfg_asString cfg ''/fastcgi/daemon/pidfile'') (\<lambda>file. fst (pid (de_write_bad E) file)))
     (cfg_asInt_or cfg ''/fastcgi/daemon/log-times'' 0)
     (initMonitorThread cfg (de_socket E) (de_setsockopt E) (de_bind E) (de_listen E) (de_errno_text E))
     (components_result E cfg g)
     (initFastCGISubsystem (de_fcgx_init E) cfg (de_to_unsigned E) (de_open_socket E) (de_errno_text E))
     (de_pipe E)"

section \<open>The program\<close>

definition SIGINT :: int where "SIGINT = 2"
definition SIGTERM :: int where "SIGTERM = 15"

definition setUpSignalHandlers :: "(int \<Rightarrow> bool) \<Rightarrow> unit result" where
  "setUpSignalHandlers sig =
     (if \<not> sig SIGINT then Inl (RuntimeError ''Cannot set up SIGINT handler'')
      else if \<not> sig SIGTERM then Inl (RuntimeError ''Cannot set up SIGTERM handler'')
      else Inr ())"

text \<open>\<^verbatim>\<open>main\<close> up to \<^verbatim>\<open>server.join()\<close>.\<close>

definition main_setup ::
  "('r, 'c, 'h, 'l, 'i, 'j) daemon_env \<Rightarrow> string list \<Rightarrow> (('r, 'c, 'h, 'l) globals \<times> 'h fcgi_server) result" where
  "main_setup E argv =
     bindE (Config_create (de_xml E) argv (de_help E)) (\<lambda>(vars, args). let cfg = xml_config (de_xml E) vars in
     bindE (Globals_new (de_regex E) cfg (de_what E) (de_open_module E) (de_onLoad E) (de_as_handler E) (de_as_logger E)) (\<lambda>g.
     let server = FCGIServer_new (gl_pools g) in
     bindE (setUpSignalHandlers (de_signal E)) (\<lambda>_.
     case start_server E cfg g server of
       (Inl e, _) \<Rightarrow> Inl e
     | (Inr _, server) \<Rightarrow> Inr (g, server))))"

text \<open>
  How the program ends: with a code and the lines on \<^verbatim>\<open>stderr\<close>, or, when an exception is not a \<^verbatim>\<open>std::exception\<close>, through
  \<^verbatim>\<open>std::terminate\<close>; or it waits in \<^verbatim>\<open>join\<close>. \<open>later\<close> takes the server to the state in which \<^verbatim>\<open>join\<close> looks at it.
\<close>

datatype main_end = Exits int "string list" | Aborts error | Waits

definition main ::
  "('r, 'c, 'h, 'l, 'i, 'j) daemon_env \<Rightarrow> string list \<Rightarrow> ('h fcgi_server \<Rightarrow> 'h fcgi_server) \<Rightarrow> main_end" where
  "main E argv later =
     (case bindE (main_setup E argv) (\<lambda>(g, server). server_join (later server)) of
        Inr returned \<Rightarrow> if returned then Exits 0 [] else Waits
      | Inl e \<Rightarrow> if is_std_exception e then Exits 1 [de_what E e] else Aborts e)"

text \<open>The signal handler writes a byte to the pipe; the pointer is set once \<^verbatim>\<open>main\<close> has made the server.\<close>

definition server_stop :: "string \<Rightarrow> string" where
  "server_stop pipe = pipe @ ''s''"

definition signalHandler :: "int \<Rightarrow> bool \<Rightarrow> string \<Rightarrow> string" where
  "signalHandler signo server pipe = (if (signo = SIGINT \<or> signo = SIGTERM) \<and> server then server_stop pipe else pipe)"

text \<open>The thread that reads the pipe, with the results of \<^verbatim>\<open>read\<close> and the byte: it goes on until it has read an \<^verbatim>\<open>s\<close>,
and after the results given it waits when there was none.\<close>

fun stop_reads :: "(int \<times> char) list \<Rightarrow> bool" where
  "stop_reads [] = False"
| "stop_reads ((n, c) # rs) = (if n = 1 \<and> c = CHR ''s'' then True else stop_reads rs)"

definition stopThreadFunction :: "(int \<times> char) list \<Rightarrow> ('h fcgi_server, unit) st" where
  "stopThreadFunction rs = (if stop_reads rs then stopInternal else returnS ())"

section \<open>What a successful start leaves\<close>

text \<open>A call that keeps its state to itself.\<close>

lemma run_Inr: "(case m of (Inl e, s) \<Rightarrow> Inl e | (Inr x, s) \<Rightarrow> f x s) = Inr y \<longleftrightarrow> (\<exists>x s. m = (Inr x, s) \<and> f x s = Inr y)"
  by (cases m; cases "fst m") auto

lemma Globals_new_pools:
  assumes "Globals_new R cfg what open_module onLoad as_handler as_logger = Inr g"
  shows "\<exists>pools. initPools cfg (getPoolsNeeded (gl_handlers g)) = Inr pools \<and> gl_pools g = startThreadPools pools"
proof -
  obtain factories handlers logger pools cs where
    i: "Globals_init R cfg what factories onLoad as_handler as_logger ComponentSet_new = (Inr (handlers, logger, pools), cs)"
    and g: "gl_handlers g = handlers" "gl_pools g = pools"
    using assms by (auto simp: Globals_new_def run_Inr)
  then show ?thesis
    by (auto simp: Globals_init_def liftS_def returnS_def elim!: bindS_InrE split: sum.splits)
qed

lemma init_endpoint_idle:
  "init_endpoint cfg to_unsigned open_socket errno_text i es = Inr es' \<Longrightarrow> list_all (\<lambda>e. ep_busy_count e = 0) es \<Longrightarrow>
    list_all (\<lambda>e. ep_busy_count e = 0) es'"
  by (auto simp: init_endpoint_def Endpoint_new_def openSocket_def Let_def split: if_splits prod.splits sum.splits)

lemma initFastCGISubsystem_idle:
  assumes "initFastCGISubsystem fcgx_init cfg to_unsigned open_socket errno_text = Inr es"
  shows "es \<noteq> [] \<and> list_all (\<lambda>e. ep_busy_count e = 0) es"
proof -
  obtain v where v: "foldE (init_endpoint cfg to_unsigned open_socket errno_text) v [] = Inr es" "es \<noteq> []"
    using assms by (auto simp: initFastCGISubsystem_def split: if_splits)
  have "list_all (\<lambda>e. ep_busy_count e = 0) es0 \<Longrightarrow> foldE (init_endpoint cfg to_unsigned open_socket errno_text) v es0 = Inr es \<Longrightarrow>
    list_all (\<lambda>e. ep_busy_count e = 0) es" for es0
    by (induction v arbitrary: es0) (auto dest: init_endpoint_idle)
  from this[of "[]"] show ?thesis using v by simp
qed

lemma server_start_success:
  assumes "server_start p l m c es pipe (FCGIServer_new pools) = (Inr u, sv)"
  shows "\<exists>endpoints. es = Inr endpoints \<and> sv = (FCGIServer_new pools)\<lparr>sv_status := RUNNING, sv_endpoints := endpoints,
     sv_workers := createWorkThreads endpoints\<rparr>"
  using assms by (auto simp: server_start_def FCGIServer_new_def st_defs elim!: bindS_InrE split: if_splits)

lemma main_setup_success:
  assumes "main_setup E argv = Inr (g, sv)"
  obtains vars args endpoints pools where "Config_create (de_xml E) argv (de_help E) = Inr (vars, args)"
    "initPools (xml_config (de_xml E) vars) (getPoolsNeeded (gl_handlers g)) = Inr pools" "sv_pools sv = startThreadPools pools"
    "server_started sv" "sv_endpoints sv = endpoints" "endpoints \<noteq> []"
proof -
  obtain vars args u where c: "Config_create (de_xml E) argv (de_help E) = Inr (vars, args)" and
    g: "Globals_new (de_regex E) (xml_config (de_xml E) vars) (de_what E) (de_open_module E) (de_onLoad E) (de_as_handler E)
      (de_as_logger E) = Inr g" and
    s: "start_server E (xml_config (de_xml E) vars) g (FCGIServer_new (gl_pools g)) = (Inr u, sv)"
    using assms by (auto simp: main_setup_def Let_def run_Inr)
  obtain pools where p: "initPools (xml_config (de_xml E) vars) (getPoolsNeeded (gl_handlers g)) = Inr pools"
    "gl_pools g = startThreadPools pools" using Globals_new_pools[OF g] by blast
  obtain endpoints where e: "initFastCGISubsystem (de_fcgx_init E) (xml_config (de_xml E) vars) (de_to_unsigned E) (de_open_socket E)
      (de_errno_text E) = Inr endpoints" "sv = (FCGIServer_new (gl_pools g))\<lparr>sv_status := RUNNING, sv_endpoints := endpoints,
     sv_workers := createWorkThreads endpoints\<rparr>"
    using server_start_success[OF s[unfolded start_server_def]] by blast
  note idle = initFastCGISubsystem_idle[OF e(1)]
  then have "server_started sv" by (simp add: e(2) server_started_def FCGIServer_new_def)
  then show ?thesis using that[OF c p(1)] p(2) idle by (simp add: e(2) FCGIServer_new_def)
qed

section \<open>A daemon\<close>

text \<open>A daemon with one module, one component, which is the handler and the logger, one pool and one endpoint.\<close>

definition demo_paths :: "(string \<times> string) list" where
  "demo_paths = [(''/fastcgi/modules/module'', []), (''/fastcgi/modules/module[1]/@name'', ''main''),
     (''/fastcgi/modules/module[1]/@path'', ''lib.so''), (''/fastcgi/components/component'', []),
     (''/fastcgi/components/component[1]/@name'', ''main''), (''/fastcgi/components/component[1]/@type'', ''main:t''),
     (''/fastcgi/handlers/handler'', []), (''/fastcgi/handlers/handler[1]/@pool'', ''main''),
     (''/fastcgi/handlers/handler[1]/component'', []), (''/fastcgi/handlers/handler[1]/component[1]/@name'', ''main''),
     (''/fastcgi/daemon[count(logger)=1]/logger/@component'', ''main''), (''/fastcgi/pools/pool'', []),
     (''/fastcgi/pools/pool[1]/@name'', ''main''), (''/fastcgi/pools/pool[1]/@threads'', ''1''),
     (''/fastcgi/pools/pool[1]/@queue'', ''1''), (''/fastcgi/daemon/pidfile'', ''/run/d.pid''), (''/fastcgi/daemon/monitor_port'', ''1''),
     (''/fastcgi/daemon/endpoint'', []), (''/fastcgi/daemon/endpoint[1]/socket'', ''/s''), (''/fastcgi/daemon/endpoint[1]/threads'', ''1'')]"

definition demo_lib :: xml_lib where
  "demo_lib = \<lparr>xml_parse = (\<lambda>_. True), xml_root = True, xml_xinclude = True, xml_message = None,
     xpath_eval = (\<lambda>key. Some (case map_of demo_paths key of None \<Rightarrow> [] | Some v \<Rightarrow>
       [\<lparr>xn_child = Some (TextNode (Some v)), xn_attrs = []\<rparr>])), regex_search = (\<lambda>_. None),
     lexical_cast_int = (\<lambda>s. if s = ''1'' then Inr 1 else Inl BadLexicalCast),
     file_opens = (\<lambda>_. True), print_int = (\<lambda>_. ''1'')\<rparr>"

definition demo_env :: "(string, nat, nat, nat, nat, nat) daemon_env" where
  "demo_env = \<lparr>de_xml = demo_lib, de_help = None, de_regex = exact_regex, de_what = (\<lambda>e. []),
     de_open_module = (\<lambda>path. Inr [(''t'', \<lambda>path. Inr 7)]), de_onLoad = (\<lambda>c. Loaded), de_as_handler = Some, de_as_logger = Some,
     de_as_cache = Some, de_as_statistics = Some, de_signal = (\<lambda>signo. True), de_write_bad = (\<lambda>file. False), de_socket = 5,
     de_setsockopt = 0, de_bind = 0, de_listen = 0, de_fcgx_init = 0, de_to_unsigned = (\<lambda>s. Inr 1), de_open_socket = (\<lambda>p b. 3),
     de_errno_text = [], de_pipe = 0\<rparr>"

lemma demo_config: "Config_create demo_lib [''fastcgi-daemon'', ''--config=a.conf''] None = Inr ([], [''fastcgi-daemon''])"
  by code_simp

lemma demo_asString:
  "asString demo_lib [] key = (case map_of demo_paths key of None \<Rightarrow> Inl (RuntimeError (''nonexistent config param: '' @ key)) | Some v \<Rightarrow> Inr v)"
  by (simp add: asString_def demo_lib_def xml_value_def child_value_def resolveVariables.simps ended_def split: option.splits)

lemma demo_subKeys: "subKeys demo_lib key [] = Inr (if map_of demo_paths key = None then [] else [key @ ''[1]''])"
  by (simp add: subKeys_def demo_lib_def split: option.splits)

lemma demo_int: "lexical_cast_int demo_lib ''1'' = Inr 1"
  by (simp add: demo_lib_def)

lemmas demo_values = xml_config_def demo_asString demo_subKeys asString_or_def asInt_or_def asInt_def or_default_def is_std_exception_def

lemma demo_parts:
  "Loader_init (xml_config demo_lib []) (\<lambda>path. Inr [(''t'', \<lambda>path. Inr 7)]) = Inr [(''main:t'', \<lambda>path. Inr (7 :: nat) :: nat result)]"
  "ComponentSet_init (xml_config demo_lib []) (\<lambda>e. []) (findComponentFactory [(''main:t'', \<lambda>path. Inr 7)]) (\<lambda>c. Loaded) ComponentSet_new = (Inr (), small_set)"
  "HandlerSet_init exact_regex (xml_config demo_lib []) (ComponentSet_find (\<lambda>e. []) (\<lambda>c. Loaded)) Some small_set =
     (Inr [\<lparr>hd_filters = [], hd_handlers = [7], hd_poolName = ''main'', hd_id = []\<rparr>], small_set)"
  "initLogger (xml_config demo_lib []) (ComponentSet_find (\<lambda>e. []) (\<lambda>c. Loaded)) Some small_set = (Inr 7, small_set)"
  "initPools (xml_config demo_lib []) [''main''] = Inr [(''main'', ThreadPool_new 1 1)]"
proof -
  show "Loader_init (xml_config demo_lib []) (\<lambda>path. Inr [(''t'', \<lambda>path. Inr 7)]) = Inr [(''main:t'', \<lambda>path. Inr (7 :: nat) :: nat result)]"
    by (simp add: Loader_init_def Loader_load_def demo_values demo_paths_def)
  show "initPools (xml_config demo_lib []) [''main''] = Inr [(''main'', ThreadPool_new 1 1)]"
    by (simp add: initPools_def init_pool_def demo_values demo_paths_def sm_find_def check_pool_def Let_def int_plus_def demo_int
        del: bindE_eq_Inr)
  show "ComponentSet_init (xml_config demo_lib []) (\<lambda>e. []) (findComponentFactory [(''main:t'', \<lambda>path. Inr 7)]) (\<lambda>c. Loaded) ComponentSet_new = (Inr (), small_set)"
    by (simp add: ComponentSet_init_def ComponentSet_add_def ComponentSet_new_def findComponentFactory_def demo_values demo_paths_def
        monad_simps sm_find_def sendOnLoadToComponents_def isComponentLoaded_def mark_loading_def small_set_def)
  show "HandlerSet_init exact_regex (xml_config demo_lib []) (ComponentSet_find (\<lambda>e. []) (\<lambda>c. Loaded)) Some small_set =
     (Inr [\<lparr>hd_filters = [], hd_handlers = [7], hd_poolName = ''main'', hd_id = []\<rparr>], small_set)"
    by (simp add: HandlerSet_init_def init_handler_def init_component_def init_filters_def add_filter_def demo_values demo_paths_def monad_simps sm_find_def
        ComponentSet_find_def find_or_load_def isComponentLoaded_def small_set_def)
  show "initLogger (xml_config demo_lib []) (ComponentSet_find (\<lambda>e. []) (\<lambda>c. Loaded)) Some small_set = (Inr 7, small_set)"
    by (simp add: initLogger_def demo_values demo_paths_def monad_simps sm_find_def
        ComponentSet_find_def find_or_load_def isComponentLoaded_def small_set_def)
qed 

definition demo_server :: "nat fcgi_server" where
  "demo_server = \<lparr>sv_status = RUNNING, sv_stopped = False,
     sv_endpoints = [\<lparr>ep_socket = 3, ep_busy_count = 0, ep_threads = 1, ep_socket_path = ''/s'', ep_socket_port = []\<rparr>],
     sv_workers = [(0, Loop)], sv_pools = startThreadPools [(''main'', ThreadPool_new 1 1)], sv_log = []\<rparr>"

abbreviation demo_args :: "string list" where
  "demo_args \<equiv> [''fastcgi-daemon'', ''--config=a.conf'']"

lemma demo_setup: "main_setup demo_env demo_args = Inr (small_started, demo_server)"
proof -
  let ?cfg = "xml_config demo_lib []"
  have g: "Globals_new exact_regex ?cfg (\<lambda>e. []) (\<lambda>path. Inr [(''t'', \<lambda>path. Inr 7)]) (\<lambda>c. Loaded) Some Some = Inr small_started"
    by (simp add: Globals_new_def Globals_init_def demo_parts bindS_def liftS_def returnS_def small_started_def getPoolsNeeded_def
        startThreadPools_def)
  have e: "initFastCGISubsystem 0 ?cfg (\<lambda>s. Inr 1) (\<lambda>p b. 3) [] = Inr (sv_endpoints demo_server)"
    "initMonitorThread ?cfg 5 0 0 0 [] = Inr ()" "cfg_asString ?cfg ''/fastcgi/daemon/pidfile'' = Inr ''/run/d.pid''"
    "cfg_asInt_or ?cfg ''/fastcgi/daemon/log-times'' 0 = Inr 0"
    by (simp_all add: initFastCGISubsystem_def init_endpoint_def initMonitorThread_def demo_values demo_paths_def Endpoint_new_def
        openSocket_def ep_toString_def demo_server_def Let_def)
      (simp_all add: demo_lib_def)
  have c: "components_result demo_env ?cfg small_started = Inr ()"
    by code_simp
  have s: "start_server demo_env ?cfg small_started (FCGIServer_new (gl_pools small_started)) = (Inr (), demo_server)"
    using e c by (simp add: start_server_def demo_env_def pid_def server_start_def FCGIServer_new_def monad_simps demo_server_def
        createWorkThreads_def small_started_def startThreadPools_def)
  show ?thesis
    using g s by (simp add: main_setup_def demo_env_def demo_config setUpSignalHandlers_def)
qed

end
