(* ===== verification/Daemon_Run.thy ===== *)
theory Daemon_Run
  imports Daemon_Main
begin

text \<open>
  The program while it runs: the threads of the endpoints (\<open>server_step\<close> of \<open>Fcgi_Server\<close>), the work on requests, and
  the threads of the pools (\<open>pool_step\<close> of \<open>Thread_Pool\<close>), which act on the pools of the server, composed to one step
  relation, \<open>daemon_step\<close>. What is shown of the parts holds of the whole: a server that \<^verbatim>\<open>main\<close> has started keeps the
  invariants of its endpoints and of all its pools (\<open>daemon_running\<close>), and after a signal all threads, those of the
  endpoints and those of the pools, come to their end and \<^verbatim>\<open>main\<close> returns (\<open>signal_stops\<close>).
\<close>

section \<open>Steps\<close>

text \<open>
  What the threads of a pool and those that look at it do. The pools are started and stopped by the server, and tasks
  are added by the work on a request.
\<close>

fun pool_side :: "'t pool_event \<Rightarrow> bool" where
  "pool_side Start = False"
| "pool_side Stop = False"
| "pool_side (Add t ok) = False"
| "pool_side e = True"

datatype 'h daemon_event = EndpointThread server_event | Work nat | Retry | PoolThread string "'h request_task pool_event"

text \<open>
  \<open>Work\<close> is the effect on the pools of the work that a thread does while it serves a request, at the moment when the
  task is added; the request itself is any request. The thread leaves the phase \<open>Serving\<close> by the step \<open>Served\<close> of
  \<open>server_step\<close>, with the lines logged. (That a thread adds only one task before that is not part of the relation,
  which therefore has all runs of the program and some more.) \<open>Retry\<close> is the same for the thread of the request cache,
  which calls the server of the library.
\<close>

inductive daemon_step ::
  "'r regex_lib \<Rightarrow> boost \<Rightarrow> (error \<Rightarrow> string) \<Rightarrow> ('r, 'h) handler_description list \<Rightarrow>
   'h fcgi_server \<Rightarrow> 'h daemon_event \<Rightarrow> 'h fcgi_server \<Rightarrow> bool" for R lib what ds where
  endpoint_thread: "server_step sv e sv' \<Longrightarrow> daemon_step R lib what ds sv (EndpointThread e) sv'"
| work: "at_phase sv j i Serving \<Longrightarrow>
    serve_request R lib what ds io envp r h f (sv_pools sv) = (res, r', h', f', pools', lines) \<Longrightarrow>
    daemon_step R lib what ds sv (Work j) (sv\<lparr>sv_pools := pools'\<rparr>)"
| retry: "Server_handleRequest R lib what ds task (sv_pools sv) = (res, r', pools', lines) \<Longrightarrow>
    daemon_step R lib what ds sv Retry (sv\<lparr>sv_pools := pools', sv_log := sv_log sv @ lines\<rparr>)"
| pool_thread: "sm_find (sv_pools sv) n = Some p \<Longrightarrow> pool_side e \<Longrightarrow> pool_step (lexical_cast_string lib) p e p' \<Longrightarrow>
    daemon_step R lib what ds sv (PoolThread n e) (sv\<lparr>sv_pools := replace_pool (sv_pools sv) n p'\<rparr>)"

inductive_cases daemon_stepE: "daemon_step R lib what ds sv e sv'"

text \<open>The steps of a daemon that \<open>main_setup\<close> has started.\<close>

abbreviation program_step ::
  "('r, 'c, 'h, 'l, 'i, 'j) daemon_env \<Rightarrow> ('r, 'c, 'h, 'l) globals \<Rightarrow> boost \<Rightarrow>
   'h fcgi_server \<Rightarrow> 'h daemon_event \<Rightarrow> 'h fcgi_server \<Rightarrow> bool" where
  "program_step E g lib \<equiv> daemon_step (de_regex E) lib (de_what E) (gl_handlers g)"

section \<open>What a step keeps\<close>

lemma pools_fields [simp]:
  "server_inv (sv\<lparr>sv_pools := pools, sv_log := lines\<rparr>) = server_inv sv" "server_inv (sv\<lparr>sv_pools := pools\<rparr>) = server_inv sv"
  "server_left (sv\<lparr>sv_pools := pools, sv_log := lines\<rparr>) = server_left sv" "server_left (sv\<lparr>sv_pools := pools\<rparr>) = server_left sv"
  by (simp_all add: server_inv_def busy_workers_def server_left_def)

lemma replace_pool_names [simp]: "map fst (replace_pool pools n p) = map fst pools"
  by (induction pools) (auto simp: replace_pool_def)

lemma replace_pool_set: "e \<in> set (replace_pool pools n p) \<Longrightarrow> e \<in> set pools \<or> e = (n, p)"
  by (auto simp: replace_pool_def split: if_splits)

lemma sm_find_entry: "sm_find pools n = Some p \<Longrightarrow> (n, p) \<in> set pools"
  by (auto simp: sm_find_def dest: map_of_SomeD)

lemma entry_sm_find: "distinct (map fst pools) \<Longrightarrow> (n, p) \<in> set pools \<Longrightarrow> sm_find pools n = Some p"
  by (simp add: sm_find_def)

lemma sum_replace_pool:
  "distinct (map fst pools) \<Longrightarrow> sm_find pools n = Some p \<Longrightarrow>
    sum_list (map (f \<circ> snd) (replace_pool pools n p')) + (f p :: nat) = sum_list (map (f \<circ> snd) pools) + f p'"
proof (induction pools)
  case (Cons e pools)
  show ?case
  proof (cases "fst e = n")
    case True
    have "n \<notin> fst ` set pools" using Cons.prems(1) True by auto
    then have "replace_pool pools n p' = pools" unfolding replace_pool_def by (intro map_idI) force
    then show ?thesis using Cons.prems(2) True by (cases e) (simp add: replace_pool_def sm_find_def)
  next
    case False
    then show ?thesis using Cons by (cases e) (simp add: replace_pool_def sm_find_def)
  qed
qed (simp add: sm_find_def)

text \<open>The steps of the endpoints leave the pools alone, but for the stop.\<close>

lemma server_step_pools:
  "server_step sv e sv' \<Longrightarrow> sv_pools sv' = sv_pools sv \<or> \<not> sv_stopped sv \<and> sv_pools sv' = stopThreadPools (sv_pools sv)"
  by (cases rule: server_step.cases)
    (auto simp: stopInternal_def monad_simps go_def set_endpoint_def split: if_splits)

lemma server_step_status: "server_step sv e sv' \<Longrightarrow> sv_status sv' = sv_status sv"
  by (cases rule: server_step.cases) (auto simp: stopInternal_def monad_simps split: if_splits)

lemma go_names:
  "at_phase sv j i p \<Longrightarrow> sv_workers sv' = sv_workers sv \<Longrightarrow> map fst (sv_workers (go j i q sv')) = map fst (sv_workers sv)"
  by (rule nth_equalityI) (auto simp: go_def at_phase_def nth_list_update)

text \<open>The endpoint of a thread, and the number of threads of an endpoint, are fixed.\<close>

lemma server_step_threads:
  assumes "server_step sv e sv'"
  shows "map fst (sv_workers sv') = map fst (sv_workers sv) \<and> map ep_threads (sv_endpoints sv') = map ep_threads (sv_endpoints sv)"
  using assms
proof cases
  case stop_server
  then show ?thesis by (auto simp: stopInternal_def monad_simps split: if_splits)
qed (auto simp: go_names map_update at_phase_def incrementBusyCounter_def decrementBusyCounter_def scoped_increment_def
  list_update_same_conv split: if_splits)

text \<open>A property of all pools, over the steps that add a task or move a thread.\<close>

definition all_pools :: "('h request_task thread_pool \<Rightarrow> bool) \<Rightarrow> 'h fcgi_server \<Rightarrow> bool" where
  "all_pools P sv \<longleftrightarrow> (\<forall>e\<in>set (sv_pools sv). P (snd e))"

lemma all_pools_replace:
  assumes "all_pools P sv" "P p'" "sv_pools sv' = replace_pool (sv_pools sv) n p'"
  shows "all_pools P sv'"
  using assms by (auto simp: all_pools_def dest!: replace_pool_set)

lemma one_task_keeps:
  assumes "one_task lcast (sv_pools sv) pools'" "all_pools P sv" "sv_pools sv' = pools'"
    and "\<And>p t e p'. P p \<Longrightarrow> addTask lcast t p = (e, p') \<Longrightarrow> P p'"
  shows "all_pools P sv' \<and> map fst pools' = map fst (sv_pools sv)"
proof -
  consider "pools' = sv_pools sv"
    | n p t e p' where "sm_find (sv_pools sv) n = Some p" "addTask lcast t p = (e, p')" "pools' = replace_pool (sv_pools sv) n p'"
    using assms(1) by (auto simp: one_task_def)
  then show ?thesis
  proof cases
    case 1
    then show ?thesis using assms(2,3) by (simp add: all_pools_def)
  next
    case 2
    then have "P p" using assms(2) sm_find_entry by (fastforce simp: all_pools_def)
    then show ?thesis using all_pools_replace[OF assms(2) assms(4)[OF _ 2(2)]] 2(3) assms(3) by simp
  qed
qed

text \<open>
  A step of the daemon is a step of an endpoint, or leaves the endpoints alone, and then the threads of the pools stay and
  what every call of \<^verbatim>\<open>addTask\<close> and every step of a thread of a pool keeps is kept by all pools.
\<close>

lemma daemon_step_cases:
  assumes "daemon_step R lib what ds sv e sv'"
  obtains (endpoint) e' where "e = EndpointThread e'" "server_step sv e' sv'"
  | (work) pools' lines where "sv' = sv\<lparr>sv_pools := pools', sv_log := lines\<rparr>" "one_task (lexical_cast_string lib) (sv_pools sv) pools'"
      "\<not> (\<exists>n e'. e = PoolThread n e')" "\<not> (\<exists>e'. e = EndpointThread e')"
  | (pool) n e' p p' where "e = PoolThread n e'" "sm_find (sv_pools sv) n = Some p" "pool_side e'"
      "pool_step (lexical_cast_string lib) p e' p'" "sv' = sv\<lparr>sv_pools := replace_pool (sv_pools sv) n p'\<rparr>"
  using assms
proof cases
  case work
  then show ?thesis using that(2)[where lines = "sv_log sv"] serve_request_pools by fastforce
next
  case retry
  then show ?thesis using that(2) Server_handleRequest_pools by fastforce
qed (use that in blast)+

definition daemon_inv :: "'h fcgi_server \<Rightarrow> bool" where
  "daemon_inv sv \<longleftrightarrow> server_inv sv \<and> distinct (map fst (sv_pools sv)) \<and> all_pools pool_inv sv"

lemma stopped_pools:
  "map fst (stopThreadPools pools) = map fst pools" "e \<in> set (stopThreadPools pools) \<Longrightarrow> \<exists>p. (fst e, p) \<in> set pools \<and> snd e = pool_stop p"
  by (induction pools) (auto simp: stopThreadPools_def)

lemma daemon_step_inv:
  assumes "daemon_inv sv" "daemon_step R lib what ds sv e sv'"
  shows "daemon_inv sv' \<and> map fst (sv_pools sv') = map fst (sv_pools sv)"
  using assms(2)
proof (cases rule: daemon_step_cases)
  case (endpoint e')
  consider "sv_pools sv' = sv_pools sv" | "sv_pools sv' = stopThreadPools (sv_pools sv)" using server_step_pools[OF endpoint(2)] by blast
  moreover have "pool_inv (snd e)" if "e \<in> set (stopThreadPools (sv_pools sv))" for e
    using stopped_pools(2)[OF that] assms(1) pool_inv_notify_all by (fastforce simp: daemon_inv_def all_pools_def)
  ultimately have "map fst (sv_pools sv') = map fst (sv_pools sv) \<and> all_pools pool_inv sv'"
    using assms(1) by cases (auto simp: daemon_inv_def all_pools_def stopped_pools(1))
  then show ?thesis using assms(1) server_step_inv[OF _ endpoint(2)] by (auto simp: daemon_inv_def)
next
  case (work pools' lines)
  have "all_pools pool_inv sv' \<and> map fst pools' = map fst (sv_pools sv)"
  proof (rule one_task_keeps[OF work(2)])
    show "all_pools pool_inv sv" using assms(1) by (simp add: daemon_inv_def)
    show "sv_pools sv' = pools'" using work(1) by simp
  qed (rule pool_inv_add)
  then show ?thesis using assms(1) work(1) by (simp add: daemon_inv_def)
next
  case (pool n e' p p')
  have "pool_inv p" using assms(1) sm_find_entry[OF pool(2)] by (auto simp: daemon_inv_def all_pools_def)
  then have "all_pools pool_inv sv'"
    using all_pools_replace[of pool_inv sv p' sv' n] assms(1) pool(5) pool_step_inv[OF pool(4)] by (simp add: daemon_inv_def)
  then show ?thesis using assms(1) pool(5) by (simp add: daemon_inv_def)
qed

text \<open>What no step changes.\<close>

lemma daemon_step_fixed:
  assumes "daemon_step R lib what ds sv e sv'"
  shows "sv_status sv' = sv_status sv \<and> map fst (sv_workers sv') = map fst (sv_workers sv) \<and>
    map ep_threads (sv_endpoints sv') = map ep_threads (sv_endpoints sv)"
  using assms
  by (cases rule: daemon_step_cases) (auto simp: server_step_status server_step_threads)

definition daemon_started :: "'h fcgi_server \<Rightarrow> bool" where
  "daemon_started sv \<longleftrightarrow> server_started sv \<and>
     (\<exists>pools. sv_pools sv = startThreadPools pools \<and> distinct (map fst pools) \<and> (\<forall>e\<in>set pools. pool_initial (snd e)))"

lemma started_pools:
  "map fst (startThreadPools pools) = map fst pools" "e \<in> set (startThreadPools pools) \<Longrightarrow> \<exists>p. (fst e, p) \<in> set pools \<and> snd e = pool_start p"
  by (induction pools) (auto simp: startThreadPools_def)

lemma daemon_started_inv:
  assumes "daemon_started sv"
  shows "daemon_inv sv"
proof -
  obtain pools where p: "server_started sv" "sv_pools sv = startThreadPools pools" "distinct (map fst pools)"
    "\<forall>e\<in>set pools. pool_initial (snd e)" using assms by (auto simp: daemon_started_def)
  have "pool_inv (snd e)" if e: "e \<in> set (sv_pools sv)" for e
  proof -
    obtain q where q: "(fst e, q) \<in> set pools" "snd e = pool_start q" using started_pools(2) e p(2) by fastforce
    then have "pool_inv q" using p(4) pool.init_inv by fastforce
    then show ?thesis using pool_step_inv[OF pool_step.start] q(2) by simp
  qed
  then show ?thesis
    using p server_started_inv by (simp add: daemon_inv_def all_pools_def started_pools(1))
qed

interpretation daemon: invariant_system daemon_started "daemon_step R lib what ds" daemon_inv
  by unfold_locales (rule daemon_started_inv, assumption, rule conjunct1[OF daemon_step_inv])

lemma daemon_run_fixed:
  assumes "run (daemon_step R lib what ds) sv es sv'"
  shows "sv_status sv' = sv_status sv \<and> map fst (sv_workers sv') = map fst (sv_workers sv) \<and>
    map ep_threads (sv_endpoints sv') = map ep_threads (sv_endpoints sv)"
  using assms by (induction rule: run.induct) (auto dest!: daemon_step_fixed)

lemma daemon_run_pools:
  "run (daemon_step R lib what ds) sv es sv' \<Longrightarrow> daemon_inv sv \<Longrightarrow> map fst (sv_pools sv') = map fst (sv_pools sv)"
proof (induction rule: run.induct)
  case (run_step sv es sv' e sv'')
  then show ?case using daemon_step_inv[OF daemon.run_inv[OF run_step.hyps(1)] run_step.hyps(2)] by simp
qed simp

section \<open>After the stop\<close>

fun daemon_counted :: "'h daemon_event \<Rightarrow> bool" where
  "daemon_counted (EndpointThread e) = True"
| "daemon_counted (PoolThread n e) = worker_event e"
| "daemon_counted e = False"

definition daemon_left :: "'h fcgi_server \<Rightarrow> nat" where
  "daemon_left sv = server_left sv + sum_list (map (pool_weight \<circ> snd) (sv_pools sv))"

definition stopped_daemon :: "'h fcgi_server \<Rightarrow> bool" where
  "stopped_daemon sv \<longleftrightarrow> daemon_inv sv \<and> sv_stopped sv \<and> all_pools stopped_pool sv"

lemma one_task_weight:
  assumes "one_task lcast pools pools'" "distinct (map fst pools)"
  shows "sum_list (map (pool_weight \<circ> snd) pools') = sum_list (map (pool_weight \<circ> snd) pools)"
proof -
  consider "pools' = pools"
    | n p t e p' where "sm_find pools n = Some p" "addTask lcast t p = (e, p')" "pools' = replace_pool pools n p'"
    using assms(1) by (auto simp: one_task_def)
  then show ?thesis
  proof cases
    case 2
    have "pool_weight p' = pool_weight p"
      using 2(2) by (auto simp: addTask_def addTask_section_def pool_weight_def split: if_splits)
    then show ?thesis using sum_replace_pool[OF assms(2) 2(1), of pool_weight p'] 2(3) by simp
  qed simp
qed

lemma stopped_pool_add:
  assumes "stopped_pool p" "addTask lcast t p = (e, p')"
  shows "stopped_pool p'"
  using assms pool_inv_add[of p lcast t e p'] by (auto simp: stopped_pool_def addTask_def addTask_section_def split: if_splits)

lemma pool_side_stopped: "pool_side e \<Longrightarrow> pool_step lcast p e p' \<Longrightarrow> stopped_step lcast p e p'"
  by (auto simp: stopped_step_def)

lemma stopped_daemon_step:
  assumes "stopped_daemon sv" "daemon_step R lib what ds sv e sv'"
  shows "stopped_daemon sv'" and "daemon_left sv' + (if daemon_counted e then 1 else 0) \<le> daemon_left sv"
proof -
  have inv: "daemon_inv sv'" using daemon_step_inv[OF _ assms(2)] assms(1) by (auto simp: stopped_daemon_def)
  have sv: "server_inv sv" "sv_stopped sv" "distinct (map fst (sv_pools sv))" "all_pools stopped_pool sv"
    using assms(1) by (auto simp: stopped_daemon_def daemon_inv_def)
  from assms(2) have "stopped_daemon sv' \<and> daemon_left sv' + (if daemon_counted e then 1 else 0) \<le> daemon_left sv"
  proof (cases rule: daemon_step_cases)
    case (endpoint e')
    have s: "stopped_server sv" using sv(1,2) by (simp add: stopped_server_def)
    have p: "sv_pools sv' = sv_pools sv" using server_step_pools[OF endpoint(2)] sv(2) by blast
    have "stopped_server sv'" by (rule halting.step_inv[OF s endpoint(2)])
    moreover have "server_left sv' + 1 \<le> server_left sv" using halting.weight_step[OF s endpoint(2)] by simp
    ultimately show ?thesis
      using inv sv(4) p endpoint(1) by (simp add: stopped_daemon_def stopped_server_def all_pools_def daemon_left_def)
  next
    case (work pools' lines)
    have "all_pools stopped_pool sv' \<and> map fst pools' = map fst (sv_pools sv)"
      by (rule one_task_keeps[OF work(2) sv(4)]) (simp add: work(1), rule stopped_pool_add)
    moreover have "\<not> daemon_counted e" using work(3,4) by (cases e) auto
    ultimately show ?thesis
      using inv sv(2) work(1) one_task_weight[OF work(2) sv(3)] by (simp add: stopped_daemon_def daemon_left_def)
  next
    case (pool n e' p p')
    have s: "stopped_pool p" using sv(4) sm_find_entry[OF pool(2)] by (auto simp: all_pools_def)
    note st = pool_side_stopped[OF pool(3,4)]
    have "all_pools stopped_pool sv'"
      using all_pools_replace[OF sv(4) stopped.step_inv[OF s st], of sv' n] pool(5) by simp
    moreover have "pool_weight p' + (if worker_event e' then 1 else 0) \<le> pool_weight p" by (rule stopped.weight_step[OF s st])
    ultimately show ?thesis
      using inv sv(2) pool(1,5) sum_replace_pool[OF sv(3) pool(2), of pool_weight p'] by (simp add: stopped_daemon_def daemon_left_def)
  qed
  then show "stopped_daemon sv'" "daemon_left sv' + (if daemon_counted e then 1 else 0) \<le> daemon_left sv" by blast+
qed

interpretation ending: bounded_system stopped_daemon "daemon_step R lib what ds" stopped_daemon daemon_left daemon_counted
  by unfold_locales (blast intro: stopped_daemon_step)+

text \<open>Counted steps run out: from every state the system can come to rest.\<close>

context bounded_system
begin

lemma comes_to_rest: "inv s \<Longrightarrow> \<exists>es s'. run step s es s' \<and> (\<nexists>e s''. counted e \<and> step s' e s'')"
proof (induction "weight s" arbitrary: s rule: less_induct)
  case less
  show ?case
  proof (cases "\<exists>e s''. counted e \<and> step s e s''")
    case True
    then obtain e t where t: "counted e" "step s e t" by blast
    have "weight t < weight s" using weight_step[OF less.prems t(2)] t(1) by simp
    then obtain es s' where "run step t es s'" "\<nexists>e s''. counted e \<and> step s' e s''"
      using less.hyps step_inv[OF less.prems t(2)] by blast
    then show ?thesis using run_Cons[where step = step, OF t(2)] by blast
  next
    case False
    then show ?thesis using run_nil[of step s] by blast
  qed
qed

end

lemma daemon_at_rest:
  assumes "stopped_daemon sv" "\<nexists>e sv'. daemon_counted e \<and> daemon_step R lib what ds sv e sv'"
  shows "list_all (\<lambda>w. snd w = Exited) (sv_workers sv) \<and> joinThreadPools (sv_pools sv)"
proof -
  have inv: "server_inv sv" "distinct (map fst (sv_pools sv))" "all_pools stopped_pool sv"
    using assms(1) by (auto simp: stopped_daemon_def daemon_inv_def)
  have "\<nexists>e sv'. server_step sv e sv'"
    using assms(2) daemon_step.endpoint_thread daemon_counted.simps(1) by blast
  moreover have "\<exists>e sv'. server_step sv e sv'" if w: "w \<in> set (sv_workers sv)" "snd w \<noteq> Exited" for w
  proof -
    obtain j where "j < length (sv_workers sv)" "sv_workers sv ! j = w" using w(1) by (auto simp: in_set_conv_nth)
    then have "at_phase sv j (fst w) (snd w)" using inv(1) w(1) by (simp add: at_phase_def server_inv_def)
    from worker_goes_on[OF inv(1) this w(2)] show ?thesis .
  qed
  ultimately have "list_all (\<lambda>w. snd w = Exited) (sv_workers sv)" by (fastforce simp: list_all_iff)
  moreover have "pool_joins p" if p: "(n, p) \<in> set (sv_pools sv)" for n p
  proof (rule stuck_workers_returned)
    show "stopped_pool p" using inv(3) p by (auto simp: all_pools_def)
    show "\<nexists>e p'. worker_event e \<and> pool_step (lexical_cast_string lib) p e p'"
    proof
      assume "\<exists>e p'. worker_event e \<and> pool_step (lexical_cast_string lib) p e p'"
      then obtain e p' where e: "worker_event e" "pool_step (lexical_cast_string lib) p e p'" by blast
      have "pool_side e" using e(1) by (cases e) simp_all
      from daemon_step.pool_thread[OF entry_sm_find[OF inv(2) p] this e(2), of R what ds] show False
        using assms(2) e(1) daemon_counted.simps(2) by blast
    qed
  qed
  then have "joinThreadPools (sv_pools sv)" by (auto simp: joinThreadPools_def list_all_iff)
  ultimately show ?thesis by blast
qed

lemma daemon_left_le:
  "daemon_left sv \<le> 4 * length (sv_workers sv) + 2 * sum_list (map (\<lambda>(n, p). length (tp_threads p)) (sv_pools sv))"
proof -
  have "sum_list (map (pool_weight \<circ> snd) pools) \<le> 2 * sum_list (map (\<lambda>(n, p). length (tp_threads p)) pools)" for pools :: "'h pools"
  proof (induction pools)
    case (Cons e pools)
    then show ?case using pool_weight_le[of "snd e"] by (cases e) simp
  qed simp
  from this[of "sv_pools sv"] server_left_le[of sv] show ?thesis unfolding daemon_left_def by linarith
qed

section \<open>Properties\<close>

lemma main_setup_started: "main_setup E argv = Inr (g, sv) \<Longrightarrow> daemon_started sv"
proof (elim main_setup_success)
  fix vars pools
  assume "initPools (xml_config (de_xml E) vars) (getPoolsNeeded (gl_handlers g)) = Inr pools"
    "sv_pools sv = startThreadPools pools" "server_started sv"
  then show "daemon_started sv" using initPools_initial unfolding daemon_started_def by blast
qed

text \<open>All threads are made by \<^verbatim>\<open>createWorkThreads\<close>, for every endpoint as many as it has.\<close>

lemma createWorkThreads_count:
  "i < length es \<Longrightarrow> length (filter (\<lambda>w. fst w = i) (createWorkThreads es)) = ep_threads (es ! i)"
proof -
  assume i: "i < length es"
  have f: "length (filter (\<lambda>w. fst w = i) (concat (map (\<lambda>k. replicate (f k) (k, Loop)) ks))) = (if i \<in> set ks then f i else 0)"
    if "distinct ks" for f and ks :: "nat list"
    using that by (induction ks) (auto simp: filter_empty_conv)
  show ?thesis using f[of "[0..<length es]" "\<lambda>k. ep_threads (es ! k)"] i by (simp add: createWorkThreads_def)
qed

lemma threads_fixed:
  fixes ws ws' :: "(nat \<times> phase) list"
  assumes "map fst ws' = map fst ws"
  shows "length (filter (\<lambda>w. fst w = i) ws') = length (filter (\<lambda>w. fst w = i) ws)"
proof -
  have "length (filter (\<lambda>w. fst w = i) vs) = length (filter (\<lambda>k. k = i) (map fst vs))" for vs :: "(nat \<times> phase) list"
    by (induction vs) auto
  from this[of ws] this[of ws'] show ?thesis using assms by simp
qed

text \<open>
  C8. When the program comes to \<^verbatim>\<open>join\<close>, the server has an endpoint, every endpoint has exactly its configured number of
  threads, about to begin, and there are no others; and the pool of every handler exists, is started and has all its
  threads. From there on, in every state that the threads of the endpoints and of the pools reach, with whatever requests,
  every endpoint still has its threads and its busy counter is the number of those that are busy, the pool of every
  handler is still found, and in every pool the queue keeps its limit and the busy counter is the number of busy workers.
\<close>

theorem daemon_running:
  assumes "main_setup E argv = Inr (g, sv)"
  shows "sv_status sv = RUNNING \<and> sv_endpoints sv \<noteq> [] \<and> list_all (\<lambda>w. fst w < length (sv_endpoints sv) \<and> snd w = Loop) (sv_workers sv) \<and>
    (\<forall>i<length (sv_endpoints sv). length (filter (\<lambda>w. fst w = i) (sv_workers sv)) = ep_threads (sv_endpoints sv ! i)) \<and>
    list_all (\<lambda>d. \<exists>p. sm_find (sv_pools sv) (hd_poolName d) = Some p \<and> pi_started (tp_info p) \<and>
      tp_threads p = replicate (unat (pi_threadsNumber (tp_info p))) Starting) (gl_handlers g) \<and>
    (\<forall>es sv'. run (program_step E g lib) sv es sv' \<longrightarrow>
      (\<forall>i<length (sv_endpoints sv'). ep_busy_count (sv_endpoints sv' ! i) = int (busy_workers sv' i) \<and>
        length (filter (\<lambda>w. fst w = i) (sv_workers sv')) = ep_threads (sv_endpoints sv' ! i)) \<and>
      list_all (\<lambda>d. \<exists>p. sm_find (sv_pools sv') (hd_poolName d) = Some p) (gl_handlers g) \<and>
      list_all (\<lambda>(n, p). length (tp_tasksQueue p) \<le> unat (pi_queueLength (tp_info p)) \<and>
        pi_busyThreadsCounter (tp_info p) = of_nat (workers is_busy p)) (sv_pools sv'))"
proof -
  obtain vars args endpoints pools where s: "Config_create (de_xml E) argv (de_help E) = Inr (vars, args)"
    "initPools (xml_config (de_xml E) vars) (getPoolsNeeded (gl_handlers g)) = Inr pools" "sv_pools sv = startThreadPools pools"
    "server_started sv" "sv_endpoints sv = endpoints" "endpoints \<noteq> []"
    by (rule main_setup_success[OF assms])
  note start = main_setup_started[OF assms]
  have ws: "sv_workers sv = createWorkThreads endpoints" "sv_status sv = RUNNING" using s(4,5) by (simp_all add: server_started_def)
  have pool: "\<exists>p. sm_find (sv_pools sv) (hd_poolName d) = Some p \<and> pi_started (tp_info p) \<and>
      tp_threads p = replicate (unat (pi_threadsNumber (tp_info p))) Starting" if d: "d \<in> set (gl_handlers g)" for d
  proof -
    have "hd_poolName d \<in> set (getPoolsNeeded (gl_handlers g))" using d by (simp add: getPoolsNeeded_set)
    then obtain q where q: "sm_find pools (hd_poolName d) = Some q" using initPools_needed[OF s(2)] by blast
    then obtain n m where "q = ThreadPool_new n m"
      using initPools_initial[OF s(2)] sm_find_entry[OF q] by (auto simp: pool_initial_def)
    then show ?thesis using s(3) q by (simp add: started_find pool_start_def ThreadPool_new_def)
  qed
  have after: "(\<forall>i<length (sv_endpoints sv'). ep_busy_count (sv_endpoints sv' ! i) = int (busy_workers sv' i) \<and>
        length (filter (\<lambda>w. fst w = i) (sv_workers sv')) = ep_threads (sv_endpoints sv' ! i)) \<and>
      list_all (\<lambda>d. \<exists>p. sm_find (sv_pools sv') (hd_poolName d) = Some p) (gl_handlers g) \<and>
      list_all (\<lambda>(n, p). length (tp_tasksQueue p) \<le> unat (pi_queueLength (tp_info p)) \<and>
        pi_busyThreadsCounter (tp_info p) = of_nat (workers is_busy p)) (sv_pools sv')"
    if r: "run (program_step E g lib) sv es sv'" for es sv'
  proof (intro conjI allI impI)
    have inv: "daemon_inv sv'" by (rule daemon.reached_inv[OF start r])
    note fixed = daemon_run_fixed[OF r]
    fix i assume i: "i < length (sv_endpoints sv')"
    then show "ep_busy_count (sv_endpoints sv' ! i) = int (busy_workers sv' i)"
      using inv by (simp add: daemon_inv_def server_inv_def)
    have "length (sv_endpoints sv') = length endpoints" using fixed s(5) by (metis length_map)
    moreover have "ep_threads (sv_endpoints sv' ! i) = ep_threads (endpoints ! i)"
      using fixed s(5) i calculation by (metis nth_map)
    ultimately show "length (filter (\<lambda>w. fst w = i) (sv_workers sv')) = ep_threads (sv_endpoints sv' ! i)"
      using threads_fixed[of "sv_workers sv'" "sv_workers sv" i] fixed ws(1) createWorkThreads_count[of i endpoints] i by simp
  next
    have "map fst (sv_pools sv') = map fst pools"
      using daemon_run_pools[OF r daemon_started_inv[OF start]] s(3) by (simp add: started_pools(1))
    then show "list_all (\<lambda>d. \<exists>p. sm_find (sv_pools sv') (hd_poolName d) = Some p) (gl_handlers g)"
      using handler_pool_found[OF s(2)] by (auto simp: list_all_iff)
    show "list_all (\<lambda>(n, p). length (tp_tasksQueue p) \<le> unat (pi_queueLength (tp_info p)) \<and>
        pi_busyThreadsCounter (tp_info p) = of_nat (workers is_busy p)) (sv_pools sv')"
      using daemon.reached_inv[OF start r] by (auto simp: daemon_inv_def all_pools_def pool_inv_def list_all_iff)
  qed
  have "list_all (\<lambda>w. fst w < length (sv_endpoints sv) \<and> snd w = Loop) (sv_workers sv)"
    using createWorkThreads_set by (auto simp: list_all_iff ws(1) s(5))
  then show ?thesis
    using ws s(5,6) createWorkThreads_count pool after by (simp add: list_all_iff)
qed

theorem daemon_running_witness:
  "(\<exists>p. sm_find (sv_pools demo_server) ''main'' = Some p \<and> pi_started (tp_info p)) \<and>
   length (filter (\<lambda>w. fst w = 0) (sv_workers demo_server)) = ep_threads (sv_endpoints demo_server ! 0)"
proof
  note r = daemon_running[OF demo_setup, of example_boost]
  have "list_all (\<lambda>d. \<exists>p. sm_find (sv_pools demo_server) (hd_poolName d) = Some p \<and> pi_started (tp_info p) \<and>
      tp_threads p = replicate (unat (pi_threadsNumber (tp_info p))) Starting) (gl_handlers small_started)"
    using r by (elim conjE)
  then show "\<exists>p. sm_find (sv_pools demo_server) ''main'' = Some p \<and> pi_started (tp_info p)"
    by (auto simp: small_started_def)
  have "0 < length (sv_endpoints demo_server)" by (simp add: demo_server_def)
  then show "length (filter (\<lambda>w. fst w = 0) (sv_workers demo_server)) = ep_threads (sv_endpoints demo_server ! 0)"
    using r by (elim conjE) simp
qed

text \<open>
  C9. A signal ends the program: whatever the threads of the endpoints and of the pools have done, while the server is not
  stopped, \<^verbatim>\<open>SIGINT\<close> and \<^verbatim>\<open>SIGTERM\<close> write the byte for which the stopping thread waits, and it stops the server and its
  pools. From there on all threads of endpoints together make at most four steps for each of them, and all threads of
  pools at most two for each; when none of them can make another one, those of the endpoints have all returned, the pools
  are joined, and \<^verbatim>\<open>main\<close> returns \<^verbatim>\<open>EXIT_SUCCESS\<close>. Every state that is reached after the stop can still come to this end.
\<close>

theorem signal_stops:
  assumes "main_setup E argv = Inr (g, sv)" "run (program_step E g lib) sv es sv1" "\<not> sv_stopped sv1" "signo = SIGINT \<or> signo = SIGTERM"
  shows "\<exists>sv2. stopThreadFunction (map (\<lambda>c. (1, c)) (signalHandler signo True [])) sv1 = (Inr (), sv2) \<and> sv_stopped sv2 \<and>
    (\<forall>es' sv3. run (program_step E g lib) sv2 es' sv3 \<longrightarrow>
      length (filter daemon_counted es') \<le>
        4 * length (sv_workers sv2) + 2 * sum_list (map (\<lambda>(n, p). length (tp_threads p)) (sv_pools sv2)) \<and>
      ((\<nexists>e sv4. daemon_counted e \<and> program_step E g lib sv3 e sv4) \<longrightarrow>
        list_all (\<lambda>w. snd w = Exited) (sv_workers sv3) \<and> joinThreadPools (sv_pools sv3) \<and> main E argv (\<lambda>_. sv3) = Exits 0 []) \<and>
      (\<exists>es4 sv4. run (program_step E g lib) sv3 es4 sv4 \<and> main E argv (\<lambda>_. sv4) = Exits 0 []))"
proof -
  let ?sv2 = "sv1\<lparr>sv_stopped := True, sv_pools := stopThreadPools (sv_pools sv1)\<rparr>"
  have started: "daemon_started sv" by (rule main_setup_started[OF assms(1)])
  have st: "sv_status sv1 = RUNNING"
    using daemon_run_fixed[OF assms(2)] started by (simp add: daemon_started_def server_started_def)
  then have stop: "stopInternal sv1 = (Inr (), ?sv2)" using assms(3) by (simp add: stopInternal_def st_defs bindS_def)
  have inv: "daemon_inv ?sv2"
    by (rule conjunct1[OF daemon_step_inv[OF daemon.reached_inv[OF started assms(2)] daemon_step.endpoint_thread[OF server_step.stop_server[OF stop]]]])
  have "\<not> pi_started (tp_info (snd e))" if "e \<in> set (stopThreadPools (sv_pools sv1))" for e
    using stopped_pools(2)[OF that] by (auto simp: pool_stop_def)
  then have stopped: "stopped_daemon ?sv2"
    using inv by (auto simp: stopped_daemon_def daemon_inv_def all_pools_def stopped_pool_def)
  have rest: "list_all (\<lambda>w. snd w = Exited) (sv_workers sv3) \<and> joinThreadPools (sv_pools sv3) \<and> main E argv (\<lambda>_. sv3) = Exits 0 []"
    if "run (program_step E g lib) ?sv2 es' sv3" "\<nexists>e sv4. daemon_counted e \<and> program_step E g lib sv3 e sv4" for es' sv3
  proof -
    note r = daemon_at_rest[OF ending.run_inv[OF that(1) stopped] that(2)]
    have "sv_status sv3 = RUNNING" using daemon_run_fixed[OF that(1)] st by simp
    moreover have "list_all (\<lambda>w. \<not> has_holder (snd w)) (sv_workers sv3)" using r by (auto simp: list_all_iff)
    ultimately show ?thesis using r assms(1) by (simp add: main_def server_join_def)
  qed
  have bound: "length (filter daemon_counted es') \<le>
      4 * length (sv_workers ?sv2) + 2 * sum_list (map (\<lambda>(n, p). length (tp_threads p)) (sv_pools ?sv2))"
    if "run (program_step E g lib) ?sv2 es' sv3" for es' sv3
    using ending.run_bounded[OF that stopped] daemon_left_le[of ?sv2] by linarith
  have reach: "\<exists>es4 sv4. run (program_step E g lib) sv3 es4 sv4 \<and> main E argv (\<lambda>_. sv4) = Exits 0 []"
    if r: "run (program_step E g lib) ?sv2 es' sv3" for es' sv3
  proof -
    obtain es4 sv4 where e: "run (program_step E g lib) sv3 es4 sv4"
      "\<nexists>e sv5. daemon_counted e \<and> program_step E g lib sv4 e sv5"
      using ending.comes_to_rest[OF ending.run_inv[OF r stopped]] by blast
    then show ?thesis using rest[OF run_append[OF e(1) r]] by blast
  qed
  have "stopThreadFunction (map (\<lambda>c. (1, c)) (signalHandler signo True [])) sv1 = (Inr (), ?sv2)"
    using assms(4) stop by (auto simp: stopThreadFunction_def signalHandler_def server_stop_def)
  then show ?thesis using bound rest reach by (intro exI[of _ ?sv2] conjI allI impI) (assumption | simp | blast)+
qed

text \<open>The daemon of \<open>demo_setup\<close> after the signal: its two threads return, and \<^verbatim>\<open>main\<close> ends.\<close>

definition demo_stopped :: "phase \<Rightarrow> nat request_task worker \<Rightarrow> nat fcgi_server" where
  "demo_stopped p w = demo_server\<lparr>sv_stopped := True, sv_workers := [(0, p)],
     sv_pools := [(''main'', \<lparr>tp_threads = [w], tp_tasksQueue = [], tp_info = \<lparr>pi_started = False, pi_threadsNumber = 1, pi_queueLength = 1,
       pi_busyThreadsCounter = 0, pi_currentQueue = 0, pi_goodTasksCounter = 0, pi_badTasksCounter = 0\<rparr>, tp_callers = 0\<rparr>)]\<rparr>"

definition demo_end :: "nat daemon_event list" where
  "demo_end = [EndpointThread (TakeHolder 0), EndpointThread (CheckTop 0), PoolThread ''main'' (Init 0), PoolThread ''main'' (Poll 0 Returned)]"

lemma demo_stop: "stopThreadFunction [(1, CHR ''s'')] demo_server = (Inr (), demo_stopped Loop Starting)"
  by (simp add: stopThreadFunction_def stopInternal_def monad_simps demo_server_def demo_stopped_def stopThreadPools_def
    startThreadPools_def pool_stop_def pool_start_def ThreadPool_new_def notify_all_waiting_def)

lemma demo_end_run: "run (program_step demo_env small_started lib) (demo_stopped Loop Starting) demo_end (demo_stopped Exited Returned)"
proof -
  have at: "at_phase (demo_stopped p w) 0 0 q \<longleftrightarrow> q = p" "go 0 0 q (demo_stopped p w) = demo_stopped q w"
    "sv_stopped (demo_stopped p w)" for p q w
    by (auto simp: at_phase_def go_def demo_stopped_def demo_server_def)
  define pool :: "nat request_task worker \<Rightarrow> nat request_task thread_pool" where "pool w = snd (hd (sv_pools (demo_stopped Exited w)))" for w
  have find: "sm_find (sv_pools (demo_stopped Exited w)) ''main'' = Some (pool w)" for w
    by (simp add: pool_def demo_stopped_def sm_find_def)
  have move: "demo_stopped Exited w\<lparr>sv_pools := replace_pool (sv_pools (demo_stopped Exited w)) ''main'' (set_worker 0 v (pool w))\<rparr> =
      demo_stopped Exited v" "at_worker (pool w) 0 w" for v w
    by (simp_all add: pool_def demo_stopped_def replace_pool_def set_worker_def at_worker_def)
  have poll: "work_section NoTask (pool w) = (Returned, pool w)" for w
    by (simp add: pool_def demo_stopped_def work_section_def work_poll_def)
  show ?thesis
    unfolding demo_end_def
  proof (rule run_Cons, rule_tac [2] run_Cons, rule_tac [3] run_Cons, rule_tac [4] run_single)
    show "program_step demo_env small_started lib (demo_stopped Loop Starting) (EndpointThread (TakeHolder 0)) (demo_stopped Held Starting)"
      using daemon_step.endpoint_thread[OF server_step.hold[of "demo_stopped Loop Starting" 0 0]] by (simp add: at)
    show "program_step demo_env small_started lib (demo_stopped Held Starting) (EndpointThread (CheckTop 0)) (demo_stopped Exited Starting)"
      using daemon_step.endpoint_thread[OF server_step.top_stopped[of "demo_stopped Held Starting" 0 0]] by (simp add: at)
    show "program_step demo_env small_started lib (demo_stopped Exited Starting) (PoolThread ''main'' (Init 0)) (demo_stopped Exited (Locking NoTask))"
      using daemon_step.pool_thread[OF find[of Starting] _ pool_step.init[OF move(2)]] by (simp add: move(1))
    show "program_step demo_env small_started lib (demo_stopped Exited (Locking NoTask)) (PoolThread ''main'' (Poll 0 Returned)) (demo_stopped Exited Returned)"
      using daemon_step.pool_thread[OF find[of "Locking NoTask"] _ pool_step.locked[OF move(2) poll]] by (simp add: move(1))
  qed
qed

theorem signal_stops_witness:
  "stopThreadFunction [(1, CHR ''s'')] demo_server = (Inr (), demo_stopped Loop Starting) \<and>
   run (program_step demo_env small_started example_boost) (demo_stopped Loop Starting) demo_end (demo_stopped Exited Returned) \<and>
   main demo_env demo_args (\<lambda>_. demo_stopped Exited Returned) = Exits 0 []"
proof (intro conjI demo_stop demo_end_run)
  have n: "\<not> sv_stopped demo_server" by (simp add: demo_server_def)
  obtain sv2 where sv2: "stopThreadFunction [(1, CHR ''s'')] demo_server = (Inr (), sv2)"
    and rest: "\<And>es' sv3. run (program_step demo_env small_started example_boost) sv2 es' sv3 \<Longrightarrow>
      (\<nexists>e sv4. daemon_counted e \<and> program_step demo_env small_started example_boost sv3 e sv4) \<Longrightarrow>
      main demo_env demo_args (\<lambda>_. sv3) = Exits 0 []"
    using signal_stops[OF demo_setup run_nil[where step = "program_step demo_env small_started example_boost"] n, of SIGTERM]
    by (auto simp: signalHandler_def server_stop_def)
  have "sv2 = demo_stopped Loop Starting" using sv2 demo_stop by simp
  moreover have "\<nexists>e sv4. daemon_counted e \<and> program_step demo_env small_started example_boost (demo_stopped Exited Returned) e sv4"
    by (auto elim!: daemon_stepE server_stepE pool_stepE simp: at_phase_def demo_stopped_def demo_server_def sm_find_def at_worker_def
      stopInternal_def monad_simps split: if_splits)
  ultimately show "main demo_env demo_args (\<lambda>_. demo_stopped Exited Returned) = Exits 0 []"
    using rest demo_end_run by blast
qed

end
