(* ===== verification/Request_Output.thy ===== *)
theory Request_Output
  imports Request_Thread_Pool
begin

text \<open>
  What a client gets from a whole sequence of calls on a request: \<^verbatim>\<open>setStatus\<close>, \<^verbatim>\<open>setHeader\<close>, \<^verbatim>\<open>setCookie\<close>,
  \<^verbatim>\<open>sendError\<close>, \<^verbatim>\<open>sendHeaders\<close> and both \<^verbatim>\<open>write\<close> of \<^verbatim>\<open>library/requestimpl.cpp\<close>, in any order and with any arguments,
  by a caller that goes on after an exception. The abstract view of the response (\<open>response\<close>) has the calls up to the
  first one that sends, that call, and the data written later; the operations implement it (\<open>response_form\<close>).
\<close>

section \<open>Calls\<close>

datatype out_call = CallStatus nat | CallHeader string string | CallCookie cookie | CallError nat | CallSendHeaders
  | CallWrite string | CallWriteBuf string

fun out_op :: "boost \<Rightarrow> out_call \<Rightarrow> (request_impl, unit) st" where
  "out_op lib (CallStatus n) = setStatus lib n"
| "out_op lib (CallHeader nam val) = setHeader nam val"
| "out_op lib (CallCookie c) = setCookie c"
| "out_op lib (CallError n) = sendError lib n"
| "out_op lib CallSendHeaders = sendHeaders"
| "out_op lib (CallWrite s) = bindS (rq_write s) (\<lambda>_. returnS ())"
| "out_op lib (CallWriteBuf s) = rq_write_buf s"

definition out_calls :: "boost \<Rightarrow> out_call list \<Rightarrow> request_impl \<Rightarrow> request_impl" where
  "out_calls lib ops r = fold (\<lambda>op r. snd (out_op lib op r)) ops r"

section \<open>The response\<close>

fun sends :: "out_call \<Rightarrow> bool" where
  "sends (CallStatus n) = False"
| "sends (CallHeader nam val) = False"
| "sends (CallCookie c) = False"
| "sends op = True"

text \<open>The effect of a call that only prepares the headers.\<close>

fun prepare :: "out_call \<Rightarrow> request_impl \<Rightarrow> request_impl" where
  "prepare (CallStatus n) r = r\<lparr>rq_status := n\<rparr>"
| "prepare (CallHeader nam val) r = put_out_header (normalizeOutputHeaderName nam) val r"
| "prepare (CallCookie c) r = r\<lparr>rq_out_cookies := cset_replace (rq_out_cookies r) c\<rparr>"
| "prepare op r = r"

text \<open>The request whose headers are sent: an error has its own headers. And what follows the headers.\<close>

fun sent_headers :: "out_call \<Rightarrow> request_impl \<Rightarrow> request_impl" where
  "sent_headers (CallError n) r = error_request n r"
| "sent_headers op r = put_out_header ''Status'' (status_line (rq_status r)) r"

fun data_of :: "string \<Rightarrow> out_call \<Rightarrow> string" where
  "data_of meth (CallWrite s) = (if meth = ''HEAD'' then [] else s)"
| "data_of meth (CallWriteBuf s) = (if meth = ''HEAD'' then [] else s)"
| "data_of meth op = []"

fun first_data :: "boost \<Rightarrow> string \<Rightarrow> out_call \<Rightarrow> string" where
  "first_data lib meth (CallError n) = error_page lib n"
| "first_data lib meth op = data_of meth op"

definition response :: "boost \<Rightarrow> out_call list \<Rightarrow> request_impl \<Rightarrow> request_impl" where
  "response lib ops r =
     (let r1 = fold prepare (takeWhile (\<lambda>op. \<not> sends op) ops) r; meth = getRequestMethod r in
      case dropWhile (\<lambda>op. \<not> sends op) ops of
        [] \<Rightarrow> r1
      | op # later \<Rightarrow> (let q = sent_headers op r1 in
          (rq_emit (header_block q @ first_data lib meth op @ concat (map (data_of meth) later)) q)\<lparr>rq_headers_sent := True\<rparr>))"

section \<open>The calls implement it\<close>

definition printable_call :: "out_call \<Rightarrow> bool" where
  "printable_call op = (case op of CallCookie c \<Rightarrow> \<exists>s. cookie_toString c = Inr s | _ \<Rightarrow> True)"

lemma cset_replace_subset: "set (cset_replace s c) \<subseteq> insert c (set s)"
proof -
  have i: "set (fst (cset_insert s c)) \<subseteq> insert c (set s)"
    by (induction s c rule: cset_insert.induct) (auto split: prod.splits)
  have a: "set (cset_assign t c) \<subseteq> insert c (set t)" for t by (induction t c rule: cset_assign.induct) auto
  obtain t b where t: "cset_insert s c = (t, b)" by fastforce
  then have "set t \<subseteq> insert c (set s)" using i by simp
  then show ?thesis using a[of t] t unfolding cset_replace_def by (cases b) (simp, simp, blast)
qed

definition fresh :: "request_impl \<Rightarrow> bool" where
  "fresh r \<longleftrightarrow> rq_open r \<and> \<not> rq_headers_sent r \<and> cookies_printable r"

lemma out_op_prepares:
  assumes "fresh r" "\<not> sends op" "printable_call op"
  shows "out_op lib op r = (Inr (), prepare op r)" "fresh (prepare op r)"
    "getRequestMethod (prepare op r) = getRequestMethod r" "rq_stream (prepare op r) = rq_stream r"
proof -
  have k: "\<not> rq_headers_sent r" "rq_open r" "cookies_printable r" using assms(1) by (simp_all add: fresh_def)
  show "out_op lib op r = (Inr (), prepare op r)"
    using k assms(2) by (cases op) (simp_all add: setStatus_def setHeader_def setCookie_def cset_replace_def st_defs bindS_def)
  have "cookies_printable (prepare op r)"
    using k(3) assms(3) cset_replace_subset by (cases op) (fastforce simp: cookies_printable_def printable_call_def put_out_header_def)+
  then show "fresh (prepare op r)" using k by (cases op) (simp_all add: fresh_def put_out_header_def rq_open_def)
  show "getRequestMethod (prepare op r) = getRequestMethod r" "rq_stream (prepare op r) = rq_stream r"
    by (cases op; simp add: getRequestMethod_def put_out_header_def)+
qed

lemma sent_fields [simp]:
  "rq_emit x (r\<lparr>rq_headers_sent := b\<rparr>) = (rq_emit x r)\<lparr>rq_headers_sent := b\<rparr>"
  "getRequestMethod (r\<lparr>rq_headers_sent := b\<rparr>) = getRequestMethod r" "getRequestMethod (rq_emit x r) = getRequestMethod r"
  "getRequestMethod (put_out_header n v r) = getRequestMethod r"
  by (simp_all add: rq_emit_def getRequestMethod_def put_out_header_def)

text \<open>After the headers only data is sent, and nothing else changes.\<close>

lemma out_op_later:
  assumes "rq_open r" "rq_headers_sent r"
  shows "snd (out_op lib op r) = rq_emit (data_of (getRequestMethod r) op) r"
proof -
  obtain io where "rq_stream r = Some io" using assms(1) by (auto simp: rq_open_def)
  then show ?thesis
    using assms sendHeaders_sent[OF assms(2)]
    by (cases op) (simp_all add: rq_write_def rq_write_buf_def sendHeaders_def setStatus_def setHeader_def setCookie_def
      sendError_def bindS_def returnS_def getS_def throwS_def)
qed

lemma out_op_sends:
  assumes "fresh r" "sends op"
  shows "snd (out_op lib op r) =
    (rq_emit (header_block (sent_headers op r) @ first_data lib (getRequestMethod r) op) (sent_headers op r))\<lparr>rq_headers_sent := True\<rparr>"
proof -
  have k: "\<not> rq_headers_sent r" "rq_open r" "cookies_printable r" using assms(1) by (simp_all add: fresh_def)
  let ?q = "put_out_header ''Status'' (status_line (rq_status r)) r"
  let ?h = "(rq_emit (header_block ?q) ?q)\<lparr>rq_headers_sent := True\<rparr>"
  have h: "sendHeadersInternal r = (Inr (), ?h)" using sendHeaders_open[OF k] by simp
  have o: "rq_open ?h" using k(2) by simp
  then obtain io where io: "rq_stream ?h = Some io" by (auto simp: rq_open_def)
  show ?thesis
  proof (cases op)
    case (CallError n)
    then show ?thesis using sendError_open[OF k(2,1), of lib n] by (simp add: error_reply_def Let_def)
  qed (use assms(2) h o io in \<open>simp_all add: sendHeaders_def rq_write_def rq_write_buf_def bindS_def returnS_def getS_def\<close>)
qed

lemma out_calls_later:
  assumes "rq_open r" "rq_headers_sent r"
  shows "out_calls lib ops r = rq_emit (concat (map (data_of (getRequestMethod r)) ops)) r"
  using assms
proof (induction ops arbitrary: r)
  case (Cons op ops)
  then show ?case using out_op_later[OF Cons.prems, of lib op] by (simp add: out_calls_def)
qed (simp add: out_calls_def)

lemma out_calls_Cons: "out_calls lib (op # ops) r = out_calls lib ops (snd (out_op lib op r))"
  by (simp add: out_calls_def)

lemma response_Cons:
  "sends op \<Longrightarrow> response lib (op # ops) r = (rq_emit (header_block (sent_headers op r) @ first_data lib (getRequestMethod r) op @
     concat (map (data_of (getRequestMethod r)) ops)) (sent_headers op r))\<lparr>rq_headers_sent := True\<rparr>"
  "\<not> sends op \<Longrightarrow> getRequestMethod (prepare op r) = getRequestMethod r \<Longrightarrow> response lib (op # ops) r = response lib ops (prepare op r)"
  by (simp_all add: response_def Let_def)

lemma sent_headers_kept: "rq_open (sent_headers op r) = rq_open r" "getRequestMethod (sent_headers op r) = getRequestMethod r"
  by (cases op; simp add: error_request_def; simp add: getRequestMethod_def)+

lemma out_calls_response:
  assumes "fresh r" "list_all printable_call ops"
  shows "out_calls lib ops r = response lib ops r"
  using assms
proof (induction ops arbitrary: r)
  case (Cons op ops)
  show ?case
  proof (cases "sends op")
    case True
    let ?q = "sent_headers op r"
    let ?r = "(rq_emit (header_block ?q @ first_data lib (getRequestMethod r) op) ?q)\<lparr>rq_headers_sent := True\<rparr>"
    have k: "rq_open ?r" "getRequestMethod ?r = getRequestMethod r"
      using Cons.prems(1) by (simp_all add: fresh_def sent_headers_kept)
    have "out_calls lib ops ?r = rq_emit (concat (map (data_of (getRequestMethod r)) ops)) ?r"
      using out_calls_later[OF k(1)] k(2) by simp
    then show ?thesis
      unfolding out_calls_Cons out_op_sends[OF Cons.prems(1) True] response_Cons(1)[OF True] by simp
  next
    case False
    have c: "printable_call op" "list_all printable_call ops" using Cons.prems(2) by simp_all
    note p = out_op_prepares[OF Cons.prems(1) False c(1)]
    show ?thesis
      unfolding out_calls_Cons p(1) response_Cons(2)[OF False p(3)] snd_conv by (rule Cons.IH[OF p(2) c(2)])
  qed
qed (simp add: out_calls_def response_def)

section \<open>Properties\<close>

text \<open>
  C35. Whatever calls a handler makes on a request, in whatever order, when the connection takes what is written, nothing is
  sent yet and all cookies have a date of the calendar: as long as no call sends, nothing is written, and each call only
  sets what it names; the first call that sends writes one block of headers, with the status, the headers and the cookies
  set so far, or with those of the error page alone for \<^verbatim>\<open>sendError\<close>, and then its data; and every later call adds
  only the data of a \<^verbatim>\<open>write\<close>, so that no status, header, cookie or error page comes after the headers. To a \<^verbatim>\<open>HEAD\<close> request
  no data of a \<^verbatim>\<open>write\<close> is sent.
\<close>

theorem response_form:
  assumes "rq_open r" "\<not> rq_headers_sent r" "cookies_printable r" "list_all printable_call ops"
  shows "out_calls lib ops r =
    (let r1 = fold prepare (takeWhile (\<lambda>op. \<not> sends op) ops) r; meth = getRequestMethod r in
     case dropWhile (\<lambda>op. \<not> sends op) ops of
       [] \<Rightarrow> r1
     | op # later \<Rightarrow> (let q = sent_headers op r1 in
         (rq_emit (header_block q @ first_data lib meth op @ concat (map (data_of meth) later)) q)\<lparr>rq_headers_sent := True\<rparr>))"
  using out_calls_response[of r ops lib] assms by (simp add: fresh_def response_def)

text \<open>A page that is written in two parts, with a status that is set in time and an error that comes too late.\<close>

theorem response_form_witness:
  "rq_stream (out_calls example_boost [CallStatus 404, CallWrite ''a'', CallError 500, CallWriteBuf ''b''] example_request) =
     Some \<lparr>io_input = [], io_output = ''Status: 404 Not found'' @ CRLF @ CRLF @ ''ab'', io_writes_left = None\<rparr>"
proof -
  have r: "rq_open example_request" "\<not> rq_headers_sent example_request" "cookies_printable example_request"
    by (simp_all add: example_request_def rq_open_def RequestImpl_new_def rq_reset_def cookies_printable_def)
  have m: "getRequestMethod example_request = ''GET''" by code_simp
  have b: "header_block (put_out_header ''Status'' (status_line 404) (example_request\<lparr>rq_status := 404\<rparr>)) =
      ''Status: 404 Not found'' @ CRLF @ CRLF"
    by code_simp
  show ?thesis
    using response_form[OF r, of "[CallStatus 404, CallWrite ''a'', CallError 500, CallWriteBuf ''b'']" example_boost] m b
    by (simp add: printable_call_def rq_emit_def put_out_header_def) (simp add: example_request_def)
qed

end
