(* ===== verification/Helpers.thy ===== *)
theory Helpers
  imports Runs "HOL-Library.Multiset"
begin

text \<open>
  The owning pointers of \<^verbatim>\<open>include/fastcgi2/helpers.h\<close>, through which the configuration holds the objects of the XML
  library. Copying a \<^verbatim>\<open>Helper\<close> moves the pointer out of the original, whose field is \<^verbatim>\<open>mutable\<close>; assigning, resetting and
  destroying one cleans what it held. The state lists all objects, with the pointers that have been given to
  \<^verbatim>\<open>Clean::clean\<close> and those that \<^verbatim>\<open>release\<close> has returned to its callers; the pointer \<^verbatim>\<open>NULL\<close> is \<open>None\<close>. Every pointer that was handed
  to an object is held, cleaned or released (\<open>pointers_conserved\<close>), so that none is cleaned twice
  (\<open>cleaned_once\<close>).
\<close>

section \<open>Operations\<close>

datatype 'p helper = Gone | Live "'p option"

record 'p helpers =
  hp_objects :: "'p helper list"
  hp_cleaned :: "'p list"
  hp_released :: "'p list"

definition helpers_none :: "'p helpers" where
  "helpers_none = \<lparr>hp_objects = [], hp_cleaned = [], hp_released = []\<rparr>"

text \<open>The field \<^verbatim>\<open>tptr_\<close> of an object; using one that does not exist is undefined.\<close>

definition tptr :: "nat \<Rightarrow> ('p helpers, 'p option) st" where
  "tptr i = (\<lambda>s. (if i < length (hp_objects s)
     then (case hp_objects s ! i of Gone \<Rightarrow> Inl UndefinedBehaviour | Live p \<Rightarrow> Inr p) else Inl UndefinedBehaviour, s))"

definition set_tptr :: "nat \<Rightarrow> 'p option \<Rightarrow> ('p helpers, unit) st" where
  "set_tptr i p = modifyS (\<lambda>s. s\<lparr>hp_objects := (hp_objects s)[i := Live p]\<rparr>)"

definition construct :: "'p option \<Rightarrow> ('p helpers, unit) st" where
  "construct p = modifyS (\<lambda>s. s\<lparr>hp_objects := hp_objects s @ [Live p]\<rparr>)"

definition Helper_default :: "('p helpers, unit) st" where
  "Helper_default = construct None"

definition Helper_new :: "'p option \<Rightarrow> ('p helpers, unit) st" where
  "Helper_new p = construct p"

definition releaseInternal :: "nat \<Rightarrow> ('p helpers, 'p option) st" where
  "releaseInternal i = bindS (tptr i) (\<lambda>p. bindS (set_tptr i None) (\<lambda>_. returnS p))"

definition Helper_copy :: "nat \<Rightarrow> ('p helpers, unit) st" where
  "Helper_copy h = bindS (releaseInternal h) construct"

definition hp_clean :: "'p option \<Rightarrow> ('p helpers, unit) st" where
  "hp_clean p = (case p of None \<Rightarrow> returnS () | Some q \<Rightarrow> modifyS (\<lambda>s. s\<lparr>hp_cleaned := hp_cleaned s @ [q]\<rparr>))"

definition helper_reset :: "nat \<Rightarrow> 'p option \<Rightarrow> ('p helpers, unit) st" where
  "helper_reset i p = bindS (tptr i) (\<lambda>old. bindS (hp_clean old) (\<lambda>_. set_tptr i p))"

definition Helper_assign :: "nat \<Rightarrow> nat \<Rightarrow> ('p helpers, unit) st" where
  "Helper_assign i h = bindS (tptr i) (\<lambda>_. if h \<noteq> i then bindS (releaseInternal h) (helper_reset i) else returnS ())"

definition Helper_destroy :: "nat \<Rightarrow> ('p helpers, unit) st" where
  "Helper_destroy i = bindS (helper_reset i None) (\<lambda>_. modifyS (\<lambda>s. s\<lparr>hp_objects := (hp_objects s)[i := Gone]\<rparr>))"

definition helper_get :: "nat \<Rightarrow> ('p helpers, 'p option) st" where
  "helper_get i = tptr i"

text \<open>\<^verbatim>\<open>operator ->\<close> asserts that there is a pointer.\<close>

definition helper_arrow :: "nat \<Rightarrow> ('p helpers, 'p) st" where
  "helper_arrow i = bindS (tptr i) (\<lambda>p. case p of None \<Rightarrow> throwS Terminate | Some q \<Rightarrow> returnS q)"

definition helper_release :: "nat \<Rightarrow> ('p helpers, 'p option) st" where
  "helper_release i = bindS (releaseInternal i) (\<lambda>p.
     bindS (modifyS (\<lambda>s. s\<lparr>hp_released := hp_released s @ (case p of None \<Rightarrow> [] | Some q \<Rightarrow> [q])\<rparr>)) (\<lambda>_. returnS p))"

section \<open>Programs that use them\<close>

datatype 'p helper_event = Default | New "'p option" | Copy nat | Assign nat nat | Reset nat "'p option" | Release nat | Destroy nat

fun exec :: "'p helper_event \<Rightarrow> ('p helpers, unit) st" where
  "exec Default = Helper_default"
| "exec (New p) = Helper_new p"
| "exec (Copy i) = Helper_copy i"
| "exec (Assign i h) = Helper_assign i h"
| "exec (Reset i p) = helper_reset i p"
| "exec (Release i) = bindS (helper_release i) (\<lambda>_. returnS ())"
| "exec (Destroy i) = Helper_destroy i"

definition helper_step :: "'p helpers \<Rightarrow> 'p helper_event \<Rightarrow> 'p helpers \<Rightarrow> bool" where
  "helper_step s e s' \<longleftrightarrow> exec e s = (Inr (), s')"

text \<open>The pointers that are handed to an object.\<close>

fun given :: "'p helper_event \<Rightarrow> 'p list" where
  "given (New (Some p)) = [p]"
| "given (Reset i (Some p)) = [p]"
| "given e = []"

definition acquired :: "'p helper_event list \<Rightarrow> 'p list" where
  "acquired es = concat (map given es)"

fun slot :: "'p helper \<Rightarrow> 'p list" where
  "slot (Live (Some p)) = [p]"
| "slot h = []"

definition held :: "'p helpers \<Rightarrow> 'p list" where
  "held s = concat (map slot (hp_objects s))"

definition owned :: "'p helpers \<Rightarrow> 'p multiset" where
  "owned s = mset (held s) + mset (hp_cleaned s) + mset (hp_released s)"

lemmas helper_ops = Helper_default_def Helper_new_def Helper_copy_def Helper_assign_def helper_reset_def helper_release_def
  Helper_destroy_def releaseInternal_def construct_def hp_clean_def set_tptr_def tptr_def monad_simps

section \<open>Conservation\<close>

definition ptrs :: "'p option \<Rightarrow> 'p multiset" where
  "ptrs p = mset (slot (Live p))"

lemma ptrs_simps [simp]: "ptrs None = {#}" "ptrs (Some p) = {#p#}"
  by (simp_all add: ptrs_def)

lemma mset_update:
  "i < length xs \<Longrightarrow> mset (concat (map f (xs[i := y]))) + mset (f (xs ! i)) = mset (concat (map f xs)) + mset (f y)"
proof (induction xs arbitrary: i)
  case (Cons x xs)
  then show ?case by (cases i) (auto simp: union_ac add_ac)
qed simp

lemma count_distinct: "\<forall>x. count_list xs x \<le> 1 \<Longrightarrow> distinct xs"
proof (induction xs)
  case (Cons x xs)
  then have c: "count_list (x # xs) y \<le> 1" for y by blast
  have "count_list xs y \<le> count_list (x # xs) y" for y by simp
  then have "count_list xs y \<le> 1" for y using c[of y] order_trans by blast
  moreover have "x \<notin> set xs" using c[of x] by (simp add: count_list_0_iff)
  ultimately show ?case using Cons.IH by simp
qed simp

lemma tptrD: "tptr i s = (Inr p, s') \<Longrightarrow> s' = s \<and> i < length (hp_objects s) \<and> hp_objects s ! i = Live p"
  by (auto simp: tptr_def split: if_splits helper.splits)

lemma set_held:
  assumes "i < length (hp_objects s)" "hp_objects s ! i = Live p"
  shows "mset (held (s\<lparr>hp_objects := (hp_objects s)[i := h]\<rparr>)) + ptrs p = mset (held s) + mset (slot h)"
  using mset_update[OF assms(1), of slot h] assms(2) by (simp add: held_def ptrs_def)

lemma releaseInternalD:
  assumes "releaseInternal i s = (Inr p, s')"
  shows "owned s' + ptrs p = owned s"
proof -
  have t: "i < length (hp_objects s)" "hp_objects s ! i = Live p" "s' = s\<lparr>hp_objects := (hp_objects s)[i := Live None]\<rparr>"
    using assms by (auto simp: releaseInternal_def set_tptr_def st_defs elim!: bindS_InrE dest!: tptrD)
  show ?thesis using set_held[OF t(1,2), of "Live None"] by (simp add: owned_def t(3) union_ac)
qed

lemma constructD: "construct p s = (Inr u, s') \<Longrightarrow> owned s' = owned s + ptrs p"
  by (auto simp: construct_def modifyS_def owned_def held_def ptrs_def)

lemma helper_resetD:
  assumes "helper_reset i q s = (Inr u, s')"
  shows "owned s' = owned s + ptrs q \<and> i < length (hp_objects s') \<and> hp_objects s' ! i = Live q"
proof -
  obtain p where t: "i < length (hp_objects s)" "hp_objects s ! i = Live p"
    "s' = s\<lparr>hp_cleaned := hp_cleaned s @ slot (Live p), hp_objects := (hp_objects s)[i := Live q]\<rparr>"
    using assms by (auto simp: helper_reset_def hp_clean_def set_tptr_def st_defs elim!: bindS_InrE dest!: tptrD split: option.splits)
  have "mset (held s') + ptrs p = mset (held s) + ptrs q" using set_held[OF t(1,2), of "Live q"] by (simp add: t(3) held_def ptrs_def)
  then have "owned s' = owned s + ptrs q" by (simp add: owned_def t(3) ptrs_def union_ac) 
  then show ?thesis using t(1) by (simp add: t(3))
qed

lemma Helper_destroyD:
  assumes "Helper_destroy i s = (Inr u, s')"
  shows "owned s' = owned s"
proof -
  obtain s1 where s1: "helper_reset i None s = (Inr (), s1)" "s' = s1\<lparr>hp_objects := (hp_objects s1)[i := Gone]\<rparr>"
    using assms by (auto simp: Helper_destroy_def st_defs elim!: bindS_InrE)
  note r = helper_resetD[OF s1(1)]
  then have "mset (held s') + ptrs None = mset (held s1) + mset (slot Gone)"
    unfolding s1(2) by (intro set_held) simp_all
  then show ?thesis using r by (simp add: owned_def s1(2))
qed

lemma exec_owned: "exec e s = (Inr u, s') \<Longrightarrow> owned s' = owned s + mset (given e)"
proof (cases e)
  case (Copy i)
  assume "exec e s = (Inr u, s')"
  then show ?thesis
    using Copy by (auto simp: Helper_copy_def union_ac elim!: bindS_InrE dest!: releaseInternalD constructD)
next
  case (Assign i h)
  assume "exec e s = (Inr u, s')"
  then show ?thesis
    using Assign by (auto simp: Helper_assign_def st_defs union_ac elim!: bindS_InrE dest!: releaseInternalD helper_resetD tptrD
        split: if_splits)
next
  case (Release i)
  assume "exec e s = (Inr u, s')"
  then obtain p s1 where s1: "releaseInternal i s = (Inr p, s1)" "s' = s1\<lparr>hp_released := hp_released s1 @ slot (Live p)\<rparr>"
    using Release by (auto simp: helper_release_def st_defs elim!: bindS_InrE split: option.splits)
  have "owned s' = owned s1 + ptrs p" by (simp add: owned_def held_def ptrs_def s1(2) union_ac)
  then show ?thesis using releaseInternalD[OF s1(1)] Release by simp
next
  case (Reset i p)
  assume "exec e s = (Inr u, s')"
  then show ?thesis using Reset by (cases p) (auto dest!: helper_resetD)
next
  case (New p)
  assume "exec e s = (Inr u, s')"
  then show ?thesis using New by (cases p) (auto simp: Helper_new_def dest!: constructD)
qed (auto simp: Helper_default_def dest!: constructD Helper_destroyD)

lemma pointers_conserved: "run helper_step s es s' \<Longrightarrow> owned s' = owned s + mset (acquired es)"
  by (induction rule: run.induct) (auto simp: acquired_def helper_step_def union_assoc dest!: exec_owned)

lemma exec_run: "foreachS exec es s = (Inr (), s') \<Longrightarrow> run helper_step s es s'"
proof (induction es arbitrary: s)
  case (Cons e es)
  then obtain t where "exec e s = (Inr (), t)" "foreachS exec es t = (Inr (), s')" by (auto elim!: bindS_InrE)
  then have "helper_step s e t" "run helper_step t es s'" using Cons.IH by (simp add: helper_step_def, blast)
  then show ?case by (rule run_Cons[where step = helper_step])
qed (simp add: returnS_def run_nil[where step = helper_step])

text \<open>
  Resetting an object to the pointer that it holds cleans the pointer and keeps it: the code does not compare them.
\<close>

lemma reset_own_pointer:
  assumes "i < length (hp_objects s)" "hp_objects s ! i = Live (Some p)"
  shows "\<exists>s'. helper_reset i (Some p) s = (Inr (), s') \<and> p \<in> set (hp_cleaned s') \<and> p \<in> set (held s')"
proof -
  let ?s = "s\<lparr>hp_cleaned := hp_cleaned s @ [p], hp_objects := (hp_objects s)[i := Live (Some p)]\<rparr>"
  have "Live (Some p) \<in> set (hp_objects ?s)" using assms by (simp add: set_update_memI)
  then have "p \<in> set (held ?s)" unfolding held_def by (auto intro!: bexI[of _ "Live (Some p)"])
  moreover have "helper_reset i (Some p) s = (Inr (), ?s)" using assms by (simp add: helper_ops)
  ultimately show ?thesis by (intro exI[of _ ?s]) simp
qed

section \<open>Properties\<close>

text \<open>
  C31. Owning pointers, in every state that a program reaches with them: when every pointer that was handed to an object is
  its own, or has come back through a release before, no pointer is cleaned twice, held by two objects or
  held after it was cleaned; and once all objects are destroyed, every pointer has been cleaned or released.
\<close>

theorem cleaned_once:
  assumes "run helper_step helpers_none es s" "\<forall>p. count_list (acquired es) p \<le> count_list (hp_released s) p + 1"
  shows "distinct (held s @ hp_cleaned s) \<and>
    (list_all (\<lambda>h. h = Gone) (hp_objects s) \<longrightarrow> mset (acquired es) = mset (hp_cleaned s) + mset (hp_released s))"
proof -
  have o: "mset (acquired es) = owned s"
    using pointers_conserved[OF assms(1)] by (simp add: owned_def helpers_none_def held_def)
  have "count_list (held s @ hp_cleaned s) p \<le> 1" for p
  proof -
    have "count (mset (acquired es)) p = count (owned s) p" using o by simp
    then have "count_list (acquired es) p = count_list (held s) p + count_list (hp_cleaned s) p + count_list (hp_released s) p"
      by (simp add: owned_def count_mset)
    then show ?thesis using assms(2)[rule_format, of p] by simp
  qed
  then have "distinct (held s @ hp_cleaned s)" by (intro count_distinct) blast
  moreover have "held s = []" if "list_all (\<lambda>h. h = Gone) (hp_objects s)"
    using that by (auto simp: held_def list_all_iff)
  ultimately show ?thesis using o by (auto simp: owned_def)
qed

definition helper_program :: "nat helper_event list" where
  "helper_program = [New (Some 7), Copy 0, Default, Assign 2 1, New (Some 8), Reset 3 None, Release 2, Reset 0 (Some 7), Destroy 0, Destroy 1,
     Destroy 2, Destroy 3]"

theorem cleaned_once_witness:
  "\<exists>s. run helper_step helpers_none helper_program s \<and> distinct (held s @ hp_cleaned s) \<and>
    mset (acquired helper_program) = mset (hp_cleaned s) + mset (hp_released s) \<and> hp_cleaned s = [8, 7] \<and> hp_released s = [7]"
proof -
  let ?s = "\<lparr>hp_objects = [Gone, Gone, Gone, Gone], hp_cleaned = [8, 7 :: nat], hp_released = [7]\<rparr>"
  have r: "run helper_step helpers_none helper_program ?s"
    by (rule exec_run) (simp add: helper_program_def helpers_none_def helper_ops)
  have "\<forall>p. count_list (acquired helper_program) p \<le> count_list (hp_released ?s) p + 1"
    by (simp add: acquired_def helper_program_def)
  note c = cleaned_once[OF r this]
  then have "mset (acquired helper_program) = mset (hp_cleaned ?s) + mset (hp_released ?s)" by simp
  then show ?thesis using r c by (intro exI[of _ ?s] conjI) simp_all
qed

end
