(* ===== verification/Example_Component.thy ===== *)
theory Example_Component
  imports Request_Facade Attach_Cached Component_Set
begin

text \<open>
  The exceptions of the library (\<^verbatim>\<open>library/except.cpp\<close>), the context and the factories through which a component meets the
  daemon (\<^verbatim>\<open>include/fastcgi2/component.h\<close>, \<^verbatim>\<open>component_factory.h\<close>, \<^verbatim>\<open>library/component_context.cpp\<close>), and the module
  that shows how they are used (\<^verbatim>\<open>example/example.cpp\<close>): what its handlers answer in a pool (\<open>example_answers\<close>),
  and that its first handler is loaded after the logger it asks for (\<open>example_loads_logger\<close>).
\<close>

section \<open>Exceptions\<close>

datatype http_exception = HttpExc nat | NotFound | BadMethod string | InternalError

fun exc_status :: "http_exception \<Rightarrow> nat" where
  "exc_status (HttpExc status) = status"
| "exc_status NotFound = 404"
| "exc_status (BadMethod reason) = 400"
| "exc_status InternalError = 500"

definition exc_what :: "http_exception \<Rightarrow> string" where
  "exc_what e = statusToString (exc_status e)"

text \<open>\<^verbatim>\<open>snprintf(reason_, 256, "%s", reason)\<close>: the text up to its end, at most 255 characters.\<close>

definition BadMethod_new :: "string \<Rightarrow> http_exception" where
  "BadMethod_new reason = BadMethod (take 255 (takeWhile (\<lambda>c. c \<noteq> NUL) reason))"

fun exc_reason :: "http_exception \<Rightarrow> string option" where
  "exc_reason (BadMethod reason) = Some reason"
| "exc_reason e = None"

text \<open>What the handlers of exceptions see of one.\<close>

definition throw_http :: "http_exception \<Rightarrow> ('s, 'a) st" where
  "throw_http e = throwS (HttpException (exc_status e))"

section \<open>Contexts and factories\<close>

record component_context =
  cc_config :: config
  cc_xpath :: string

definition getConfig :: "component_context \<Rightarrow> config" where
  "getConfig ctx = cc_config ctx"

definition getComponentXPath :: "component_context \<Rightarrow> string" where
  "getComponentXPath ctx = cc_xpath ctx"

text \<open>
  \<^verbatim>\<open>findComponent<T>\<close> while a component is loaded: the set is asked for the component, which is then cast; \<open>k\<close> is what follows.
\<close>

definition findComponent :: "('c \<Rightarrow> 't option) \<Rightarrow> string \<Rightarrow> ('t option \<Rightarrow> 'c load_prog) \<Rightarrow> 'c load_prog" where
  "findComponent cast nam k = Finds nam (\<lambda>c. k (Option.bind c cast))"

text \<open>The table that \<^verbatim>\<open>getFactoryMap\<close> of a module returns; a name that is there keeps its factory.\<close>

definition add_factory :: "string \<Rightarrow> 'f \<Rightarrow> 'f factory_map \<Rightarrow> 'f factory_map" where
  "add_factory nam f m = sm_insert m nam f"

section \<open>The handlers of the example\<close>

datatype example_handler = ExampleHandler component_context | ExampleHandler2 component_context

definition example_factories :: "(component_context \<Rightarrow> example_handler) factory_map" where
  "example_factories = add_factory ''example2'' ExampleHandler2 (add_factory ''example'' ExampleHandler [])"

text \<open>\<open>as_logger\<close> is the cast of a component to a logger.\<close>

definition example_logger_load :: "('c \<Rightarrow> 'l option) \<Rightarrow> component_context \<Rightarrow> 'c load_prog" where
  "example_logger_load as_logger ctx =
     (case cfg_asString (getConfig ctx) (getComponentXPath ctx @ ''/logger'') of
        Inl e \<Rightarrow> Throws e
      | Inr loggerComponentName \<Rightarrow> findComponent as_logger loggerComponentName (\<lambda>logger.
          case logger of None \<Rightarrow> Throws (RuntimeError (''cannot get component '' @ loggerComponentName)) | Some l \<Rightarrow> Loaded))"

fun example_load :: "('c \<Rightarrow> 'l option) \<Rightarrow> example_handler \<Rightarrow> 'c load_prog" where
  "example_load as_logger (ExampleHandler ctx) = example_logger_load as_logger ctx"
| "example_load as_logger (ExampleHandler2 ctx) = Loaded"

definition example_handleRequest :: "boost \<Rightarrow> 'v handler" where
  "example_handleRequest lib = (\<lambda>(r, ctx).
     case in_scope (''test ok'' @ [CHR 0x0A]) (setStatus lib 200) r of (res, r') \<Rightarrow> (res, (r', ctx)))"

text \<open>The second handler reads the buffer of an uploaded file on the heap; what it prints is the second part of its result.\<close>

definition example2_handleRequest :: "heap \<Rightarrow> request_impl \<Rightarrow> 'v handler_context \<Rightarrow> unit result \<times> string list" where
  "example2_handleRequest h r ctx =
     (let param1 = getParam ctx ''param1''; param2 = getParam ctx ''param2'';
          out = (if param1 = None then [''param1 not found''] else []) in
      (if getScriptName r = ''/upload'' \<and> getRequestMethod r = ''POST'' then
         bindE (remoteFile h r ''file'') (\<lambda>f. bindE (db_toString h f) (\<lambda>file. Inr ()))
       else Inr (), out))"

definition example2_handler :: "heap \<Rightarrow> 'v handler" where
  "example2_handler h = (\<lambda>(r, ctx). (fst (example2_handleRequest h r ctx), (r, ctx)))"

section \<open>Answers\<close>

text \<open>The request after the answer of the first handler.\<close>

definition ok_reply :: "request_impl \<Rightarrow> request_impl" where
  "ok_reply r = (let q = put_out_header ''Status'' ''200 OK'' (r\<lparr>rq_status := 200\<rparr>) in
     (rq_emit (header_block q @ (if getRequestMethod r = ''HEAD'' then [] else ''test ok'' @ [CHR 0x0A])) q)\<lparr>rq_headers_sent := True\<rparr>)"

lemma ok_reply_keeps:
  "rq_body (ok_reply r) = rq_body r" "rq_files (ok_reply r) = rq_files r" "rq_processed (ok_reply r) = rq_processed r"
  "rq_headers_sent (ok_reply r)"
  by (simp_all add: ok_reply_def Let_def put_out_header_def rq_emit_def)

lemma example_handler_ok:
  assumes "rq_open r" "cookies_printable r" "\<not> rq_headers_sent r"
  shows "example_handleRequest lib (r, ctx) = (Inr (), (ok_reply r, ctx))"
proof -
  let ?r = "r\<lparr>rq_status := 200\<rparr>"
  have s: "status_line 200 = ''200 OK''" by code_simp
  let ?q = "put_out_header ''Status'' ''200 OK'' ?r" and ?t = "''test ok'' @ [CHR 0x0A]"
  let ?h = "(rq_emit (header_block ?q) ?q)\<lparr>rq_headers_sent := True\<rparr>"
  have "sendHeadersInternal ?r = (Inr (), ?h)"
    using sendHeaders_open[of ?r] assms by (simp add: cookies_printable_def s)
  moreover have o: "rq_open ?h" using assms(1) by simp
  moreover obtain io where "rq_stream ?h = Some io" using o by (auto simp: rq_open_def)
  moreover have "getRequestMethod ?h = getRequestMethod r" by (simp add: getRequestMethod_def put_out_header_def)
  ultimately have "rq_write_buf ?t ?r = (Inr (), if getRequestMethod r = ''HEAD'' then ?h else rq_emit ?t ?h)"
    by (simp add: rq_write_buf_def sendHeaders_def bindS_def getS_def returnS_def)
  moreover have "setStatus lib 200 r = (Inr (), ?r)" using assms(3) by (simp add: setStatus_def bindS_def getS_def modifyS_def)
  ultimately show ?thesis
    by (simp add: example_handleRequest_def in_scope_def ok_reply_def Let_def rq_emit_sent)
qed

lemma example2_reads:
  assumes "db_ok h (rq_body r)" "db_data (rq_body r) \<noteq> None" "list_all (\<lambda>f. db_ok h (file_data (snd f))) (rq_files r)"
  shows "fst (example2_handleRequest h r ctx) = Inr ()"
proof -
  have "\<exists>f. remoteFile h r ''file'' = Inr f \<and> db_ok h f"
  proof (cases "sm_find (rq_files r) ''file''")
    case None
    then show ?thesis using assms(1,2) by (auto simp: remoteFile_def db_sub_def db_impl_def db_ok_def split: option.splits)
  next
    case (Some f)
    then show ?thesis using assms(3) by (auto simp: remoteFile_def sm_find_def list_all_iff dest!: map_of_SomeD)
  qed
  then show ?thesis by (auto simp: example2_handleRequest_def Let_def)
qed

section \<open>Loading\<close>

lemma sendOnLoad_found:
  assumes "cs_wf cs" "find_or_load (sendOnLoad n what onLoad) nam cs = (Inr (Some c), cs')"
  shows "nam \<in> set (cs_loadingStack cs')"
proof (cases "isComponentLoaded cs nam")
  case True
  then show ?thesis using assms(2) by (auto simp: find_or_load_def isComponentLoaded_def split: option.splits)
next
  case False
  then have "sendOnLoad n what onLoad nam cs = (Inr (), cs')"
    using assms(2) by (auto simp: find_or_load_def bindS_def returnS_def simp del: sendOnLoad.simps split: option.splits prod.splits sum.splits)
  then show ?thesis using sendOnLoad_extends[OF assms(1), of n what onLoad nam] by simp
qed

section \<open>Properties\<close>

text \<open>
  An exception of the library that a handler throws before the headers are sent is answered with the page for its
  status, in the place of everything set before; the reason of a \<^verbatim>\<open>BadMethod\<close>, of which 255 characters are kept, is
  not shown to the client.
\<close>

theorem http_exception_page:
  assumes "run_handlers hs (r, []) = (Inr (), (r1, ctx))" "\<not> rq_processed r1" "rq_open r1" "\<not> rq_headers_sent r1"
  shows "handleTask lib what (hs @ throw_http e # ks) r = (Inr (), error_reply lib (exc_status e) [] r1, []) \<and>
    handleTask lib what (hs @ throw_http (BadMethod_new reason) # ks) r =
    handleTask lib what (hs @ throw_http (BadMethod []) # ks) r"
proof -
  have "handleTask lib what (hs @ throw_http e # ks) r = (Inr (), error_reply lib (exc_status e) [] r1, [])" for e
  proof -
    have "run_handlers (hs @ throw_http e # ks) (r, []) = (Inl (HttpException (exc_status e)), (r1, ctx))"
      using run_handlers_append[of "(r1, ctx)" hs "(r, [])" "throw_http e # ks"] assms(1,2)
      by (simp add: throw_http_def throwS_def bindS_def)
    moreover have "is_exception (HttpException (exc_status e))" by (simp add: is_exception_def)
    ultimately show ?thesis
      using on_exception_reply[of "HttpException (exc_status e)" r1 lib what] assms(3,4)
      by (simp add: handleTask_def catchS_def handle_all_def bindS_def reply_text_def)
  qed
  then show ?thesis by (simp add: BadMethod_new_def)
qed

text \<open>
  The two handlers of the example, run in a pool on a request with a stream: the client gets the headers with the
  status 200 and the text \<^verbatim>\<open>test ok\<close>, which a \<^verbatim>\<open>HEAD\<close> request is not sent; an upload to the second one is read, whatever
  the form had.
\<close>

theorem example_answers:
  assumes "rq_open r" "cookies_printable r" "\<not> rq_headers_sent r" "\<not> rq_processed r" "db_ok h (rq_body r)" "db_data (rq_body r) \<noteq> None"
    and "list_all (\<lambda>f. db_ok h (file_data (snd f))) (rq_files r)"
  shows "handleTask lib what [example_handleRequest lib, example2_handler h :: 'v handler] r =
    (Inr (), (let q = put_out_header ''Status'' ''200 OK'' (r\<lparr>rq_status := 200\<rparr>) in
       (rq_emit (header_block q @ (if getRequestMethod r = ''HEAD'' then [] else ''test ok'' @ [CHR 0x0A])) q)\<lparr>rq_headers_sent := True\<rparr>), [])"
proof -
  have h: "fst (example2_handleRequest h s ctx) = Inr ()" if "rq_body s = rq_body r" "rq_files s = rq_files r" for s and ctx :: "'v handler_context"
    using example2_reads[of h s ctx] assms(5-7) that by simp
  have "run_handlers [example_handleRequest lib, example2_handler h :: 'v handler] (r, []) = (Inr (), (ok_reply r, []))"
    using example_handler_ok[OF assms(1-3), of lib "[] :: 'v handler_context"] assms(4) h[of "ok_reply r"]
    by (simp add: bindS_def returnS_def example2_handler_def ok_reply_keeps)
  then show ?thesis
    using sendHeaders_sent[of "ok_reply r"]
    by (simp add: handleTask_def catchS_def handle_all_def bindS_def sendHeaders_def ok_reply_def ok_reply_keeps Let_def)
qed

text \<open>
  The first handler of the example is loaded after its logger: when its loading succeeds, the component that the
  configuration names is a logger and has been loaded before.
\<close>

theorem example_loads_logger:
  assumes "cs_wf cs" "sm_find (cs_components cs) nam = Some cont" "\<not> isComponentLoaded cs nam"
    and "onLoad (ct_component cont) = example_load as_logger (ExampleHandler ctx)"
    and "sendOnLoad (Suc n) what onLoad nam cs = (Inr (), cs')"
  shows "\<exists>l c. cfg_asString (cc_config ctx) (cc_xpath ctx @ ''/logger'') = Inr l \<and> as_logger c \<noteq> None \<and>
    (\<exists>stack. cs_loadingStack cs' = stack @ [nam] \<and> l \<in> set stack)"
proof -
  let ?find = "find_or_load (sendOnLoad n what onLoad)" and ?cs = "mark_loading nam cs"
  have run: "run_load ?find (example_logger_load as_logger ctx) ?cs = (Inr (), cs'\<lparr>cs_loadingStack := butlast (cs_loadingStack cs')\<rparr>)"
    "cs_loadingStack cs' = butlast (cs_loadingStack cs') @ [nam]"
    using assms(2-5) by (auto split: if_splits prod.splits sum.splits)
  obtain l c s1 where l: "cfg_asString (cc_config ctx) (cc_xpath ctx @ ''/logger'') = Inr l" "?find l ?cs = (Inr c, s1)"
    "Option.bind c as_logger \<noteq> None" "s1 = cs'\<lparr>cs_loadingStack := butlast (cs_loadingStack cs')\<rparr>"
    using run(1) by (auto simp: example_logger_load_def getConfig_def getComponentXPath_def findComponent_def throwS_def returnS_def
        elim!: bindS_InrE split: sum.splits option.splits)
  obtain c' where c: "c = Some c'" "as_logger c' \<noteq> None" using l(3) by (cases c) auto
  have "cs_wf ?cs" using mark_extends[OF assms(1)] by (rule extends_wf)
  then have "l \<in> set (cs_loadingStack s1)" using l(2) c(1) by (auto intro: sendOnLoad_found)
  then show ?thesis using l(1,4) c(2) run(2) by auto
qed

definition example_ctx :: component_context where
  "example_ctx = \<lparr>cc_config = \<lparr>cfg_asInt = (\<lambda>k. Inr 1), cfg_asInt_or = (\<lambda>k d. Inr d), cfg_asString = (\<lambda>k. Inr ''log''),
     cfg_asString_or = (\<lambda>k d. Inr d), cfg_subKeys = (\<lambda>k. Inr [])\<rparr>, cc_xpath = ''c''\<rparr>"

definition example_parts :: "nat component_set" where
  "example_parts = \<lparr>cs_components = [(''ex'', \<lparr>ct_component = 1, ct_isLoadingStarted = False\<rparr>),
     (''log'', \<lparr>ct_component = 2, ct_isLoadingStarted = False\<rparr>)], cs_loadingStack = []\<rparr>"

definition example_onLoads :: "nat \<Rightarrow> nat load_prog" where
  "example_onLoads c = (if c = 1 then example_load (\<lambda>c. if c = 2 then Some c else None) (ExampleHandler example_ctx) else Loaded)"

theorem example_loads_logger_witness:
  "\<exists>cs'. sendOnLoad 2 (\<lambda>e. []) example_onLoads ''ex'' example_parts = (Inr (), cs') \<and> (\<exists>stack. cs_loadingStack cs' = stack @ [''ex''] \<and> ''log'' \<in> set stack)"
proof -
  let ?s = "\<lparr>cs_components = [(''ex'', \<lparr>ct_component = 1, ct_isLoadingStarted = True\<rparr>),
     (''log'', \<lparr>ct_component = 2, ct_isLoadingStarted = True\<rparr>)], cs_loadingStack = [''log'', ''ex'']\<rparr>"
  have "sendOnLoad (Suc 1) (\<lambda>e. []) example_onLoads ''ex'' example_parts = (Inr (), ?s)"
    by (simp add: example_parts_def isComponentLoaded_def sm_find_def example_onLoads_def example_logger_load_def example_ctx_def
        getConfig_def getComponentXPath_def findComponent_def find_or_load_def mark_loading_def monad_simps)
  moreover have "cs_wf example_parts" by (simp add: cs_wf_def example_parts_def sm_sorted_def)
  ultimately show ?thesis
    using example_loads_logger[of example_parts "''ex''" "\<lparr>ct_component = 1, ct_isLoadingStarted = False\<rparr>" example_onLoads
        "\<lambda>c. if c = 2 then Some c else None" example_ctx 1 "\<lambda>e. []" ?s]
    by (auto simp: example_parts_def sm_find_def isComponentLoaded_def example_onLoads_def example_ctx_def numeral_2_eq_2)
qed

text \<open>The witnesses for the handlers: a request for an upload without a file.\<close>

definition example_upload :: request_impl where
  "example_upload = example_request\<lparr>rq_body := \<lparr>db_data = Some 0, db_begin = 0, db_end = 0\<rparr>\<rparr>"

theorem example_answers_witness:
  "\<exists>r'. handleTask example_boost (\<lambda>e. []) [example_handleRequest example_boost, example2_handler [StringBuffer []] :: unit handler]
     example_upload = (Inr (), r', []) \<and> rq_headers_sent r'"
proof -
  have "rq_open example_upload" "cookies_printable example_upload" "\<not> rq_headers_sent example_upload" "\<not> rq_processed example_upload"
    "db_ok [StringBuffer []] (rq_body example_upload)" "db_data (rq_body example_upload) \<noteq> None"
    "list_all (\<lambda>f. db_ok [StringBuffer []] (file_data (snd f))) (rq_files example_upload)"
    by (simp_all add: example_upload_def example_request_def rq_open_def cookies_printable_def RequestImpl_new_def rq_reset_def
        db_ok_def impl_ok_def sb_ok_def two64_def impl_size_def)
  from example_answers[OF this, where ?'v = unit] show ?thesis by (auto simp: Let_def)
qed

theorem http_exception_page_witness:
  "\<exists>r'. handleTask example_boost (\<lambda>e. []) [throw_http NotFound :: unit handler] example_request = (Inr (), r', [])"
proof -
  have "rq_open example_request" "\<not> rq_headers_sent example_request" "\<not> rq_processed example_request"
    by (simp_all add: example_request_def rq_open_def RequestImpl_new_def rq_reset_def)
  then show ?thesis
    using http_exception_page[of "[]" example_request example_request "[]" example_boost "\<lambda>e. []" NotFound "[]"]
    by (auto simp: returnS_def)
qed

text \<open>
  C32. A request that is neither \<^verbatim>\<open>POST\<close> nor \<^verbatim>\<open>PUT\<close> has no body, and asking it for an uploaded file, which any handler may do,
  dereferences a null pointer, because the empty buffer for a file that is not there is made from the body.
\<close>

theorem remoteFile_without_body:
  assumes "getRequestMethod (parse_env envp ((RequestImpl_new cache)\<lparr>rq_stream := Some io\<rparr>)) \<notin> {''POST'', ''PUT''}"
  shows "\<exists>r. attach lib (Some io) (Some envp) (RequestImpl_new cache, h) = (Inr (), (r, h)) \<and> remoteFile h r nam = Inl UndefinedBehaviour"
proof -
  let ?r = "parse_env envp ((RequestImpl_new cache)\<lparr>rq_stream := Some io\<rparr>)"
  have m: "''POST'' \<noteq> getRequestMethod ?r" "''PUT'' \<noteq> getRequestMethod ?r" using assms by auto
  have b: "rq_body ?r = db_nil" "rq_files ?r = []" using parse_env_body by (simp_all add: RequestImpl_new_def rq_reset_def)
  show ?thesis
    using m b by (simp add: attach_def on_request_def bindS_def modifyS_def getS_def add_query_def remoteFile_def sm_find_def
        db_sub_def db_impl_def db_nil_def)
qed

theorem remoteFile_without_body_witness:
  "\<exists>r. attach example_boost (Some form_stream) (Some [''REQUEST_METHOD=GET'']) (RequestImpl_new None, []) = (Inr (), (r, [])) \<and>
    remoteFile [] r ''file'' = Inl UndefinedBehaviour"
proof -
  have "getRequestMethod (parse_env [''REQUEST_METHOD=GET''] ((RequestImpl_new None)\<lparr>rq_stream := Some form_stream\<rparr>)) = ''GET''"
    by code_simp
  then show ?thesis
    using remoteFile_without_body[of "[''REQUEST_METHOD=GET'']" form_stream None example_boost "[]" "''file''"] by simp
qed

end
