(* ===== verification/Component_Lifecycle.thy ===== *)
theory Component_Lifecycle
  imports Example_Component File_Cache
begin

text \<open>
  The life of components from their loading to the destructor of the set (\<^verbatim>\<open>library/componentset.cpp\<close>), with the modules of the
  repository: their tables of factories and \<^verbatim>\<open>onLoad\<close> of the request cache. A component that another one has
  found while it was loaded is still loaded when that one is unloaded (\<open>dependencies_outlive\<close>).
\<close>

section \<open>Modules\<close>

text \<open>The tables that the modules register; the argument is the constructor of the component.\<close>

definition request_cache_factories :: "'f \<Rightarrow> 'f factory_map" where
  "request_cache_factories new = add_factory ''request-cache'' new []"

definition statistics_factories :: "'f \<Rightarrow> 'f factory_map" where
  "statistics_factories new = add_factory ''statistics'' new []"

definition file_logger_factories :: "'f \<Rightarrow> 'f factory_map" where
  "file_logger_factories new = add_factory ''logger'' new []"

definition syslog_factories :: "'f \<Rightarrow> 'f factory_map" where
  "syslog_factories new = add_factory ''logger'' new []"

definition log4cxx_factories :: "'f \<Rightarrow> 'f factory_map" where
  "log4cxx_factories new = add_factory ''logger'' new []"

text \<open>\<^verbatim>\<open>onLoad\<close> of the cache asks for its logger and then starts the thread whose rounds are \<open>handle_round\<close>; \<^verbatim>\<open>onUnload\<close> stops it.\<close>

definition cache_onLoad :: "('c \<Rightarrow> 'l option) \<Rightarrow> component_context \<Rightarrow> 'c load_prog" where
  "cache_onLoad as_logger ctx =
     (case cfg_asString (getConfig ctx) (getComponentXPath ctx @ ''/logger'') of
        Inl e \<Rightarrow> Throws e
      | Inr loggerComponentName \<Rightarrow> findComponent as_logger loggerComponentName (\<lambda>logger.
          if logger = None then Throws (RuntimeError (''cannot get component '' @ loggerComponentName)) else Loaded))"

section \<open>The destructor of the set\<close>

text \<open>What the destructor calls, in its order; a context is told by the name of its component.\<close>

datatype 'c teardown = Unload "'c option" | DeleteComponent 'c | DeleteContext string

definition ComponentSet_destroy :: "'c component_set \<Rightarrow> 'c teardown list" where
  "ComponentSet_destroy cs = map Unload (sendOnUnloadToComponents cs) @
     concat (map (\<lambda>(nam, cont). [DeleteComponent (ct_component cont), DeleteContext nam]) (rev (cs_components cs)))"

section \<open>What a component has found\<close>

definition component_of :: "'c component_set \<Rightarrow> string \<Rightarrow> 'c option" where
  "component_of cs nam = map_option ct_component (sm_find (cs_components cs) nam)"

text \<open>
  The names of the components that a run of \<^verbatim>\<open>onLoad\<close> that comes to its end has been handed, in a set with the components
  \<open>parts\<close>: a search hands out the component of the name, or throws.
\<close>

primrec found_in :: "(string \<Rightarrow> 'c option) \<Rightarrow> 'c load_prog \<Rightarrow> string list" where
  "found_in parts Loaded = []"
| "found_in parts (Throws e) = []"
| "found_in parts (Finds nam k) = (if parts nam = None then [] else [nam]) @ found_in parts (k (parts nam))"

text \<open>The search of the set while a component is loaded; \<open>n\<close> bounds the depth of nested loads.\<close>

abbreviation finder :: "nat \<Rightarrow> (error \<Rightarrow> string) \<Rightarrow> ('c \<Rightarrow> 'c load_prog) \<Rightarrow> string \<Rightarrow> ('c component_set, 'c option) st" where
  "finder n what onLoad \<equiv> find_or_load (sendOnLoad n what onLoad)"

lemma finder_component: "finder n what onLoad nam s = (Inr c, s') \<Longrightarrow> c = component_of s nam"
  by (auto simp: find_or_load_def component_of_def bindS_def returnS_def simp del: sendOnLoad.simps
      split: option.splits prod.splits sum.splits if_splits)

text \<open>Every component on the stack has found only what is below it.\<close>

definition explained :: "('c \<Rightarrow> 'c load_prog) \<Rightarrow> (string \<Rightarrow> 'c option) \<Rightarrow> string list \<Rightarrow> bool" where
  "explained onLoad parts stack \<longleftrightarrow> (\<forall>xs nam ys. stack = xs @ nam # ys \<longrightarrow>
     (\<exists>c. parts nam = Some c \<and> set (found_in parts (onLoad c)) \<subseteq> set xs))"

lemma explained_snoc:
  assumes "explained onLoad parts stack" "parts nam = Some c" "set (found_in parts (onLoad c)) \<subseteq> set stack"
  shows "explained onLoad parts (stack @ [nam])"
  unfolding explained_def
proof (intro allI impI)
  fix xs n ys assume s: "stack @ [nam] = xs @ n # ys"
  show "\<exists>c. parts n = Some c \<and> set (found_in parts (onLoad c)) \<subseteq> set xs"
  proof (cases ys rule: rev_cases)
    case Nil
    then show ?thesis using s assms(2,3) by auto
  next
    case (snoc zs z)
    then have "stack = xs @ n # zs" using s by simp
    then show ?thesis using assms(1) by (auto simp: explained_def)
  qed
qed

text \<open>What is kept: the components and the explanation of the stack.\<close>

definition keeps :: "('c \<Rightarrow> 'c load_prog) \<Rightarrow> 'c component_set \<Rightarrow> 'c component_set \<Rightarrow> bool" where
  "keeps onLoad cs cs' \<longleftrightarrow> component_of cs' = component_of cs \<and> extends cs cs' \<and>
     (explained onLoad (component_of cs) (cs_loadingStack cs) \<longrightarrow>
      explained onLoad (component_of cs) (cs_loadingStack cs'))"

lemma keeps_refl: "cs_wf cs \<Longrightarrow> keeps onLoad cs cs"
  by (simp add: keeps_def extends_refl)

lemma keeps_trans: "keeps onLoad a b \<Longrightarrow> keeps onLoad b c \<Longrightarrow> keeps onLoad a c"
  by (auto simp: keeps_def intro: extends_trans)

lemma keeps_wf: "keeps onLoad a b \<Longrightarrow> cs_wf b"
  by (auto simp: keeps_def intro: extends_wf)

lemma keeps_stack: "keeps onLoad a b \<Longrightarrow> set (cs_loadingStack a) \<subseteq> set (cs_loadingStack b)"
  by (auto simp: keeps_def extends_def)

lemma keeps_mark: "cs_wf cs \<Longrightarrow> keeps onLoad cs (mark_loading nam cs)"
proof -
  have "component_of (mark_loading nam cs) = component_of cs"
    by (rule ext) (simp add: component_of_def mark_find option.map_comp comp_def if_distrib cong: if_cong)
  then show "cs_wf cs \<Longrightarrow> keeps onLoad cs (mark_loading nam cs)" by (simp add: keeps_def mark_extends)
qed

text \<open>A search keeps what loading keeps, and what it hands out is loaded.\<close>

lemma run_load_keeps:
  assumes f: "\<And>nam s. cs_wf s \<Longrightarrow> keeps onLoad s (snd (f nam s))"
    and result: "\<And>nam s c s'. f nam s = (Inr c, s') \<Longrightarrow> c = component_of s nam"
    and found: "\<And>nam s c s'. cs_wf s \<Longrightarrow> f nam s = (Inr (Some c), s') \<Longrightarrow> nam \<in> set (cs_loadingStack s')"
  shows "cs_wf s \<Longrightarrow> keeps onLoad s (snd (run_load f p s)) \<and>
    (fst (run_load f p s) = Inr () \<longrightarrow> set (found_in (component_of s) p) \<subseteq> set (cs_loadingStack (snd (run_load f p s))))"
proof (induction p arbitrary: s)
  case (Finds nam k)
  obtain res s1 where r: "f nam s = (res, s1)" by fastforce
  have s1: "keeps onLoad s s1" using f[OF Finds.prems, of nam] r by simp
  show ?case
  proof (cases res)
    case (Inl e)
    then show ?thesis using r s1 by (simp add: bindS_def)
  next
    case (Inr c)
    have c: "c = component_of s nam" "component_of s1 = component_of s" using result[of nam s c s1] r Inr s1 by (simp_all add: keeps_def)
    note n = Finds.IH[OF rangeI keeps_wf[OF s1], of c]
    have "nam \<in> set (cs_loadingStack s1)" if "c \<noteq> None" using found[OF Finds.prems] r Inr that by fastforce
    then show ?thesis
      using r Inr n keeps_trans[OF s1, of "snd (run_load f (k c) s1)"] keeps_stack[of onLoad s1 "snd (run_load f (k c) s1)"] c
      by (auto simp: bindS_def)
  qed
qed (simp_all add: returnS_def throwS_def keeps_refl)

lemma finder_keeps:
  assumes "\<And>nam s. cs_wf s \<Longrightarrow> keeps onLoad s (snd (sendOnLoad n what onLoad nam s))" "cs_wf s"
  shows "keeps onLoad s (snd (finder n what onLoad nam s))"
  using assms(1)[OF assms(2), of nam] keeps_refl[OF assms(2), of onLoad]
  by (auto simp: find_or_load_def bindS_def returnS_def simp del: sendOnLoad.simps split: option.splits prod.splits sum.splits)

lemma sendOnLoad_keeps: "cs_wf cs \<Longrightarrow> keeps onLoad cs (snd (sendOnLoad n what onLoad nam cs))"
proof (induction n arbitrary: nam cs)
  case 0
  then show ?case by (simp add: throwS_def keeps_refl)
next
  case (Suc n)
  let ?m = "mark_loading nam cs"
  have m: "keeps onLoad cs ?m" using keeps_mark[OF Suc.prems] .
  show ?case
  proof (cases "sm_find (cs_components cs) nam")
    case (Some cont)
    let ?c = "ct_component cont"
    obtain res s where r: "run_load (finder n what onLoad) (onLoad ?c) ?m = (res, s)" by fastforce
    have k: "keeps onLoad ?m s" "res = Inr () \<Longrightarrow> set (found_in (component_of ?m) (onLoad ?c)) \<subseteq> set (cs_loadingStack s)"
      using run_load_keeps[where f = "finder n what onLoad" and p = "onLoad ?c", OF finder_keeps[OF Suc.IH] finder_component sendOnLoad_found keeps_wf[OF m]] r
      by (simp_all del: sendOnLoad.simps)
    note s = keeps_trans[OF m k(1)]
    show ?thesis
    proof (cases "isComponentLoaded cs nam \<or> ct_isLoadingStarted cont \<or> res \<noteq> Inr ()")
      case True
      then show ?thesis using Some r s keeps_refl[OF Suc.prems, of onLoad] by (cases res) auto
    next
      case False
      then have l: "sendOnLoad (Suc n) what onLoad nam cs = (Inr (), s\<lparr>cs_loadingStack := cs_loadingStack s @ [nam]\<rparr>)"
        using Some r by simp
      have f: "set (found_in (component_of cs) (onLoad ?c)) \<subseteq> set (cs_loadingStack s)"
        using k(2) m False by (simp add: keeps_def)
      have "extends cs (s\<lparr>cs_loadingStack := cs_loadingStack s @ [nam]\<rparr>)"
        using sendOnLoad_extends[OF Suc.prems, of "Suc n" what onLoad nam] unfolding l by simp
      moreover have "component_of (s\<lparr>cs_loadingStack := cs_loadingStack s @ [nam]\<rparr>) = component_of cs"
        using s by (simp add: keeps_def component_of_def fun_eq_iff)
      ultimately show ?thesis
        using s explained_snoc[where onLoad = onLoad and parts = "component_of cs" and stack = "cs_loadingStack s" and c = "?c" and nam = nam] f Some unfolding l by (auto simp: keeps_def component_of_def)
    qed
  next
    case None
    then show ?thesis using keeps_refl[OF Suc.prems, of onLoad] by simp
  qed
qed

lemma load_all_keeps:
  "cs_wf cs \<Longrightarrow> foreachS (\<lambda>i. sendOnLoad n what onLoad (fst i)) is cs = (Inr (), cs') \<Longrightarrow>
     keeps onLoad cs cs' \<and> fst ` set is \<subseteq> set (cs_loadingStack cs')"
proof (induction "is" arbitrary: cs)
  case Nil
  then show ?case by (auto simp: returnS_def keeps_refl)
next
  case (Cons i "is")
  obtain s where s: "sendOnLoad n what onLoad (fst i) cs = (Inr (), s)"
    "foreachS (\<lambda>i. sendOnLoad n what onLoad (fst i)) is s = (Inr (), cs')"
    using Cons.prems(2) by (auto elim!: bindS_InrE simp del: sendOnLoad.simps)
  have k: "keeps onLoad cs s" using sendOnLoad_keeps[OF Cons.prems(1), of onLoad n what "fst i"] unfolding s(1) by simp
  have "fst i \<in> set (cs_loadingStack s)"
    using sendOnLoad_extends[OF Cons.prems(1), of n what onLoad "fst i"] unfolding s(1) by simp
  moreover have "keeps onLoad s cs' \<and> fst ` set is \<subseteq> set (cs_loadingStack cs')" using Cons.IH[OF keeps_wf[OF k] s(2)] .
  ultimately show ?case using keeps_trans[OF k] keeps_stack[of onLoad s cs'] by auto
qed

section \<open>Properties\<close>

text \<open>The order of unloading, from that of loading: what is lower on the stack is unloaded later, and all of it before the first component is deleted.\<close>

lemma destroy_order:
  assumes "cs_loadingStack cs = xs @ nam # ys" "l \<in> set xs" "component_of cs nam = Some c" "component_of cs l = Some d"
  shows "\<exists>as bs ds. ComponentSet_destroy cs = as @ Unload (Some c) # bs @ Unload (Some d) # ds \<and>
    (\<forall>e. DeleteComponent e \<notin> set (as @ bs))"
proof -
  obtain x1 x2 where x: "xs = x1 @ l # x2" using assms(2) split_list by metis
  let ?u = "\<lambda>n. Unload (component_of cs n)"
  have "ComponentSet_destroy cs = map ?u (rev ys) @ Unload (Some c) # map ?u (rev x2) @ Unload (Some d) # map ?u (rev x1) @
      concat (map (\<lambda>(n, cont). [DeleteComponent (ct_component cont), DeleteContext n]) (rev (cs_components cs)))"
    using assms(3,4) by (simp add: ComponentSet_destroy_def sendOnUnloadToComponents_def assms(1) x component_of_def)
  then show ?thesis by (intro exI[of _ "map ?u (rev ys)"] exI[of _ "map ?u (rev x2)"] exI conjI) auto
qed

text \<open>
  C11. When the components of a daemon have been loaded and the set is destroyed, a component is unloaded before those that it has
  found while it was loaded, so that these are still loaded, and no component is deleted before; every component is
  unloaded.
\<close>

theorem dependencies_outlive:
  assumes "cs_wf cs" "cs_loadingStack cs = []" "sendOnLoadToComponents what onLoad cs = (Inr (), cs')"
    and "component_of cs nam = Some c"
  shows "Unload (Some c) \<in> set (ComponentSet_destroy cs') \<and>
    (\<forall>l\<in>set (found_in (component_of cs) (onLoad c)). \<exists>d as bs ds. component_of cs l = Some d \<and>
      ComponentSet_destroy cs' = as @ Unload (Some c) # bs @ Unload (Some d) # ds \<and> (\<forall>e. DeleteComponent e \<notin> set (as @ bs)))"
proof -
  have k: "keeps onLoad cs cs'" "fst ` set (cs_components cs) \<subseteq> set (cs_loadingStack cs')"
    using load_all_keeps[OF assms(1) assms(3)[unfolded sendOnLoadToComponents_def]] by simp_all
  have p: "component_of cs' = component_of cs" using k(1) by (simp add: keeps_def)
  have e: "explained onLoad (component_of cs') (cs_loadingStack cs')" using k(1) assms(2) by (simp add: keeps_def explained_def)
  have "nam \<in> names cs" using assms(4) find_names[of cs nam] by (auto simp: component_of_def)
  then have "nam \<in> set (cs_loadingStack cs')" using k(2) by (auto simp: names_def)
  then obtain xs ys where s: "cs_loadingStack cs' = xs @ nam # ys" using split_list by metis
  have c: "component_of cs' nam = Some c" using assms(4) p by simp
  then have x: "set (found_in (component_of cs) (onLoad c)) \<subseteq> set xs"
    using e[unfolded explained_def, rule_format, OF s] p by auto
  have d: "\<exists>d. component_of cs' l = Some d" if "l \<in> set xs" for l
    using that keeps_wf[OF k(1)] s by (auto simp: cs_wf_def marked_def component_of_def)
  have "\<exists>d as bs ds. component_of cs l = Some d \<and> ComponentSet_destroy cs' = as @ Unload (Some c) # bs @ Unload (Some d) # ds \<and>
      (\<forall>e. DeleteComponent e \<notin> set (as @ bs))" if "l \<in> set (found_in (component_of cs) (onLoad c))" for l
  proof -
    have "l \<in> set xs" using that x by blast
    moreover from d[OF this] obtain d where "component_of cs' l = Some d" by blast
    ultimately show ?thesis using destroy_order[OF s _ c, of l d] p by auto
  qed
  moreover have "Unload (Some c) \<in> set (ComponentSet_destroy cs')"
    using c s by (auto simp: ComponentSet_destroy_def sendOnUnloadToComponents_def component_of_def)
  ultimately show ?thesis by blast
qed

theorem dependencies_outlive_witness:
  "\<exists>cs' as bs ds. sendOnLoadToComponents (\<lambda>e. []) example_onLoad example_set = (Inr (), cs') \<and>
    ComponentSet_destroy cs' = as @ Unload (Some 1) # bs @ Unload (Some 2) # ds"
proof -
  have "fst (sendOnLoadToComponents (\<lambda>e. []) example_onLoad example_set) = Inr ()" by code_simp
  then obtain cs' where r: "sendOnLoadToComponents (\<lambda>e. []) example_onLoad example_set = (Inr (), cs')"
    by (cases "sendOnLoadToComponents (\<lambda>e. []) example_onLoad example_set") simp
  have "component_of example_set ''a'' = Some 1" "found_in (component_of example_set) (example_onLoad 1) = [''b'']"
    "component_of example_set ''b'' = Some 2" "cs_loadingStack example_set = []"
    by (simp_all add: component_of_def sm_find_def example_set_def example_onLoad_def)
  then show ?thesis using dependencies_outlive[OF example_set_wf _ r, of "''a''" 1] r by auto
qed

end
