(* ===== verification/Log4cxx_Logger.thy ===== *)
theory Log4cxx_Logger
  imports Loggers
begin

text \<open>
  The calls that a program makes to a logger (\<^verbatim>\<open>Logger::info\<close> and the like of \<^verbatim>\<open>library/logger.cpp\<close>) and the logger for log4cxx
  (\<^verbatim>\<open>logging/logger.cpp\<close>). The library log4cxx is a parameter: the record holds what it has been told. Its logger is
  set to the level of the daemon's logger by the constructor and by the page, and the page is the one of the logger for
  syslog (\<open>same_page\<close>); with the order of the levels of log4cxx both loggers log the same calls (\<open>same_filter\<close>).
\<close>

section \<open>Calls\<close>

text \<open>\<open>log\<close> is the virtual function of a logger; \<open>'a\<close> are the arguments after the format.\<close>

definition Logger_info :: "(log_level \<Rightarrow> string \<Rightarrow> 'a \<Rightarrow> 'b) \<Rightarrow> string \<Rightarrow> 'a \<Rightarrow> 'b" where
  "Logger_info log format args = log INFO format args"

definition Logger_debug :: "(log_level \<Rightarrow> string \<Rightarrow> 'a \<Rightarrow> 'b) \<Rightarrow> string \<Rightarrow> 'a \<Rightarrow> 'b" where
  "Logger_debug log format args = log DEBUG format args"

definition Logger_error :: "(log_level \<Rightarrow> string \<Rightarrow> 'a \<Rightarrow> 'b) \<Rightarrow> string \<Rightarrow> 'a \<Rightarrow> 'b" where
  "Logger_error log format args = log ERROR format args"

definition Logger_emerg :: "(log_level \<Rightarrow> string \<Rightarrow> 'a \<Rightarrow> 'b) \<Rightarrow> string \<Rightarrow> 'a \<Rightarrow> 'b" where
  "Logger_emerg log format args = log EMERGENCY format args"

definition Logger_entering :: "(log_level \<Rightarrow> string \<Rightarrow> string list \<Rightarrow> 'b) \<Rightarrow> string \<Rightarrow> 'b" where
  "Logger_entering log f = Logger_debug log (''entering %s'' @ LF) [f]"

definition Logger_exiting :: "(log_level \<Rightarrow> string \<Rightarrow> string list \<Rightarrow> 'b) \<Rightarrow> string \<Rightarrow> 'b" where
  "Logger_exiting log f = Logger_debug log (''exiting %s'' @ LF) [f]"

section \<open>The logger for log4cxx\<close>

text \<open>The levels of log4cxx.\<close>

datatype log4_level = L4_DEBUG | L4_INFO | L4_ERROR | L4_FATAL

primrec toLog4cxxLevel :: "log_level \<Rightarrow> log4_level" where
  "toLog4cxxLevel INFO = L4_INFO"
| "toLog4cxxLevel DEBUG = L4_DEBUG"
| "toLog4cxxLevel ERROR = L4_ERROR"
| "toLog4cxxLevel EMERGENCY = L4_FATAL"

text \<open>The level of the base class, and what log4cxx has been given: the layout, the name of the logger, the file, the level and the roll-overs.\<close>

record default_logger =
  dl_level :: log_level
  dl_layout :: string
  dl_ident :: string
  dl_file :: string
  dl_log4_level :: "log4_level option"
  dl_rollovers :: nat

definition default_setLevelInternal :: "log_level \<Rightarrow> default_logger \<Rightarrow> default_logger" where
  "default_setLevelInternal level l = l\<lparr>dl_log4_level := Some (toLog4cxxLevel level)\<rparr>"

text \<open>\<^verbatim>\<open>Logger::setLevel\<close> for a logger with its own \<open>setLevelInternal\<close> and field for the level.\<close>

definition default_setLevel :: "log_level \<Rightarrow> default_logger \<Rightarrow> default_logger" where
  "default_setLevel level l = (default_setLevelInternal level l)\<lparr>dl_level := level\<rparr>"

definition default_rollOver :: "default_logger \<Rightarrow> default_logger" where
  "default_rollOver l = l\<lparr>dl_rollovers := Suc (dl_rollovers l)\<rparr>"

text \<open>\<open>ttcc\<close> is the pattern \<^verbatim>\<open>TTCC_CONVERSION_PATTERN\<close> of log4cxx. The base class starts with the level \<^verbatim>\<open>DEBUG\<close>.\<close>

definition DefaultLogger_new :: "string \<Rightarrow> config \<Rightarrow> string \<Rightarrow> default_logger result" where
  "DefaultLogger_new ttcc cfg xpath =
     bindE (cfg_asString_or cfg (xpath @ ''/pattern'') ''DEFAULT'') (\<lambda>layoutPattern.
     bindE (cfg_asString cfg (xpath @ ''/ident'')) (\<lambda>ident.
     bindE (cfg_asString cfg (xpath @ ''/file'')) (\<lambda>logFileName.
     bindE (cfg_asString cfg (xpath @ ''/level'')) (\<lambda>nam.
     bindE (stringToLevel nam) (\<lambda>level.
       Inr (default_setLevel level
         \<lparr>dl_level = DEBUG, dl_layout = (if ''DEFAULT'' = layoutPattern then ttcc else layoutPattern), dl_ident = ident,
          dl_file = logFileName, dl_log4_level = None, dl_rollovers = 0\<rparr>))))))"

text \<open>
  What \<^verbatim>\<open>log\<close> hands to log4cxx, if it does. \<open>isEnabledFor\<close> is the question of log4cxx for the level that its logger has;
  \<open>vsnprintf\<close> is \<^verbatim>\<open>None\<close> when it reports an error. The error is -1, which as a \<^verbatim>\<open>size_t\<close> is the largest number: the
  vector then has no element, and its first one is used.
\<close>

definition default_log ::
  "(log4_level option \<Rightarrow> log4_level \<Rightarrow> bool) \<Rightarrow> (string \<Rightarrow> string option) \<Rightarrow> log_level \<Rightarrow> string \<Rightarrow> default_logger \<Rightarrow>
   (log4_level \<times> string) option result" where
  "default_log isEnabledFor vsnprintf level format l =
     (let log4cxxLevel = toLog4cxxLevel level in
      if isEnabledFor (dl_log4_level l) log4cxxLevel then
        case vsnprintf format of
          None \<Rightarrow> Inl UndefinedBehaviour
        | Some data \<Rightarrow> Inr (if length data > 0 then Some (log4cxxLevel, data) else None)
      else Inr None)"

definition default_handleRequest :: "(request_impl \<times> default_logger, unit) st" where
  "default_handleRequest = bindS (on_reply (setContentType ''text/plain'')) (\<lambda>_. bindS getS (\<lambda>(r, l).
     let action = getArg r ''action'' in
     if ''setlevel'' = action then
       bindS (liftS (stringToLevel (getArg r ''level''))) (\<lambda>level.
       bindS (on_logger (default_setLevel level)) (\<lambda>_.
         on_reply (in_scope (''level '' @ getArg r ''level'' @ ''successfully set'' @ LF) (returnS ()))))
     else if ''rollover'' = action then
       bindS (on_logger default_rollOver) (\<lambda>_. on_reply (in_scope (''rollover successful'' @ LF) (returnS ())))
     else on_reply (in_scope (''bad action'' @ LF) (returnS ()))))"

section \<open>Properties\<close>

text \<open>The logger of log4cxx has the level of the daemon's logger.\<close>

definition levels_agree :: "default_logger \<Rightarrow> bool" where
  "levels_agree l \<longleftrightarrow> dl_log4_level l = Some (toLog4cxxLevel (dl_level l))"

lemma setLevel_agrees [simp]: "levels_agree (default_setLevel level l)" "dl_level (default_setLevel level l) = level"
  by (simp_all add: levels_agree_def default_setLevel_def default_setLevelInternal_def)

lemma rollOver_agrees [simp]: "levels_agree (default_rollOver l) = levels_agree l" "dl_level (default_rollOver l) = dl_level l"
  by (simp_all add: levels_agree_def default_rollOver_def)

lemma new_agrees: "DefaultLogger_new ttcc cfg xpath = Inr l \<Longrightarrow> levels_agree l"
  by (auto simp: DefaultLogger_new_def)

text \<open>Whatever is asked of it, the page of the logger answers as the page of a logger for syslog of the same level, and leaves both with one level.\<close>

theorem same_page:
  assumes "levels_agree l" "sl_level s = dl_level l"
  shows "\<exists>res r' l' s'. default_handleRequest (r, l) = (res, (r', l')) \<and> syslog_handleRequest (r, s) = (res, (r', s')) \<and>
    levels_agree l' \<and> sl_level s' = dl_level l'"
proof -
  obtain res r1 where r1: "setContentType ''text/plain'' r = (res, r1)" by fastforce
  show ?thesis
  proof (cases res)
    case (Inl e)
    then show ?thesis using r1 assms by (auto simp: default_handleRequest_def syslog_handleRequest_def bindS_def on_reply_def)
  next
    case (Inr u)
    then show ?thesis
      using r1 assms
      by (cases "stringToLevel (getArg r1 ''level'')")
        (auto simp: default_handleRequest_def syslog_handleRequest_def bindS_def on_reply_def on_logger_def getS_def liftS_def
          throwS_def returnS_def modifyS_def Let_def syslog_setLevel_def split: prod.splits)
  qed
qed

text \<open>The question of log4cxx for a logger that has a level: the levels are in the order of their severity.\<close>

fun severity_enabled :: "log4_level option \<Rightarrow> log4_level \<Rightarrow> bool" where
  "severity_enabled None l = True"
| "severity_enabled (Some L4_DEBUG) l = True"
| "severity_enabled (Some L4_INFO) l = (l \<noteq> L4_DEBUG)"
| "severity_enabled (Some L4_ERROR) l = (l = L4_ERROR \<or> l = L4_FATAL)"
| "severity_enabled (Some L4_FATAL) l = (l = L4_FATAL)"

theorem same_filter:
  assumes "levels_agree l" "sl_level s = dl_level l" "vsnprintf format = Some (c # cs)"
  shows "\<exists>out. default_log severity_enabled vsnprintf level format l = Inr out \<and>
    (out = None) = (syslog_log level format s = None) \<and> (out \<noteq> None \<longrightarrow> out = Some (toLog4cxxLevel level, c # cs))"
proof -
  have "severity_enabled (dl_log4_level l) (toLog4cxxLevel level) \<longleftrightarrow> dl_level l \<le> level"
    using assms(1) by (cases "dl_level l"; cases level) (simp_all add: levels_agree_def less_eq_log_level_def)
  then show ?thesis using assms(2,3) by (simp add: default_log_def syslog_log_def Let_def)
qed

end
