(* ===== verification/Request_Methods.thy ===== *)
theory Request_Methods
  imports Request_Facade Request_Attach Request_Serialize
begin

text \<open>
  The classes \<^verbatim>\<open>Request\<close> and \<^verbatim>\<open>Cookie\<close> that the users of the library see (\<^verbatim>\<open>library/request.cpp\<close>, \<^verbatim>\<open>library/cookie.cpp\<close>): each
  method asks the implementation that the object owns, of which the object is here the state. What they mean for a
  handler is shown for those that read after one that writes (\<open>Request_reads\<close>, \<open>Cookie_reads\<close>).
\<close>

section \<open>Requests\<close>

definition Request_new :: "request_cache option \<Rightarrow> request_impl" where
  "Request_new cache = RequestImpl_new cache"

definition Request_getServerPort :: "boost \<Rightarrow> request_impl \<Rightarrow> nat result" where
  "Request_getServerPort lib r = getServerPort lib r"

definition Request_getHost :: "request_impl \<Rightarrow> string" where
  "Request_getHost r = getHost r"

definition Request_getServerAddr :: "request_impl \<Rightarrow> string" where
  "Request_getServerAddr r = getServerAddr r"

definition Request_getPathInfo :: "request_impl \<Rightarrow> string" where
  "Request_getPathInfo r = getPathInfo r"

definition Request_getPathTranslated :: "request_impl \<Rightarrow> string" where
  "Request_getPathTranslated r = getPathTranslated r"

definition Request_getScriptName :: "request_impl \<Rightarrow> string" where
  "Request_getScriptName r = getScriptName r"

definition Request_getScriptFilename :: "request_impl \<Rightarrow> string" where
  "Request_getScriptFilename r = getScriptFilename r"

definition Request_getDocumentRoot :: "request_impl \<Rightarrow> string" where
  "Request_getDocumentRoot r = getDocumentRoot r"

definition Request_getRemoteUser :: "request_impl \<Rightarrow> string" where
  "Request_getRemoteUser r = getRemoteUser r"

definition Request_getRemoteAddr :: "request_impl \<Rightarrow> string" where
  "Request_getRemoteAddr r = getRemoteAddr r"

definition Request_getQueryString :: "request_impl \<Rightarrow> string" where
  "Request_getQueryString r = getQueryString r"

definition Request_getRequestMethod :: "request_impl \<Rightarrow> string" where
  "Request_getRequestMethod r = getRequestMethod r"

definition Request_getContentLength :: "boost \<Rightarrow> request_impl \<Rightarrow> int result" where
  "Request_getContentLength lib r = getContentLength lib r"

definition Request_getContentType :: "request_impl \<Rightarrow> string" where
  "Request_getContentType r = getContentType r"

definition Request_countArgs :: "request_impl \<Rightarrow> nat" where
  "Request_countArgs r = countArgs r"

definition Request_hasArg :: "request_impl \<Rightarrow> string \<Rightarrow> bool" where
  "Request_hasArg r nam = hasArg r nam"

definition Request_getArg :: "request_impl \<Rightarrow> string \<Rightarrow> string" where
  "Request_getArg r nam = getArg r nam"

definition Request_getArgs :: "request_impl \<Rightarrow> string \<Rightarrow> string list" where
  "Request_getArgs r nam = getArgs r nam"

definition Request_argNames :: "request_impl \<Rightarrow> string list" where
  "Request_argNames r = argNames r"

definition Request_countHeaders :: "request_impl \<Rightarrow> nat" where
  "Request_countHeaders r = countHeaders r"

definition Request_hasHeader :: "request_impl \<Rightarrow> string \<Rightarrow> bool" where
  "Request_hasHeader r nam = hasHeader r nam"

definition Request_getHeader :: "request_impl \<Rightarrow> string \<Rightarrow> string" where
  "Request_getHeader r nam = getHeader r nam"

definition Request_headerNames :: "request_impl \<Rightarrow> string list" where
  "Request_headerNames r = headerNames r"

definition Request_countCookie :: "request_impl \<Rightarrow> nat" where
  "Request_countCookie r = countCookie r"

definition Request_hasCookie :: "request_impl \<Rightarrow> string \<Rightarrow> bool" where
  "Request_hasCookie r nam = hasCookie r nam"

definition Request_getCookie :: "request_impl \<Rightarrow> string \<Rightarrow> string" where
  "Request_getCookie r nam = getCookie r nam"

definition Request_cookieNames :: "request_impl \<Rightarrow> string list" where
  "Request_cookieNames r = cookieNames r"

definition Request_hasFile :: "request_impl \<Rightarrow> string \<Rightarrow> bool" where
  "Request_hasFile r nam = hasFile r nam"

definition Request_remoteFiles :: "request_impl \<Rightarrow> string list" where
  "Request_remoteFiles r = remoteFiles r"

definition Request_remoteFileName :: "request_impl \<Rightarrow> string \<Rightarrow> string" where
  "Request_remoteFileName r nam = remoteFileName r nam"

definition Request_remoteFileType :: "request_impl \<Rightarrow> string \<Rightarrow> string" where
  "Request_remoteFileType r nam = remoteFileType r nam"

definition Request_remoteFile :: "heap \<Rightarrow> request_impl \<Rightarrow> string \<Rightarrow> data_buffer result" where
  "Request_remoteFile h r nam = remoteFile h r nam"

definition Request_isSecure :: "request_impl \<Rightarrow> bool" where
  "Request_isSecure r = isSecure r"

definition Request_requestBody :: "request_impl \<Rightarrow> data_buffer" where
  "Request_requestBody r = requestBody r"

definition Request_setCookie :: "cookie \<Rightarrow> (request_impl, unit) st" where
  "Request_setCookie cookie = setCookie cookie"

definition Request_setStatus :: "boost \<Rightarrow> nat \<Rightarrow> (request_impl, unit) st" where
  "Request_setStatus lib status = setStatus lib status"

definition Request_sendError :: "boost \<Rightarrow> nat \<Rightarrow> (request_impl, unit) st" where
  "Request_sendError lib status = sendError lib status"

definition Request_setHeader :: "string \<Rightarrow> string \<Rightarrow> (request_impl, unit) st" where
  "Request_setHeader nam val = setHeader nam val"

definition Request_write_buf :: "string \<Rightarrow> (request_impl, unit) st" where
  "Request_write_buf buf = rq_write_buf buf"

definition Request_write :: "string \<Rightarrow> (request_impl, nat) st" where
  "Request_write buf = rq_write buf"

definition Request_outputHeader :: "request_impl \<Rightarrow> string \<Rightarrow> string" where
  "Request_outputHeader r nam = outputHeader r nam"

definition Request_reset :: "request_impl \<Rightarrow> request_impl" where
  "Request_reset r = rq_reset r"

definition Request_sendHeaders :: "(request_impl, unit) st" where
  "Request_sendHeaders = sendHeaders"

definition Request_attach :: "boost \<Rightarrow> io_stream option \<Rightarrow> string list option \<Rightarrow> (request_impl \<times> heap, unit) st" where
  "Request_attach lib stream envp = attach lib stream envp"

definition Request_isProcessed :: "request_impl \<Rightarrow> bool" where
  "Request_isProcessed r = isProcessed r"

definition Request_markAsProcessed :: "request_impl \<Rightarrow> request_impl" where
  "Request_markAsProcessed r = markAsProcessed r"

definition Request_tryAgain :: "int \<Rightarrow> request_impl \<Rightarrow> request_impl" where
  "Request_tryAgain delay = tryAgain delay"

definition Request_parse :: "heap \<Rightarrow> data_buffer \<Rightarrow> (request_impl, unit) st" where
  "Request_parse h buffer = rq_parse h buffer"

definition Request_serialize :: "request_impl \<Rightarrow> heap \<Rightarrow> data_buffer \<Rightarrow> (heap \<times> data_buffer) result" where
  "Request_serialize r h buffer = rq_serialize r h buffer"

definition Request_status :: "request_impl \<Rightarrow> nat" where
  "Request_status r = rq_status_get r"

section \<open>Cookies\<close>

definition data_name :: "cookie \<Rightarrow> string" where
  "data_name c = ck_name c"

definition data_value :: "cookie \<Rightarrow> string" where
  "data_value c = ck_value c"

definition data_secure :: "cookie \<Rightarrow> bool" where
  "data_secure c = ck_secure c"

definition data_httpOnly :: "cookie \<Rightarrow> bool" where
  "data_httpOnly c = ck_httpOnly c"

definition data_expires :: "cookie \<Rightarrow> int" where
  "data_expires c = ck_expires c"

definition data_path :: "cookie \<Rightarrow> string" where
  "data_path c = ck_path c"

definition data_domain :: "cookie \<Rightarrow> string" where
  "data_domain c = ck_domain c"

definition Cookie_name :: "cookie \<Rightarrow> string" where
  "Cookie_name c = data_name c"

definition Cookie_value :: "cookie \<Rightarrow> string" where
  "Cookie_value c = data_value c"

definition Cookie_secure :: "cookie \<Rightarrow> bool" where
  "Cookie_secure c = data_secure c"

definition Cookie_set_secure :: "bool \<Rightarrow> cookie \<Rightarrow> cookie" where
  "Cookie_set_secure val c = cookie_set_secure val c"

definition Cookie_httpOnly :: "cookie \<Rightarrow> bool" where
  "Cookie_httpOnly c = data_httpOnly c"

definition Cookie_set_httpOnly :: "bool \<Rightarrow> cookie \<Rightarrow> cookie" where
  "Cookie_set_httpOnly val c = cookie_set_httpOnly val c"

definition Cookie_expires :: "cookie \<Rightarrow> int" where
  "Cookie_expires c = data_expires c"

definition Cookie_set_expires :: "int \<Rightarrow> cookie \<Rightarrow> cookie" where
  "Cookie_set_expires val c = cookie_set_expires val c"

definition Cookie_path :: "cookie \<Rightarrow> string" where
  "Cookie_path c = data_path c"

definition Cookie_set_path :: "string \<Rightarrow> cookie \<Rightarrow> cookie" where
  "Cookie_set_path val c = cookie_set_path val c"

definition Cookie_domain :: "cookie \<Rightarrow> string" where
  "Cookie_domain c = data_domain c"

definition Cookie_set_domain :: "string \<Rightarrow> cookie \<Rightarrow> cookie" where
  "Cookie_set_domain val c = cookie_set_domain val c"

definition Cookie_permanent :: "cookie \<Rightarrow> bool" where
  "Cookie_permanent c = cookie_permanent c"

definition Cookie_set_permanent :: "bool \<Rightarrow> cookie \<Rightarrow> cookie" where
  "Cookie_set_permanent val c = cookie_set_permanent val c"

definition Cookie_toString :: "cookie \<Rightarrow> string result" where
  "Cookie_toString c = cookie_toString c"

definition Cookie_urlEncode :: "bool \<Rightarrow> cookie \<Rightarrow> cookie" where
  "Cookie_urlEncode val c = cookie_urlEncode val c"

section \<open>Reading what was written\<close>

text \<open>What a handler has set it reads again: the status, and a header under any spelling of its name.\<close>

lemma Request_reads:
  assumes "\<not> rq_headers_sent r"
  shows "\<exists>r'. Request_setStatus lib status r = (Inr (), r') \<and> Request_status r' = status"
    and "list_all (\<lambda>c. \<not> isspace c \<and> c \<noteq> NUL) n \<Longrightarrow> n \<noteq> [] \<Longrightarrow> last n \<noteq> CHR ''-'' \<Longrightarrow> StringCIEqual n k \<Longrightarrow>
      \<exists>r'. Request_setHeader n v r = (Inr (), r') \<and> Request_outputHeader r' k = v"
proof -
  show "\<exists>r'. Request_setStatus lib status r = (Inr (), r') \<and> Request_status r' = status"
    using assms by (simp add: Request_setStatus_def Request_status_def rq_status_get_def setStatus_def bindS_def getS_def modifyS_def)
next
  assume n: "list_all (\<lambda>c. \<not> isspace c \<and> c \<noteq> NUL) n" "n \<noteq> []" "last n \<noteq> CHR ''-''" "StringCIEqual n k"
  show "\<exists>r'. Request_setHeader n v r = (Inr (), r') \<and> Request_outputHeader r' k = v"
    by (rule setHeader_replaces[OF assms n(1-3), of v]) (use n(4) in \<open>simp add: Request_setHeader_def Request_outputHeader_def\<close>)
qed

lemma Cookie_reads:
  "Cookie_secure (Cookie_set_secure b c) = b" "Cookie_httpOnly (Cookie_set_httpOnly b c) = b" "Cookie_path (Cookie_set_path s c) = s"
  "Cookie_domain (Cookie_set_domain s c) = s" "Cookie_expires (Cookie_set_expires t c) = t"
  "Cookie_permanent (Cookie_set_permanent b c) = b" "Cookie_permanent (Cookie_set_expires t c) \<longleftrightarrow> t = MAX_EXPIRES_TIME"
  by (simp_all add: Cookie_secure_def Cookie_set_secure_def data_secure_def cookie_set_secure_def Cookie_httpOnly_def
      Cookie_set_httpOnly_def data_httpOnly_def cookie_set_httpOnly_def Cookie_path_def Cookie_set_path_def data_path_def
      cookie_set_path_def Cookie_domain_def Cookie_set_domain_def data_domain_def cookie_set_domain_def Cookie_expires_def
      Cookie_set_expires_def data_expires_def cookie_set_expires_def Cookie_permanent_def Cookie_set_permanent_def
      cookie_permanent_def cookie_set_permanent_def MAX_EXPIRES_TIME_def)

end
