(* ===== verification/Spec2Isabelle.thy ===== *)
theory Spec2Isabelle
  imports Multipart Request_Roundtrip Request_Attach Thread_Pool Request_Thread_Pool Handler_Set Globals Http_Date_Parse Hash_Utils
    Component_Set Statistics Config_Xml File_Cache Attach_Cached Fcgi_Server Loggers Startup Daemon_Main Daemon_Run Request_Output Helpers Component_Lifecycle Log4cxx_Logger Request_Methods
begin

text \<open>
  A verification of the library and the daemon of \<^verbatim>\<open>Fastcgi-Daemon\<close>, a C++ server that accepts FastCGI
  requests, parses them into \<^verbatim>\<open>Request\<close> objects, chooses the handlers that the configuration names for them, and
  runs these in thread pools.

  \<^bold>\<open>The program and its model.\<close> The theories follow the components of the program from the bottom up; paths are
  relative to \<^verbatim>\<open>src\<close>.

  \<^item> \<open>Prelude\<close>: exceptions as values (\<open>error\<close>, with three outcomes that are not exceptions: an access outside of a
    memory block, a loop that does not end, and \<^verbatim>\<open>std::terminate\<close>), the result type, the monad of code that
    mutates an object and may throw, 64-bit arithmetic with its wrap-around, and lemmas on byte ranges.
    \<open>C_Library\<close> has the functions of the C and C++ library the sources call (\<^verbatim>\<open>tolower\<close>, \<^verbatim>\<open>strncasecmp\<close>,
    \<^verbatim>\<open>std::search\<close>, \<^verbatim>\<open>std::find\<close>), \<open>Containers\<close> the hash maps, ordered maps and sets of
    \<^verbatim>\<open>include/details/parser.h\<close> and \<^verbatim>\<open>functors.h\<close> as lists of entries.
  \<^item> \<open>Ranges\<close>, \<open>String_Utils\<close>, \<open>Http_Date\<close>, \<open>Http_Date_Parse\<close>, \<open>Hash_Utils\<close>: \<^verbatim>\<open>include/details/range.h\<close> and
    \<^verbatim>\<open>library/util.cpp\<close>. A range is a text and two offsets. Splitting and trimming refine operations on the text;
    url-encoding is decoded to what it was made from; the calendar day of a date is the one of its time stamp, and a
    date that is written is read back, moved by what the time zone has changed since (\<open>date_roundtrip\<close>), with \<^verbatim>\<open>strptime\<close>
    and \<^verbatim>\<open>mktime\<close> of the C library as far as the formats of the program use them. The hexadecimal text of a digest shows the digest, so that the names of cache
    files collide only when it does (\<open>cache_file_names\<close>). \<open>Helpers\<close> is the owning pointer of
    \<^verbatim>\<open>include/fastcgi2/helpers.h\<close>.
  \<^item> \<open>Mmap_File\<close>, \<open>Buffer_Impl\<close>, \<open>Data_Buffer\<close>, \<open>Buffer_Utils\<close>: \<^verbatim>\<open>request-cache/mmap_file.cpp\<close>,
    \<^verbatim>\<open>library/string_buffer.cpp\<close>, \<^verbatim>\<open>request-cache/file_buffer.cpp\<close> and \<^verbatim>\<open>library/data_buffer.cpp\<close>. Storages live on
    an explicit heap, and buffers are views of them, so that aliasing is visible. The locale \<open>buffer_impl\<close> is the
    contract of a storage; both kinds and the virtual dispatch are interpretations, and the lemmas on buffers
    rest on the contract alone.
  \<^item> \<open>Cookies\<close>, \<open>Request_Impl\<close>, \<open>Request_Parser\<close>, \<open>Multipart\<close>, \<open>Request_Attach\<close>, \<open>Request_Serialize\<close>,
    \<open>Request_Roundtrip\<close>: \<^verbatim>\<open>library/cookie.cpp\<close>, \<^verbatim>\<open>library/requestimpl.cpp\<close> and \<^verbatim>\<open>library/parser.cpp\<close>. The state of a
    request is the record \<open>request_impl\<close>. The theories show what the output operations send, how environment, query, form and multipart body become headers, arguments and files,
    and that the binary form of a request in the cache is read back as the same request, while arbitrary bytes
    are read without an access outside of the buffer. \<open>Attach_Cached\<close> composes reading, form parsing and
    serialization for a body that is kept in a file of the cache (\<open>attach_cached\<close>). What is shown of multipart bodies is
    for bodies in memory: in a file, \<^verbatim>\<open>FileBuffer::trim\<close> is at fault (\<open>file_trim_ignores_text\<close>). \<open>Request_Output\<close> has
    what a client gets from any sequence of calls on a request (\<open>response_form\<close>). \<open>Request_Methods\<close> has the methods of the
    classes \<^verbatim>\<open>Request\<close> and \<^verbatim>\<open>Cookie\<close> that handlers call.
  \<^item> \<open>Runs\<close>, \<open>Thread_Pool\<close>, \<open>Request_Thread_Pool\<close>: \<^verbatim>\<open>include/details/thread_pool.h\<close> and
    \<^verbatim>\<open>library/request_thread_pool.cpp\<close>. A pool is a step relation whose steps are its critical sections, so that
    a run is an interleaving of the callers and the workers. The locales \<open>invariant_system\<close> and
    \<open>bounded_system\<close> carry the proofs over all runs. \<open>Request_Thread_Pool\<close> is the task of a worker: handlers,
    exceptions and the error page.
  \<^item> \<open>Config_Xml\<close>, \<open>Handler_Set\<close>, \<open>Component_Set\<close>, \<open>Globals\<close>, \<open>Statistics\<close>: \<^verbatim>\<open>library/config.cpp\<close>, \<^verbatim>\<open>library/xml.cpp\<close>,
    \<^verbatim>\<open>library/handlerset.cpp\<close>, \<^verbatim>\<open>library/request_filter.cpp\<close>, \<^verbatim>\<open>library/componentset.cpp\<close>, \<^verbatim>\<open>library/loader.cpp\<close>,
    \<^verbatim>\<open>library/globals.cpp\<close>, \<^verbatim>\<open>library/server.cpp\<close> and \<^verbatim>\<open>statistics/response_time_handler.cpp\<close>: the configuration, the
    choice of a handler, the life cycle of components, the pools and the dispatch of a request to them, and the
    counters of response times. \<open>Startup\<close> is the constructor of \<^verbatim>\<open>Globals\<close>, which puts them together.
  \<^item> \<open>Example_Component\<close>, \<open>Component_Lifecycle\<close>: \<^verbatim>\<open>library/except.cpp\<close>, \<^verbatim>\<open>library/component_context.cpp\<close>,
    \<^verbatim>\<open>include/fastcgi2/component.h\<close>, \<^verbatim>\<open>component_factory.h\<close> and \<^verbatim>\<open>example/example.cpp\<close>: exceptions, the context of a
    component, the tables of factories and the handlers of the example; and the destructor of the component set, which
    unloads a component before those it has found (\<open>dependencies_outlive\<close>).
  \<^item> \<open>File_Cache\<close>: \<^verbatim>\<open>request-cache/file_cache.cpp\<close>. The cache directory is a map from names to files, where several
    names may lead to one file, as hard links do; the queue of requests that wait to be tried again is ordered by
    time. A request that is saved is served later as the same request (\<open>saved_request_served\<close>, which rests on the
    round trip of its binary form), and every try is counted (\<open>retries_counted\<close>).
  \<^item> \<open>Request_Facade\<close>, \<open>Fcgi_Request\<close>, \<open>Fcgi_Server\<close>: \<^verbatim>\<open>library/request.cpp\<close>, \<^verbatim>\<open>main/fcgi_request.cpp\<close>,
    \<^verbatim>\<open>main/endpoint.cpp\<close> and \<^verbatim>\<open>main/fcgi_server.cpp\<close>. The threads of the endpoints are a step relation with a phase
    for every point at which another thread may run; the busy counters, the end of all threads after a stop and a
    gap in \<^verbatim>\<open>join\<close> are shown over all runs. \<open>serve_request\<close> is the work on one request, from the environment and
    the stream to the queue of a pool or an error page (\<open>dispatch_outcomes\<close>, \<open>form_queued\<close>, \<open>short_form_refused\<close>), with the
    lines that it logs; it composes the theories above. \<open>Daemon_Main\<close> is \<^verbatim>\<open>main/main.cpp\<close> with the start of the server and the thread that waits for the stop
    signal: the configuration, the components, the pools and the endpoints lead to a state from which the threads start.
    \<open>Daemon_Run\<close> composes the steps of the endpoints, the work on requests, the thread of the request cache and the threads
    of all pools to \<open>daemon_step\<close>: in every state of a run the invariants of the endpoints and of the pools hold
    (\<open>daemon_running\<close>), and a signal leads to the end of all threads and of the program (\<open>signal_stops\<close>).
  \<^item> \<open>Loggers\<close>, \<open>Log4cxx_Logger\<close>: \<^verbatim>\<open>library/logger.cpp\<close>, \<^verbatim>\<open>syslog/syslog-logger.cpp\<close>,
    \<^verbatim>\<open>file-logger/file_logger.cpp\<close> and \<^verbatim>\<open>logging/logger.cpp\<close>. The callers of the file logger, its writing thread and its
    destructor are a step relation; the lines are written in their order, and a lost notification at the end is shown.

  \<^bold>\<open>Bounds and fuel.\<close> Loops over a buffer have one turn more than the buffer has bytes, since every turn shortens
  it: \<open>parseLine_total\<close>, \<open>parsePart_total\<close>, \<open>db_chunks_ok\<close>, \<open>parse_safe\<close> and \<open>form_in_memory\<close> show that this is
  enough. Loading of components has one turn more than there are components, since each nested load marks another
  one (\<open>loading_ends\<close>). The loops of \<^verbatim>\<open>parseMultipart\<close> and \<^verbatim>\<open>resolveVariables\<close>, which may run for ever, are partial
  functions whose value is \<open>None\<close> then; that they end is proved for the inputs on which they do
  (\<open>multipart_ends\<close>, \<open>resolve_ends\<close>), and that they do not end for others (\<open>multipart_loops\<close>,
  \<open>resolve_self_loops\<close>).

  \<^bold>\<open>Parameters.\<close> Code outside of the repository is an argument of the definitions: \<^verbatim>\<open>boost::lexical_cast\<close>
  (\<open>boost\<close>), \<^verbatim>\<open>boost::regex\<close> (\<open>regex_lib\<close>; compiling and matching may both throw), libxml2 (\<open>xml_lib\<close>), the system calls (\<open>syscalls\<close>), the clock and the
  digest of the cache (\<open>cache_env\<close>), the time zone with its offsets at every date, the FastCGI library, the dynamic linker, and the handlers and components that
  users write.

  \<^bold>\<open>Not modelled.\<close> Failing allocations and sizes beyond what an \<^verbatim>\<open>int\<close> can hold in the interface of a stream. What the
  libraries do inside (log4cxx, libxml2, OpenSSL, FastCGI); constructors and destructors that only keep or release memory;
  accessors of a field that are the field of the record; the tests under \<^verbatim>\<open>tests\<close>. Where a step takes more than the code
  does at once: the stop of the server sets its flag and stops all pools in one step; \<^verbatim>\<open>save\<close>, \<^verbatim>\<open>create\<close> and a round of the
  thread of the request cache are one step each, although the code locks its two maps one after the other. Where the
  outside is taken as well-behaved: a \<^verbatim>\<open>write\<close> of the file logger writes all its lines; the number of a thread is not
  given to another one in the same second, when the thread-specific key of the cache would be new; a component does not
  catch the exception of a lookup in its own \<^verbatim>\<open>onLoad\<close>.
\<close>

end
